(* ===== verification/Prelude.thy ===== *)
theory Prelude
  imports Main "HOL-Library.Word" "HOL-Library.Multiset" "HOL-Library.Sublist"
begin

text \<open>
  The base of the development: names for the machine integers of the data
  plane, the checked and saturating arithmetic of the Rust core library, the
  little- and big-endian byte codecs, slices, the result type with its early
  return, and the slice operations \<^verbatim>\<open>partition_point\<close> and
  \<^verbatim>\<open>sort_by_key\<close> the storage engine uses.  Facts that the component
  proofs share are declared \<^verbatim>\<open>simp\<close> or collected in
  \<^verbatim>\<open>unat_arith\<close> (word order and arithmetic read as naturals) and
  \<^verbatim>\<open>codec\<close> (round trips of encoders and decoders).
\<close>

named_theorems unat_arith \<open>word comparisons and arithmetic as natural numbers\<close>
named_theorems codec \<open>decoding what an encoder wrote\<close>

section \<open>Machine integers\<close>

type_synonym u8 = "8 word"
type_synonym u16 = "16 word"
type_synonym u32 = "32 word"
type_synonym u64 = "64 word"
type_synonym bytes = "u8 list"

definition checked_add :: "'a::len word \<Rightarrow> 'a word \<Rightarrow> 'a word option" where
  "checked_add a b = (if unat a + unat b < 2 ^ LENGTH('a) then Some (a + b) else None)"

definition checked_sub :: "'a::len word \<Rightarrow> 'a word \<Rightarrow> 'a word option" where
  "checked_sub a b = (if b \<le> a then Some (a - b) else None)"

definition checked_mul :: "'a::len word \<Rightarrow> 'a word \<Rightarrow> 'a word option" where
  "checked_mul a b = (if unat a * unat b < 2 ^ LENGTH('a) then Some (a * b) else None)"

definition saturating_add :: "'a::len word \<Rightarrow> 'a word \<Rightarrow> 'a word" where
  "saturating_add a b = (if unat a + unat b < 2 ^ LENGTH('a) then a + b else - 1)"

definition saturating_sub :: "'a::len word \<Rightarrow> 'a word \<Rightarrow> 'a word" where
  "saturating_sub a b = (if b \<le> a then a - b else 0)"

definition saturating_mul :: "'a::len word \<Rightarrow> 'a word \<Rightarrow> 'a word" where
  "saturating_mul a b = (if unat a * unat b < 2 ^ LENGTH('a) then a * b else - 1)"

text \<open>\<^verbatim>\<open>u32::try_from(len)\<close> and its relatives: a length that fits, or nothing.\<close>

definition try_from_nat :: "nat \<Rightarrow> 'a::len word option" where
  "try_from_nat n = (if n < 2 ^ LENGTH('a) then Some (of_nat n) else None)"

lemmas unat_order [unat_arith] = word_le_nat_alt word_less_nat_alt

lemma unat_bound: "unat (w :: 'a::len word) < 2 ^ LENGTH('a)"
  by (rule unsigned_less)

lemma unat_bound_le: "unat (w :: 'a::len word) \<le> 2 ^ LENGTH('a) - 1"
  using unat_bound [of w] by linarith

lemma unat_max [unat_arith]: "unat (- 1 :: 'a::len word) = 2 ^ LENGTH('a) - 1"
  by (simp add: unsigned_minus_1_eq_mask mask_eq_exp_minus_1)

lemma unat_saturating_add [unat_arith]:
  "unat (saturating_add a b) = min (unat a + unat b) (2 ^ LENGTH('a) - 1)"
  for a b :: "'a::len word"
  by (cases "unat a + unat b < 2 ^ LENGTH('a)")
    (auto simp: saturating_add_def unat_max unat_add_lem [THEN iffD1] min_def)

lemma unat_saturating_sub [unat_arith]:
  "unat (saturating_sub a b) = unat a - unat b" for a b :: "'a::len word"
  by (simp add: saturating_sub_def unat_sub word_le_nat_alt)

lemma unat_saturating_mul [unat_arith]:
  "unat (saturating_mul a b) = min (unat a * unat b) (2 ^ LENGTH('a) - 1)"
  for a b :: "'a::len word"
proof (cases "unat a * unat b < 2 ^ LENGTH('a)")
  case True
  then show ?thesis by (simp add: saturating_mul_def unat_mult_lem [THEN iffD1])
next
  case False
  then have "2 ^ LENGTH('a) - 1 \<le> unat a * unat b" by linarith
  with False show ?thesis by (simp add: saturating_mul_def unat_max del: One_nat_def)
qed

lemma saturating_add_0 [simp]:
  "saturating_add a 0 = a" "saturating_add 0 a = a" for a :: "'a::len word"
  by (simp_all add: saturating_add_def unat_bound)

lemma saturating_sub_0 [simp]: "saturating_sub a 0 = a" for a :: "'a::len word"
  by (simp add: saturating_sub_def)

lemma saturating_add_ge [simp, intro]: "a \<le> saturating_add a b" for a b :: "'a::len word"
  using unat_bound_le [of a] by (simp add: unat_arith)

lemma saturating_add_ge2 [simp, intro]: "b \<le> saturating_add a b" for a b :: "'a::len word"
  using unat_bound_le [of b] by (simp add: unat_arith)

lemma saturating_sub_le [simp, intro]: "saturating_sub a b \<le> a" for a b :: "'a::len word"
  by (simp add: unat_arith)

lemma saturating_add_mono:
  "a \<le> a' \<Longrightarrow> b \<le> b' \<Longrightarrow> saturating_add a b \<le> saturating_add a' b'"
  for a b :: "'a::len word"
  by (simp add: unat_arith)

lemma saturating_add_exact:
  "unat a + unat b < 2 ^ LENGTH('a) \<Longrightarrow> saturating_add a b = a + b" for a b :: "'a::len word"
  by (simp add: saturating_add_def)

lemma checked_add_Some [unat_arith]:
  "checked_add a b = Some c \<longleftrightarrow> unat c = unat a + unat b" for a b :: "'a::len word"
proof (cases "unat a + unat b < 2 ^ LENGTH('a)")
  case True
  then have "unat (a + b) = unat a + unat b" by (simp add: unat_add_lem)
  with True show ?thesis by (auto simp: checked_add_def word_unat_eq_iff)
next
  case False
  with unat_bound [of c] have "unat c \<noteq> unat a + unat b" by linarith
  with False show ?thesis by (simp add: checked_add_def)
qed

lemma checked_add_None [unat_arith]:
  "checked_add a b = None \<longleftrightarrow> 2 ^ LENGTH('a) \<le> unat a + unat b" for a b :: "'a::len word"
  by (auto simp: checked_add_def)

lemma checked_sub_Some [unat_arith]:
  "checked_sub a b = Some c \<longleftrightarrow> unat a = unat c + unat b" for a b :: "'a::len word"
  by (auto simp: checked_sub_def word_unat_eq_iff unat_sub word_le_nat_alt)

lemma checked_mul_Some [unat_arith]:
  "checked_mul a b = Some c \<longleftrightarrow> unat c = unat a * unat b" for a b :: "'a::len word"
proof (cases "unat a * unat b < 2 ^ LENGTH('a)")
  case True
  then have "unat (a * b) = unat a * unat b" by (simp add: unat_mult_lem)
  with True show ?thesis by (auto simp: checked_mul_def word_unat_eq_iff)
next
  case False
  with unat_bound [of c] have "unat c \<noteq> unat a * unat b" by linarith
  with False show ?thesis by (simp add: checked_mul_def)
qed

lemma unat_ucast_up:
  "LENGTH('a) \<le> LENGTH('b) \<Longrightarrow> unat (ucast (w :: 'a::len word) :: 'b::len word) = unat w"
proof -
  assume "LENGTH('a) \<le> LENGTH('b)"
  then have "(2 :: nat) ^ LENGTH('a) \<le> 2 ^ LENGTH('b)" by simp
  then have "unat w < 2 ^ LENGTH('b)" using unat_bound [of w] by linarith
  then show ?thesis by (simp add: unsigned_ucast_eq take_bit_nat_eq_self)
qed

lemma unat_ucast_widths [simp]:
  "unat (ucast (w32 :: u32) :: u64) = unat w32"
  "unat (ucast (w16 :: u16) :: u64) = unat w16"
  "unat (ucast (w16 :: u16) :: u32) = unat w16"
  "unat (ucast (w8 :: u8) :: u64) = unat w8"
  "unat (ucast (w8 :: u8) :: u32) = unat w8"
  "unat (ucast (w8 :: u8) :: u16) = unat w8"
  by (simp_all add: unat_ucast_up)

lemma unat_of_nat_small: "n < 2 ^ LENGTH('a) \<Longrightarrow> unat (of_nat n :: 'a::len word) = n"
  by (simp add: unat_of_nat)

lemma try_from_nat_Some [simp]:
  "try_from_nat n = Some (w :: 'a::len word) \<longleftrightarrow> unat w = n"
  using unat_bound [of w] by (auto simp: try_from_nat_def unat_of_nat_small)

section \<open>Byte codecs\<close>

text \<open>
  \<^verbatim>\<open>to_le_bytes\<close>/\<^verbatim>\<open>from_le_bytes\<close> and their big-endian relatives, by way of
  base-256 digits of naturals.
\<close>

primrec le_digits :: "nat \<Rightarrow> nat \<Rightarrow> bytes" where
  "le_digits 0 x = []"
| "le_digits (Suc n) x = of_nat x # le_digits n (x div 256)"

primrec le_value :: "bytes \<Rightarrow> nat" where
  "le_value [] = 0"
| "le_value (b # bs) = unat b + 256 * le_value bs"

definition to_le_bytes :: "'a::len word \<Rightarrow> bytes" where
  "to_le_bytes w = le_digits (LENGTH('a) div 8) (unat w)"

definition from_le_bytes :: "bytes \<Rightarrow> 'a::len word" where
  "from_le_bytes bs = of_nat (le_value bs)"

definition to_be_bytes :: "'a::len word \<Rightarrow> bytes" where
  "to_be_bytes w = rev (to_le_bytes w)"

definition from_be_bytes :: "bytes \<Rightarrow> 'a::len word" where
  "from_be_bytes bs = from_le_bytes (rev bs)"

lemma length_le_digits [simp]: "length (le_digits n x) = n"
  by (induction n arbitrary: x) auto

lemma le_value_le_digits: "le_value (le_digits n x) = x mod 256 ^ n"
proof (induction n arbitrary: x)
  case (Suc n)
  have "x mod (256 * 256 ^ n) = 256 * (x div 256 mod 256 ^ n) + x mod 256"
    by (rule mod_mult2_eq)
  then show ?case by (simp add: Suc.IH unat_of_nat)
qed simp

lemma le_digits_le_value: "le_digits (length bs) (le_value bs) = bs"
proof (induction bs)
  case (Cons b bs)
  have "unat b < 256" using unat_bound [of b] by simp
  then have "(unat b + 256 * le_value bs) div 256 = le_value bs" by simp
  moreover have "(of_nat (unat b + 256 * le_value bs) :: u8) = b"
    using \<open>unat b < 256\<close> by (simp only: word_unat_eq_iff unat_of_nat) simp
  ultimately show ?case using Cons.IH by simp
qed simp

lemma le_value_bound: "le_value bs < 256 ^ length bs"
proof (induction bs)
  case (Cons b bs)
  have "unat b < 256" using unat_bound [of b] by simp
  with Cons.IH show ?case by simp
qed simp

lemma length_to_le_bytes [simp]: "length (to_le_bytes (w :: 'a::len word)) = LENGTH('a) div 8"
  by (simp add: to_le_bytes_def)

lemma length_to_be_bytes [simp]: "length (to_be_bytes (w :: 'a::len word)) = LENGTH('a) div 8"
  by (simp add: to_be_bytes_def)

lemma from_to_le_bytes:
  assumes "LENGTH('a) = 8 * n"
  shows "from_le_bytes (to_le_bytes w) = (w :: 'a::len word)"
proof -
  have "(256 :: nat) ^ n = 2 ^ LENGTH('a)" by (simp add: assms power_mult)
  then show ?thesis using unat_bound [of w]
    by (simp add: from_le_bytes_def to_le_bytes_def le_value_le_digits assms)
qed

lemma to_from_le_bytes:
  assumes "LENGTH('a) = 8 * length bs"
  shows "to_le_bytes (from_le_bytes bs :: 'a::len word) = bs"
proof -
  have "(256 :: nat) ^ length bs = 2 ^ LENGTH('a)" by (simp add: assms power_mult)
  then have "le_value bs < 2 ^ LENGTH('a)" using le_value_bound [of bs] by simp
  then show ?thesis
    by (simp add: from_le_bytes_def to_le_bytes_def unat_of_nat_small assms le_digits_le_value)
qed

lemma from_to_le_bytes_widths [simp, codec]:
  "from_le_bytes (to_le_bytes w16) = (w16 :: u16)"
  "from_le_bytes (to_le_bytes w32) = (w32 :: u32)"
  "from_le_bytes (to_le_bytes w64) = (w64 :: u64)"
  by (rule from_to_le_bytes [of 2] from_to_le_bytes [of 4] from_to_le_bytes [of 8]; simp)+

lemma from_to_be_bytes_widths [simp, codec]:
  "from_be_bytes (to_be_bytes w16) = (w16 :: u16)"
  "from_be_bytes (to_be_bytes w32) = (w32 :: u32)"
  "from_be_bytes (to_be_bytes w64) = (w64 :: u64)"
  by (simp_all add: from_be_bytes_def to_be_bytes_def)

text \<open>A sub-slice \<^verbatim>\<open>bytes[i..i+n]\<close>, used where the code has checked the length.\<close>

definition slice :: "nat \<Rightarrow> nat \<Rightarrow> 'a list \<Rightarrow> 'a list" where
  "slice i n xs = take n (drop i xs)"

lemma slice_here [simp, codec]: "length a = n \<Longrightarrow> slice 0 n (a @ b) = a"
  by (simp add: slice_def)

lemma slice_all [simp, codec]: "length a = n \<Longrightarrow> slice 0 n a = a"
  by (simp add: slice_def)

lemma slice_skip [simp, codec]: "length a \<le> i \<Longrightarrow> slice i n (a @ b) = slice (i - length a) n b"
  by (simp add: slice_def)

lemma slice_Cons [simp, codec]: "0 < i \<Longrightarrow> slice i n (x # xs) = slice (i - 1) n xs"
  by (cases i) (simp_all add: slice_def)

lemma slice_one [simp, codec]: "slice 0 1 (x # xs) = [x]" "slice 0 (Suc 0) (x # xs) = [x]"
  by (simp_all add: slice_def)

text \<open>A single byte \<^verbatim>\<open>bytes[i]\<close>.\<close>

definition byte_at :: "nat \<Rightarrow> 'a list \<Rightarrow> 'a" where
  "byte_at i xs = hd (slice i 1 xs)"

lemma length_slice [simp]: "length (slice i n xs) = min n (length xs - i)"
  by (simp add: slice_def)

section \<open>Results\<close>

text \<open>
  \<^verbatim>\<open>Result<T, E>\<close> is the sum \<^typ>\<open>'e + 'a\<close>; \<^verbatim>\<open>bind_r\<close> is the question mark
  operator (stop at the first error), \<^verbatim>\<open>ok_or\<close> and \<^verbatim>\<open>map_err\<close> the methods of
  the same name.
\<close>

type_synonym ('e, 'a) result = "'e + 'a"

abbreviation Ok :: "'a \<Rightarrow> ('e, 'a) result" where "Ok \<equiv> Inr"
abbreviation Err :: "'e \<Rightarrow> ('e, 'a) result" where "Err \<equiv> Inl"

fun bind_r :: "('e, 'a) result \<Rightarrow> ('a \<Rightarrow> ('e, 'b) result) \<Rightarrow> ('e, 'b) result" where
  "bind_r (Inl e) f = Inl e"
| "bind_r (Inr a) f = f a"

fun ok_or :: "'a option \<Rightarrow> 'e \<Rightarrow> ('e, 'a) result" where
  "ok_or (Some a) e = Inr a"
| "ok_or None e = Inl e"

fun map_err :: "('e \<Rightarrow> 'f) \<Rightarrow> ('e, 'a) result \<Rightarrow> ('f, 'a) result" where
  "map_err f (Inl e) = Inl (f e)"
| "map_err f (Inr a) = Inr a"

definition guard :: "bool \<Rightarrow> 'e \<Rightarrow> ('e, unit) result" where
  "guard b e = (if b then Inr () else Inl e)"

lemma bind_r_Ok [simp]: "bind_r r f = Inr b \<longleftrightarrow> (\<exists>a. r = Inr a \<and> f a = Inr b)"
  by (cases r) auto

lemma bind_r_Err: "bind_r r f = Inl e \<longleftrightarrow> r = Inl e \<or> (\<exists>a. r = Inr a \<and> f a = Inl e)"
  by (cases r) auto

lemma guard_simps [simp]:
  "guard b e = Inr u \<longleftrightarrow> b" "guard b e = Inl e' \<longleftrightarrow> \<not> b \<and> e' = e"
  by (auto simp: guard_def)

lemma ok_or_Ok [simp]: "ok_or x e = Inr a \<longleftrightarrow> x = Some a"
  by (cases x) auto

lemma ok_or_Err [simp]: "ok_or x e = Inl e' \<longleftrightarrow> x = None \<and> e' = e"
  by (cases x) auto

lemma map_err_Ok [simp]: "map_err f r = Inr a \<longleftrightarrow> r = Inr a"
  by (cases r) auto

lemma map_err_Err [simp]: "map_err f r = Inl e \<longleftrightarrow> (\<exists>e'. r = Inl e' \<and> e = f e')"
  by (cases r) auto

text \<open>\<^verbatim>\<open>collect::<Result<Vec<_>, _>>\<close>: map a fallible step, stop at the first error.\<close>

primrec traverse :: "('a \<Rightarrow> ('e, 'b) result) \<Rightarrow> 'a list \<Rightarrow> ('e, 'b list) result" where
  "traverse f [] = Inr []"
| "traverse f (x # xs) = bind_r (f x) (\<lambda>y. bind_r (traverse f xs) (\<lambda>ys. Inr (y # ys)))"

lemma traverse_Ok: "traverse f xs = Inr ys \<longleftrightarrow> list_all2 (\<lambda>x y. f x = Inr y) xs ys"
  by (induction xs arbitrary: ys) (auto simp: list_all2_Cons1)

lemma traverse_map_Ok: "(\<And>x. x \<in> set xs \<Longrightarrow> f (g x) = Inr x) \<Longrightarrow> traverse f (map g xs) = Inr xs"
  by (induction xs) auto

section \<open>Searching and ordering slices\<close>

text \<open>
  \<^verbatim>\<open>partition_point\<close> of a slice whose prefix satisfies the predicate and whose
  rest does not: the length of that prefix.
\<close>

definition partition_point :: "('a \<Rightarrow> bool) \<Rightarrow> 'a list \<Rightarrow> nat" where
  "partition_point P xs = length (takeWhile P xs)"

lemma partition_point_le [simp]: "partition_point P xs \<le> length xs"
  by (simp add: partition_point_def length_takeWhile_le)

lemma nth_before_partition_point: "i < partition_point P xs \<Longrightarrow> P (xs ! i)"
  unfolding partition_point_def by (metis nth_mem set_takeWhileD takeWhile_nth)

lemma nth_partition_point: "partition_point P xs < length xs \<Longrightarrow> \<not> P (xs ! partition_point P xs)"
  unfolding partition_point_def by (rule nth_length_takeWhile)

lemma take_partition_point: "take (partition_point P xs) xs = takeWhile P xs"
  by (simp add: partition_point_def takeWhile_eq_take [symmetric])

lemma drop_partition_point: "drop (partition_point P xs) xs = dropWhile P xs"
  by (simp add: partition_point_def dropWhile_eq_drop [symmetric])

text \<open>On a slice sorted by a key, a downward closed predicate of the key is a prefix.\<close>

lemma takeWhile_sorted_key:
  assumes "sorted (map f xs)" "\<And>x y. P y \<Longrightarrow> f x \<le> f y \<Longrightarrow> P x"
  shows "takeWhile P xs = filter P xs" "dropWhile P xs = filter (\<lambda>x. \<not> P x) xs"
proof -
  have "takeWhile P xs = filter P xs \<and> dropWhile P xs = filter (\<lambda>x. \<not> P x) xs"
    using assms(1)
  proof (induction xs)
    case (Cons x xs)
    have "\<not> P x \<Longrightarrow> \<forall>y\<in>set xs. \<not> P y" using Cons.prems assms(2) by auto
    with Cons show ?case by (cases "P x") (simp_all add: filter_False)
  qed simp
  then show "takeWhile P xs = filter P xs" "dropWhile P xs = filter (\<lambda>x. \<not> P x) xs" by simp_all
qed

lemma sorted_map_insert:
  assumes "sorted (map f (xs @ ys))" "\<forall>x\<in>set xs. f x \<le> f z" "\<forall>y\<in>set ys. f z \<le> f y"
  shows "sorted (map f (xs @ z # ys))"
  using assms by (auto simp: sorted_append)

primrec position :: "('a \<Rightarrow> bool) \<Rightarrow> 'a list \<Rightarrow> nat option" where
  "position P [] = None"
| "position P (x # xs) = (if P x then Some 0 else map_option Suc (position P xs))"

lemma position_Some:
  "position P xs = Some i \<longleftrightarrow> i < length xs \<and> P (xs ! i) \<and> (\<forall>j<i. \<not> P (xs ! j))"
proof (induction xs arbitrary: i)
  case (Cons x xs)
  show ?case by (cases i) (auto simp: Cons.IH less_Suc_eq_0_disj)
qed simp

lemma position_None: "position P xs = None \<longleftrightarrow> (\<forall>x\<in>set xs. \<not> P x)"
  by (induction xs) auto

section \<open>Stateful computations\<close>

text \<open>
  Code that changes state and may fail is a function from the state to a
  result and the state it leaves; an error keeps the changes made before it.
\<close>

type_synonym ('s, 'e, 'a) stm = "'s \<Rightarrow> ('e, 'a) result \<times> 's"

definition ret_s :: "'a \<Rightarrow> ('s, 'e, 'a) stm" where
  "ret_s a s = (Inr a, s)"

definition err_s :: "'e \<Rightarrow> ('s, 'e, 'a) stm" where
  "err_s e s = (Inl e, s)"

definition bind_s :: "('s, 'e, 'a) stm \<Rightarrow> ('a \<Rightarrow> ('s, 'e, 'b) stm) \<Rightarrow> ('s, 'e, 'b) stm" where
  "bind_s m f s = (case m s of (Inl e, s') \<Rightarrow> (Inl e, s') | (Inr a, s') \<Rightarrow> f a s')"

definition lift_s :: "('e, 'a) result \<Rightarrow> ('s, 'e, 'a) stm" where
  "lift_s r s = (r, s)"

definition gets_s :: "('s \<Rightarrow> 'a) \<Rightarrow> ('s, 'e, 'a) stm" where
  "gets_s f s = (Inr (f s), s)"

definition modify_s :: "('s \<Rightarrow> 's) \<Rightarrow> ('s, 'e, unit) stm" where
  "modify_s f s = (Inr (), f s)"

lemma stm_simps [simp]:
  "ret_s a s = (Inr a, s)" "err_s e s = (Inl e, s)" "lift_s r s = (r, s)"
  "gets_s f s = (Inr (f s), s)" "modify_s g s = (Inr (), g s)"
  by (simp_all add: ret_s_def err_s_def lift_s_def gets_s_def modify_s_def)

lemma bind_s_step [simp]:
  "m s = (Inr a, s') \<Longrightarrow> bind_s m f s = f a s'"
  "m s = (Inl e, s') \<Longrightarrow> bind_s m f s = (Inl e, s')"
  by (simp_all add: bind_s_def)

lemma bind_s_Ok:
  "bind_s m f s = (Inr b, s'') \<longleftrightarrow> (\<exists>a s'. m s = (Inr a, s') \<and> f a s' = (Inr b, s''))"
  by (auto simp: bind_s_def split: prod.splits sum.splits)

lemma bind_s_Err:
  "bind_s m f s = (Inl e, s'') \<longleftrightarrow>
     m s = (Inl e, s'') \<or> (\<exists>a s'. m s = (Inr a, s') \<and> f a s' = (Inl e, s''))"
  by (auto simp: bind_s_def split: prod.splits sum.splits)

end
