(* ===== verification/Space_Guard.thy ===== *)
theory Space_Guard
  imports Prelude
begin

text \<open>
  The arithmetic of the physical space guard
  (\<^verbatim>\<open>data-plane/src/storage/space_guard.rs\<close>): rounding to the file
  system's allocation unit, the peak estimate of a write, the capacity check.
  The file-lock and \<^verbatim>\<open>fstatvfs\<close> parts of that module are operating-system
  calls; a snapshot of the file system is a record the checks are applied to.
\<close>

section \<open>Data\<close>

datatype SpaceGuardError =
    Busy
  | UnknownCapacity
  | InsufficientSpace (available: u64) (required: u64)
  | ArithmeticOverflow
  | InvalidAllocationUnit
  | SpaceIo string

record FilesystemSnapshot =
  filesystem_id :: u64
  allocation_unit :: u64
  available_bytes :: u64

definition SPACE_RESERVE_BYTES :: u64 where
  "SPACE_RESERVE_BYTES = 64 * 1024 * 1024"

definition BLOB_RECORD_OVERHEAD :: u64 where
  "BLOB_RECORD_OVERHEAD = 24 + 59 + 40 + 52"

definition SEGMENT_OVERHEAD :: u64 where
  "SEGMENT_OVERHEAD = 96 + 4"

section \<open>Operations\<close>

text \<open>What \<^verbatim>\<open>probe\<close> makes of the \<^verbatim>\<open>fstatvfs\<close> figures.\<close>

definition snapshot_of_statvfs ::
  "u64 \<Rightarrow> u64 \<Rightarrow> u64 \<Rightarrow> (SpaceGuardError, FilesystemSnapshot) result" where
  "snapshot_of_statvfs dev f_frsize f_bavail =
     (if f_frsize = 0 then Err InvalidAllocationUnit
      else bind_r (ok_or (checked_mul f_bavail f_frsize) ArithmeticOverflow) (\<lambda>avail.
        Ok \<lparr>filesystem_id = dev, allocation_unit = f_frsize, available_bytes = avail\<rparr>))"

definition round_up_to_allocation_unit :: "u64 \<Rightarrow> u64 \<Rightarrow> (SpaceGuardError, u64) result" where
  "round_up_to_allocation_unit bytes unit_size =
     (if unit_size = 0 then Err InvalidAllocationUnit
      else if bytes = 0 then Ok 0
      else let remainder = bytes mod unit_size in
        if remainder = 0 then Ok bytes
        else ok_or (checked_add bytes (unit_size - remainder)) ArithmeticOverflow)"

definition ensure_capacity :: "u64 \<Rightarrow> u64 \<Rightarrow> u64 \<Rightarrow> (SpaceGuardError, unit) result" where
  "ensure_capacity avail peak_extra_bytes reserve_bytes =
     bind_r (ok_or (checked_add peak_extra_bytes reserve_bytes) ArithmeticOverflow) (\<lambda>req.
     if avail < req then Err (InsufficientSpace avail req) else Ok ())"

primrec try_sum :: "u64 \<Rightarrow> u64 list \<Rightarrow> (SpaceGuardError, u64) result" where
  "try_sum acc [] = Ok acc"
| "try_sum acc (v # vs) = bind_r (ok_or (checked_add acc v) ArithmeticOverflow) (\<lambda>s. try_sum s vs)"

definition estimate_write_peak_bytes ::
  "u64 \<Rightarrow> u64 \<Rightarrow> u64 \<Rightarrow> u64 \<Rightarrow> u64 \<Rightarrow> (SpaceGuardError, u64) result" where
  "estimate_write_peak_bytes payload_bytes blob_count touched_segments metadata_temporary_bytes unit_size =
     bind_r (round_up_to_allocation_unit payload_bytes unit_size) (\<lambda>payload.
     bind_r (ok_or (checked_mul blob_count BLOB_RECORD_OVERHEAD) ArithmeticOverflow) (\<lambda>records.
     bind_r (ok_or (checked_mul touched_segments SEGMENT_OVERHEAD) ArithmeticOverflow) (\<lambda>segments.
     bind_r (round_up_to_allocation_unit metadata_temporary_bytes unit_size) (\<lambda>metadata.
     try_sum 0 [payload, records, segments, metadata]))))"

section \<open>Correctness\<close>

text \<open>The least multiple of the allocation unit that is not below the size.\<close>

lemma round_up_nat:
  fixes b u :: nat
  assumes "0 < u" "b mod u \<noteq> 0"
  shows "u dvd b + (u - b mod u)" "b \<le> b + (u - b mod u)" "b + (u - b mod u) < b + u"
proof -
  have le: "b mod u \<le> u" using assms(1) by (simp add: less_imp_le)
  have "b + (u - b mod u) = (b - b mod u) + u"
    using le mod_less_eq_dividend [of b u] by linarith
  then show "u dvd b + (u - b mod u)" by (metis dvd_add dvd_minus_mod dvd_refl)
  show "b \<le> b + (u - b mod u)" by simp
  show "b + (u - b mod u) < b + u" using assms le by linarith
qed

lemma round_up_Ok:
  "round_up_to_allocation_unit b u = Ok r \<Longrightarrow>
     u \<noteq> 0 \<and> unat u dvd unat r \<and> unat b \<le> unat r \<and> unat r < unat b + unat u"
proof -
  assume ok: "round_up_to_allocation_unit b u = Ok r"
  then have u: "u \<noteq> 0" by (auto simp: round_up_to_allocation_unit_def split: if_splits)
  then have pos: "0 < unat u" using unat_eq_zero by blast
  have modu: "unat (b mod u) = unat b mod unat u" by (rule unat_mod)
  show ?thesis
  proof (cases "b mod u = 0")
    case True
    with ok u have "r = b" by (auto simp: round_up_to_allocation_unit_def split: if_splits)
    moreover have "unat b mod unat u = 0" using True modu by simp
    ultimately show ?thesis using u pos by (auto simp: mod_eq_0_iff_dvd)
  next
    case False
    then have nz: "unat b mod unat u \<noteq> 0" using modu unat_eq_zero by metis
    have "b \<noteq> 0" using False by auto
    with ok u False have r: "unat r = unat b + unat (u - b mod u)"
      by (simp add: round_up_to_allocation_unit_def Let_def unat_arith)
    have "b mod u \<le> u" using pos modu by (simp add: word_le_nat_alt less_imp_le)
    then have "unat r = unat b + (unat u - unat b mod unat u)" using r modu by (simp add: unat_sub)
    then show ?thesis using round_up_nat [OF pos nz] u by metis
  qed
qed

lemma try_sum_Ok: "try_sum acc vs = Ok r \<longleftrightarrow> unat r = unat acc + sum_list (map unat vs)"
proof (induction vs arbitrary: acc)
  case (Cons v vs)
  show ?case
  proof
    assume "try_sum acc (v # vs) = Ok r"
    then show "unat r = unat acc + sum_list (map unat (v # vs))"
      by (auto simp: Cons.IH unat_arith)
  next
    assume r: "unat r = unat acc + sum_list (map unat (v # vs))"
    then have "unat acc + unat v < 2 ^ LENGTH(64)" using unat_bound [of r] by simp
    then have "checked_add acc v = Some (acc + v)" "unat (acc + v) = unat acc + unat v"
      by (simp_all add: checked_add_def unat_add_lem [THEN iffD1])
    with r show "try_sum acc (v # vs) = Ok r" by (simp add: Cons.IH)
  qed
qed (auto simp: word_unat_eq_iff)

lemma ensure_capacity_Ok:
  "ensure_capacity avail peak reserve = Ok () \<longleftrightarrow> unat peak + unat reserve \<le> unat avail"
proof
  assume "ensure_capacity avail peak reserve = Ok ()"
  then show "unat peak + unat reserve \<le> unat avail"
    by (auto simp: ensure_capacity_def unat_arith split: if_splits)
next
  assume le: "unat peak + unat reserve \<le> unat avail"
  then have "unat peak + unat reserve < 2 ^ LENGTH(64)" using unat_bound [of avail] by linarith
  then have "checked_add peak reserve = Some (peak + reserve)"
    "unat (peak + reserve) = unat peak + unat reserve"
    by (simp_all add: checked_add_def unat_add_lem [THEN iffD1])
  with le show "ensure_capacity avail peak reserve = Ok ()"
    by (simp add: ensure_capacity_def word_less_nat_alt not_less)
qed

lemma estimate_write_peak_Ok:
  assumes "estimate_write_peak_bytes payload blobs segs meta unit_size = Ok peak"
  shows "unat payload + 175 * unat blobs + 100 * unat segs + unat meta \<le> unat peak"
proof -
  obtain p r s m where
    p: "round_up_to_allocation_unit payload unit_size = Ok p"
    and m: "round_up_to_allocation_unit meta unit_size = Ok m"
    and mult: "unat r = unat blobs * unat BLOB_RECORD_OVERHEAD" "unat s = unat segs * unat SEGMENT_OVERHEAD"
    and "unat peak = sum_list (map unat [p, r, s, m])"
    using assms by (auto simp: estimate_write_peak_bytes_def try_sum_Ok unat_arith
        simp del: try_sum.simps)
  moreover have "unat BLOB_RECORD_OVERHEAD = 175" "unat SEGMENT_OVERHEAD = 100"
    by (simp_all add: BLOB_RECORD_OVERHEAD_def SEGMENT_OVERHEAD_def)
  ultimately show ?thesis using round_up_Ok [OF p] round_up_Ok [OF m] by simp
qed

section \<open>Properties\<close>



end
