(* ===== verification/Rust_Text.thy ===== *)
theory Rust_Text
  imports Prelude
begin

text \<open>
  The text routines of the Rust library that the data plane applies to
  identifiers, environment variables and small state files: trimming,
  lower-casing, parsing and printing of unsigned integers.  Strings are ASCII;
  whitespace is the ASCII part of \<^verbatim>\<open>char::is_whitespace\<close>.
\<close>

definition char_code :: "char \<Rightarrow> nat" where
  "char_code c = of_char c"

definition is_ascii_digit :: "char \<Rightarrow> bool" where
  "is_ascii_digit c \<longleftrightarrow> 48 \<le> char_code c \<and> char_code c \<le> 57"

definition is_ascii_alphanumeric :: "char \<Rightarrow> bool" where
  "is_ascii_alphanumeric c \<longleftrightarrow> is_ascii_digit c \<or>
     65 \<le> char_code c \<and> char_code c \<le> 90 \<or> 97 \<le> char_code c \<and> char_code c \<le> 122"

definition to_ascii_lowercase :: "char \<Rightarrow> char" where
  "to_ascii_lowercase c =
     (if 65 \<le> char_code c \<and> char_code c \<le> 90 then char_of (char_code c + 32) else c)"

definition is_whitespace :: "char \<Rightarrow> bool" where
  "is_whitespace c \<longleftrightarrow> char_code c = 32 \<or> 9 \<le> char_code c \<and> char_code c \<le> 13"

definition trim :: "string \<Rightarrow> string" where
  "trim s = rev (dropWhile is_whitespace (rev (dropWhile is_whitespace s)))"

section \<open>Unsigned integers\<close>

text \<open>\<^verbatim>\<open>str::parse\<close> for unsigned types: an optional plus sign, digits only, no overflow.\<close>

definition digit_value :: "char \<Rightarrow> nat" where
  "digit_value c = char_code c - 48"

definition decimal_value :: "string \<Rightarrow> nat" where
  "decimal_value = foldl (\<lambda>acc c. 10 * acc + digit_value c) 0"

definition parse_nat :: "string \<Rightarrow> nat option" where
  "parse_nat s =
     (let digits = (case s of c # rest \<Rightarrow> if c = CHR ''+'' then rest else s | [] \<Rightarrow> s) in
      if digits \<noteq> [] \<and> list_all is_ascii_digit digits then Some (decimal_value digits) else None)"

definition parse_word :: "string \<Rightarrow> 'a::len word option" where
  "parse_word s = Option.bind (parse_nat s) try_from_nat"

fun decimal :: "nat \<Rightarrow> string" where
  "decimal n = (if n < 10 then [char_of (48 + n)] else decimal (n div 10) @ [char_of (48 + n mod 10)])"

declare decimal.simps [simp del]

lemma digit_char [simp]: "d < 10 \<Longrightarrow> char_code (char_of (48 + d)) = 48 + d"
  by (simp add: char_code_def)

lemma decimal_value_snoc: "decimal_value (s @ [c]) = 10 * decimal_value s + digit_value c"
  by (simp add: decimal_value_def)

lemma decimal_digits: "decimal n \<noteq> [] \<and> list_all is_ascii_digit (decimal n)"
proof (induction n rule: decimal.induct)
  case (1 n)
  then show ?case by (cases "n < 10") (simp_all add: decimal.simps [of n] is_ascii_digit_def)
qed

lemma decimal_value_decimal: "decimal_value (decimal n) = n"
proof (induction n rule: decimal.induct)
  case (1 n)
  show ?case
  proof (cases "n < 10")
    case True
    then show ?thesis by (simp add: decimal.simps [of n] decimal_value_def digit_value_def)
  next
    case False
    moreover have "10 * (n div 10) + n mod 10 = n" by simp
    ultimately show ?thesis using 1
      by (simp add: decimal.simps [of n] decimal_value_snoc digit_value_def)
  qed
qed

lemma parse_decimal [codec]: "parse_nat (decimal n) = Some n"
proof -
  obtain c rest where cs: "decimal n = c # rest" using decimal_digits [of n] by (cases "decimal n") auto
  then have "is_ascii_digit c" using decimal_digits [of n] by simp
  then have "c \<noteq> CHR ''+''" by (auto simp: is_ascii_digit_def char_code_def)
  then show ?thesis using cs decimal_digits [of n] decimal_value_decimal [of n] by (simp add: parse_nat_def)
qed

lemma parse_decimal_word [codec]: "parse_word (decimal (unat w)) = Some (w :: 'a::len word)"
  by (simp add: parse_word_def parse_decimal try_from_nat_def unat_bound)

lemma trim_id: "(\<And>c. c \<in> set s \<Longrightarrow> \<not> is_whitespace c) \<Longrightarrow> trim s = s"
proof -
  assume no: "\<And>c. c \<in> set s \<Longrightarrow> \<not> is_whitespace c"
  then have "dropWhile is_whitespace xs = xs" if "set xs \<subseteq> set s" for xs
    using that by (cases xs) auto
  then show ?thesis by (simp add: trim_def)
qed

lemma trim_bare:
  "\<lbrakk>s \<noteq> [] \<Longrightarrow> \<not> is_whitespace (hd s); s \<noteq> [] \<Longrightarrow> \<not> is_whitespace (last s)\<rbrakk> \<Longrightarrow> trim s = s"
proof -
  assume ends: "s \<noteq> [] \<Longrightarrow> \<not> is_whitespace (hd s)" "s \<noteq> [] \<Longrightarrow> \<not> is_whitespace (last s)"
  have bare: "dropWhile is_whitespace xs = xs" if "xs \<noteq> [] \<Longrightarrow> \<not> is_whitespace (hd xs)" for xs
    using that by (cases xs) auto
  have "dropWhile is_whitespace (rev s) = rev s" using ends(2) by (intro bare) (simp add: hd_rev)
  then show ?thesis using bare [of s] ends(1) by (simp add: trim_def)
qed

lemma trim_ends:
  assumes "trim s \<noteq> []"
  shows "\<not> is_whitespace (hd (trim s))" "\<not> is_whitespace (last (trim s))"
proof -
  define a where "a = dropWhile is_whitespace s"
  define b where "b = dropWhile is_whitespace (rev a)"
  have t: "trim s = rev b" by (simp add: trim_def a_def b_def)
  with assms have "b \<noteq> []" by simp
  then have "\<not> is_whitespace (hd b)" unfolding b_def by (rule hd_dropWhile)
  then show "\<not> is_whitespace (last (trim s))" using \<open>b \<noteq> []\<close> by (simp add: t last_rev)
  have "\<exists>w. rev a = w @ b" unfolding b_def by (metis takeWhile_dropWhile_id)
  then obtain w where "a = rev b @ rev w" by (metis rev_append rev_rev_ident)
  then have "hd a = hd (trim s)" "a \<noteq> []" using \<open>b \<noteq> []\<close> t by auto
  moreover from \<open>a \<noteq> []\<close> have "\<not> is_whitespace (hd a)" unfolding a_def by (rule hd_dropWhile)
  ultimately show "\<not> is_whitespace (hd (trim s))" by simp
qed

lemma trim_trim [simp]: "trim (trim s) = trim s"
  using trim_ends by (intro trim_bare) auto

lemma set_trim: "set (trim s) \<subseteq> set s"
  by (auto simp: trim_def dest!: set_dropWhileD)

lemma trim_digits [simp]: "list_all is_ascii_digit s \<Longrightarrow> trim s = s"
  by (rule trim_id) (auto simp: list_all_iff is_ascii_digit_def is_whitespace_def)

section \<open>Switches\<close>

text \<open>
  An environment switch that is on unless its value is one of the given words,
  and one that is on only for the given words; both compare the trimmed,
  lower-cased value.
\<close>

definition lowercase :: "string \<Rightarrow> string" where
  "lowercase = map to_ascii_lowercase"

definition switch_unless :: "string list \<Rightarrow> bool \<Rightarrow> string option \<Rightarrow> bool" where
  "switch_unless offs def raw =
     (case raw of None \<Rightarrow> def | Some v \<Rightarrow> lowercase (trim v) \<notin> set offs)"

definition switch_only :: "string list \<Rightarrow> bool \<Rightarrow> string option \<Rightarrow> bool" where
  "switch_only ons def raw =
     (case raw of None \<Rightarrow> def | Some v \<Rightarrow> lowercase (trim v) \<in> set ons)"

section \<open>Text files\<close>

text \<open>
  \<^verbatim>\<open>read_to_string\<close> and \<^verbatim>\<open>as_bytes\<close> for ASCII text, \<^verbatim>\<open>str::lines\<close> (a
  newline ends a line, a carriage return before it belongs to the ending),
  \<^verbatim>\<open>split_once\<close>, and the padded form of \<^verbatim>\<open>{:0n}\<close>.
\<close>

definition as_bytes :: "string \<Rightarrow> bytes" where
  "as_bytes = map (\<lambda>c. of_nat (char_code c))"

definition read_text :: "bytes \<Rightarrow> string option" where
  "read_text b = (if list_all (\<lambda>x. x < 128) b then Some (map (\<lambda>x. char_of (unat x)) b) else None)"

definition NEWLINE :: char where "NEWLINE = char_of (10 :: nat)"
definition CARRIAGE_RETURN :: char where "CARRIAGE_RETURN = char_of (13 :: nat)"

definition strip_suffix_char :: "char \<Rightarrow> string \<Rightarrow> string" where
  "strip_suffix_char c s = (if s \<noteq> [] \<and> last s = c then butlast s else s)"

function text_lines :: "string \<Rightarrow> string list" where
  "text_lines [] = []"
| "text_lines (c # s) =
     (if NEWLINE \<in> set (c # s)
      then strip_suffix_char CARRIAGE_RETURN (takeWhile (\<lambda>x. x \<noteq> NEWLINE) (c # s)) #
             text_lines (tl (dropWhile (\<lambda>x. x \<noteq> NEWLINE) (c # s)))
      else [c # s])"
  by pat_completeness auto
termination
  by (relation "measure length")
    (auto intro!: le_imp_less_Suc order_trans [OF diff_le_self length_dropWhile_le])

definition split_once :: "char \<Rightarrow> string \<Rightarrow> (string \<times> string) option" where
  "split_once c s =
     (if c \<in> set s then Some (takeWhile (\<lambda>x. x \<noteq> c) s, tl (dropWhile (\<lambda>x. x \<noteq> c) s)) else None)"

definition zero_padded :: "nat \<Rightarrow> nat \<Rightarrow> string" where
  "zero_padded w n = replicate (w - length (decimal n)) (CHR ''0'') @ decimal n"

lemma text_lines_line:
  assumes "NEWLINE \<notin> set l" "CARRIAGE_RETURN \<notin> set l"
  shows "text_lines (l @ NEWLINE # s) = l # text_lines s"
proof -
  have take: "takeWhile (\<lambda>x. x \<noteq> NEWLINE) (l @ NEWLINE # s) = l"
    "dropWhile (\<lambda>x. x \<noteq> NEWLINE) (l @ NEWLINE # s) = NEWLINE # s"
    using assms(1) by (auto simp: takeWhile_append dropWhile_append)
  have strip: "strip_suffix_char CARRIAGE_RETURN l = l"
    using assms(2) by (auto simp: strip_suffix_char_def dest: last_in_set)
  obtain c r where "l @ NEWLINE # s = c # r" by (cases l) auto
  moreover have "NEWLINE \<in> set (l @ NEWLINE # s)" by simp
  ultimately show ?thesis using take strip by (metis list.sel(3) text_lines.simps(2))
qed

lemma split_once_here:
  "c \<notin> set a \<Longrightarrow> split_once c (a @ c # b) = Some (a, b)"
  by (auto simp: split_once_def takeWhile_append dropWhile_append)

lemma read_text_as_bytes:
  assumes "list_all (\<lambda>c. char_code c < 128) s"
  shows "read_text (as_bytes s) = Some s"
proof -
  have "char_of (unat (of_nat (char_code c) :: u8)) = c \<and> (of_nat (char_code c) :: u8) < 128"
    if "c \<in> set s" for c
  proof -
    have "char_code c < 128" using assms that by (auto simp: list_all_iff)
    then have "unat (of_nat (char_code c) :: u8) = char_code c" by (simp add: unat_of_nat_small)
    then show ?thesis using \<open>char_code c < 128\<close> by (simp add: char_code_def word_less_nat_alt)
  qed
  then show ?thesis by (auto simp: read_text_def as_bytes_def list_all_iff comp_def intro: map_idI)
qed

end
