(* ===== verification/Storage_Base.thy ===== *)
theory Storage_Base
  imports Space_Guard Rust_Text
begin

text \<open>
  What every part of the storage engine shares: its error type
  (\<^verbatim>\<open>storage/metadata.rs\<close>), the third-party routines it calls, and the files
  of one cartridge layout.  The third-party crates (\<^verbatim>\<open>crc32c\<close>,
  \<^verbatim>\<open>blake3\<close>, \<^verbatim>\<open>lz4_flex\<close>, \<^verbatim>\<open>flate2\<close>) are the fields of a record
  that the definitions take as an argument; what their documentation promises
  is the predicate \<^verbatim>\<open>externs_ok\<close>.
\<close>

section \<open>Errors\<close>

datatype io_error =
    IoNotFound
  | IoUnexpectedEof
  | IoWriteZero
  | IoStorageFull string
  | IoInvalidData string
  | IoOther string

datatype StorageError =
    Io io_error
  | SpaceExhausted string
  | SpaceAdmission SpaceGuardError
  | Corrupt string
  | VersionMismatch (expected: u16) (got: u16)
  | NotFound string
  | Conflict string
  | MetadataBudgetExceeded
  | Cancelled
  | Internal string

definition storage_error_from_io :: "io_error \<Rightarrow> StorageError" where
  "storage_error_from_io e = (case e of IoStorageFull m \<Rightarrow> SpaceExhausted m | _ \<Rightarrow> Io e)"

definition MAX_MAINTENANCE_METADATA_BYTES :: nat where
  "MAX_MAINTENANCE_METADATA_BYTES = 8 * 1024 * 1024"

definition MAX_MAINTENANCE_METADATA_RECORDS :: nat where
  "MAX_MAINTENANCE_METADATA_RECORDS = 65536"

definition checked_metadata_record_count :: "nat \<Rightarrow> (StorageError, nat) result" where
  "checked_metadata_record_count n =
     (if n > MAX_MAINTENANCE_METADATA_RECORDS then Err MetadataBudgetExceeded else Ok n)"

section \<open>Third-party routines and environment\<close>

record externs =
  crc32c_append :: "u32 \<Rightarrow> bytes \<Rightarrow> u32"
  blake3_hash :: "bytes \<Rightarrow> bytes"
  lz4_compress_prepend_size :: "bytes \<Rightarrow> bytes"
  lz4_decompress_size_prepended :: "bytes \<Rightarrow> (string, bytes) result"
  zlib_encode :: "bytes \<Rightarrow> (io_error, bytes) result"
  zlib_read :: "nat \<Rightarrow> bytes \<Rightarrow> (io_error, bytes) result"
  write_vectored :: "nat list \<Rightarrow> nat"
  hash_order :: "u64 list \<Rightarrow> u64 list"
  env_var :: "string \<Rightarrow> string option"

text \<open>
  \<^verbatim>\<open>crc32c_append\<close> continues a checksum; \<^verbatim>\<open>lz4_flex\<close> prepends the length as a
  little-endian 32-bit integer and decompresses what it compressed;
  \<^verbatim>\<open>zlib_read\<close> is reading at most a number of bytes from a decoder, and a zlib
  stream, which starts with a two-byte header, is never empty;
  \<^verbatim>\<open>blake3\<close> gives 32 bytes.  \<^verbatim>\<open>write_vectored\<close> is the kernel's answer to a
  gathering write, the number of bytes it took from slices of the given
  lengths: possibly fewer than offered, none only when nothing was offered.
  \<^verbatim>\<open>hash_order\<close> is the order in which a \<^verbatim>\<open>HashMap\<close> yields its keys, some
  permutation of them.  \<^verbatim>\<open>env_var\<close> is the environment of the process.
\<close>

text \<open>The environment switch that lets a cache entry stand without a stamp check.\<close>

definition trust_hot_cache :: "externs \<Rightarrow> bool" where
  "trust_hot_cache E =
     switch_unless [''0'', ''false'', ''no''] False (env_var E ''HOLO_STORAGE_TRUST_HOT_CACHE'')"

definition crc_ok :: "externs \<Rightarrow> bool" where
  "crc_ok E \<longleftrightarrow> (\<forall>a x y. crc32c_append E a (x @ y) = crc32c_append E (crc32c_append E a x) y)"

definition lz4_ok :: "externs \<Rightarrow> bool" where
  "lz4_ok E \<longleftrightarrow> (\<forall>p. length p < 2 ^ 32 \<longrightarrow>
     lz4_decompress_size_prepended E (lz4_compress_prepend_size E p) = Ok p \<and>
     4 \<le> length (lz4_compress_prepend_size E p) \<and>
     take 4 (lz4_compress_prepend_size E p) = to_le_bytes (of_nat (length p) :: u32))"

definition zlib_ok :: "externs \<Rightarrow> bool" where
  "zlib_ok E \<longleftrightarrow> (\<forall>p z n. zlib_encode E p = Ok z \<longrightarrow> z \<noteq> [] \<and> zlib_read E n z = Ok (take n p))"

definition blake3_ok :: "externs \<Rightarrow> bool" where
  "blake3_ok E \<longleftrightarrow> (\<forall>p. length (blake3_hash E p) = 32)"

definition write_vectored_ok :: "externs \<Rightarrow> bool" where
  "write_vectored_ok E \<longleftrightarrow> (\<forall>ls. write_vectored E ls \<le> sum_list ls \<and>
     (0 < sum_list ls \<longrightarrow> 0 < write_vectored E ls))"

definition hash_order_ok :: "externs \<Rightarrow> bool" where
  "hash_order_ok E \<longleftrightarrow> (\<forall>ks. mset (hash_order E ks) = mset ks)"

definition externs_ok :: "externs \<Rightarrow> bool" where
  "externs_ok E \<longleftrightarrow> crc_ok E \<and> lz4_ok E \<and> zlib_ok E \<and> blake3_ok E \<and> write_vectored_ok E \<and>
     hash_order_ok E"

text \<open>
  An instance of the routines that keeps every promise, on which the general
  statements are exercised: an additive checksum, codecs that store their
  input behind a header, writes that take everything, keys in order.
\<close>

definition plain_externs :: externs where
  "plain_externs =
     \<lparr>crc32c_append = foldl (\<lambda>acc b. acc + ucast b),
      blake3_hash = (\<lambda>p. take 32 (p @ replicate 32 0)),
      lz4_compress_prepend_size = (\<lambda>p. to_le_bytes (of_nat (length p) :: u32) @ p),
      lz4_decompress_size_prepended = (\<lambda>p. if length p < 4 then Err ''short'' else Ok (drop 4 p)),
      zlib_encode = (\<lambda>p. Ok (0x78 # p)),
      zlib_read = (\<lambda>n z. if z = [] then Err IoUnexpectedEof else Ok (take n (tl z))),
      write_vectored = sum_list, hash_order = (\<lambda>ks. ks), env_var = (\<lambda>_. None)\<rparr>"

lemma plain_externs_ok:
  "externs_ok plain_externs" "crc_ok plain_externs" "lz4_ok plain_externs" "zlib_ok plain_externs"
  "blake3_ok plain_externs" "write_vectored_ok plain_externs" "hash_order_ok plain_externs"
  by (auto simp: plain_externs_def externs_ok_def crc_ok_def lz4_ok_def zlib_ok_def blake3_ok_def
      write_vectored_ok_def hash_order_ok_def)

section \<open>Files of a layout\<close>

text \<open>
  One constructor per file of a cartridge directory; \<^verbatim>\<open>Data_Segment\<close> is
  \<^verbatim>\<open>data_XXXXXX.seg\<close>, \<^verbatim>\<open>Tmp\<close> the temporary file of an atomic replacement.
  The file names are distinct strings in the code, so a constructor per name
  loses nothing.
\<close>

datatype layout_file =
    Data_File
  | Metadata_File
  | Blk_Map_File
  | Lookup_File
  | Reclaim_File
  | Dedup_File
  | Segment_Index_File
  | Data_Segment u32
  | Filemarks_File
  | Retention_File
  | Usage_Counters_File
  | Tmp layout_file

record layout_files =
  files :: "layout_file \<Rightarrow> bytes option"

definition file_exists :: "layout_file \<Rightarrow> ('z layout_files_scheme, 'e, bool) stm" where
  "file_exists f = gets_s (\<lambda>s. files s f \<noteq> None)"

definition put_file :: "layout_file \<Rightarrow> bytes \<Rightarrow> ('z layout_files_scheme, 'e, unit) stm" where
  "put_file f b = modify_s (files_update (\<lambda>m. m(f := Some b)))"

definition remove_file :: "layout_file \<Rightarrow> ('z layout_files_scheme, 'e, unit) stm" where
  "remove_file f = modify_s (files_update (\<lambda>m. m(f := None)))"

text \<open>Rename over the target: the temporary file disappears, the target has its bytes.\<close>

definition rename_file ::
  "layout_file \<Rightarrow> layout_file \<Rightarrow> ('z layout_files_scheme, StorageError, unit) stm" where
  "rename_file src dst s =
     (case files s src of
        None \<Rightarrow> (Err (Io IoNotFound), s)
      | Some b \<Rightarrow> (Ok (), files_update (\<lambda>m. m(src := None, dst := Some b)) s))"

end
