(* ===== verification/Layout.thy ===== *)
theory Layout
  imports Storage_Base
begin

text \<open>
  The on-disk layout (\<^verbatim>\<open>storage/layout.rs\<close>): checksums, the segment kinds
  and the segment header with its 36-byte encoding and its validation, and the
  rules that turn identifiers into directory names.
\<close>

unbundle bit_operations_syntax

section \<open>Checksums\<close>

definition checksum32_continue :: "u32 \<Rightarrow> bytes \<Rightarrow> u32" where
  "checksum32_continue acc data = foldl (\<lambda>acc b. (acc XOR ucast b) * 16777619) acc data"

definition checksum32 :: "bytes \<Rightarrow> u32" where
  "checksum32 data = foldl (\<lambda>acc b. (acc XOR ucast b) * 16777619) 0x811C9DC5 data"

definition integrity32 :: "externs \<Rightarrow> bytes \<Rightarrow> u32" where
  "integrity32 E data = crc32c_append E 0 data"

definition integrity32_continue :: "externs \<Rightarrow> u32 \<Rightarrow> bytes \<Rightarrow> u32" where
  "integrity32_continue E acc data = crc32c_append E acc data"

lemma checksum32_append: "checksum32 (x @ y) = checksum32_continue (checksum32 x) y"
  by (simp add: checksum32_def checksum32_continue_def)

lemma integrity32_append:
  "crc_ok E \<Longrightarrow> integrity32 E (x @ y) = integrity32_continue E (integrity32 E x) y"
  by (simp add: integrity32_def integrity32_continue_def crc_ok_def)

text \<open>The additive checksum of \<^verbatim>\<open>plain_externs\<close> is not zero when the first byte is not.\<close>

lemma plain_integrity32: "integrity32 plain_externs p = of_nat (sum_list (map unat p))"
proof -
  have "foldl (\<lambda>acc b. acc + ucast b) a p = a + of_nat (sum_list (map unat p))" for a :: u32
    by (induction p arbitrary: a) (simp_all add: add.assoc)
  then show ?thesis by (simp add: integrity32_def plain_externs_def)
qed

lemma plain_integrity32_ne:
  assumes "p \<noteq> []" "hd p \<noteq> 0" "length p < 2 ^ 24"
  shows "integrity32 plain_externs p \<noteq> 0"
proof -
  define n where "n = sum_list (map unat p)"
  have "sum_list (map unat p) \<le> 255 * length p"
    by (induction p) (use unat_bound_le [where 'a=8] in \<open>auto intro: add_mono\<close>)
  then have "n < 2 ^ 32" using assms(3) by (simp add: n_def)
  moreover have "n \<noteq> 0" using assms(1,2) by (cases p) (auto simp: n_def unat_eq_zero simp flip: neq0_conv)
  ultimately have "unat (of_nat n :: u32) \<noteq> 0" by (simp add: unat_of_nat_small)
  then show ?thesis by (metis plain_integrity32 unat_0 n_def)
qed

section \<open>Segment header\<close>

datatype SegmentKind = KData | KMetadata | KBlkMap | KLookup | KReclaim | KDedup | KSegmentIndex

definition kind_to_u16 :: "SegmentKind \<Rightarrow> u16" where
  "kind_to_u16 k = (case k of KData \<Rightarrow> 1 | KMetadata \<Rightarrow> 2 | KBlkMap \<Rightarrow> 3 | KLookup \<Rightarrow> 4
                     | KReclaim \<Rightarrow> 5 | KDedup \<Rightarrow> 6 | KSegmentIndex \<Rightarrow> 7)"

definition kind_from_u16 :: "u16 \<Rightarrow> SegmentKind option" where
  "kind_from_u16 v =
     (if v = 1 then Some KData else if v = 2 then Some KMetadata else if v = 3 then Some KBlkMap
      else if v = 4 then Some KLookup else if v = 5 then Some KReclaim else if v = 6 then Some KDedup
      else if v = 7 then Some KSegmentIndex else None)"

definition STORAGE_LAYOUT_MAGIC :: u32 where "STORAGE_LAYOUT_MAGIC = 0x56544C58"
definition STORAGE_LAYOUT_VERSION_V1 :: u16 where "STORAGE_LAYOUT_VERSION_V1 = 1"
definition STORAGE_LAYOUT_VERSION :: u16 where "STORAGE_LAYOUT_VERSION = 2"

record SegmentHeader =
  magic :: u32
  version :: u16
  kind :: SegmentKind
  segment_id :: u64
  sequence :: u64
  payload_len :: u64
  checksum :: u32

definition header_new :: "externs \<Rightarrow> SegmentKind \<Rightarrow> u64 \<Rightarrow> u64 \<Rightarrow> bytes \<Rightarrow> SegmentHeader" where
  "header_new E k sid sq payload =
     \<lparr>magic = STORAGE_LAYOUT_MAGIC, version = STORAGE_LAYOUT_VERSION, kind = k, segment_id = sid,
      sequence = sq, payload_len = of_nat (length payload), checksum = integrity32 E payload\<rparr>"

definition header_validate :: "externs \<Rightarrow> SegmentHeader \<Rightarrow> bytes \<Rightarrow> (StorageError, unit) result" where
  "header_validate E h payload =
     (if magic h \<noteq> STORAGE_LAYOUT_MAGIC then Err (Corrupt ''invalid magic'')
      else if version h \<noteq> STORAGE_LAYOUT_VERSION \<and> version h \<noteq> STORAGE_LAYOUT_VERSION_V1
      then Err (VersionMismatch STORAGE_LAYOUT_VERSION (version h))
      else if payload_len h \<noteq> of_nat (length payload) then Err (Corrupt ''payload length mismatch'')
      else
        let sum = (if version h = STORAGE_LAYOUT_VERSION_V1 then checksum32 payload
                   else integrity32 E payload) in
        if version h = STORAGE_LAYOUT_VERSION_V1 \<and> checksum h = 0 then Ok ()
        else if checksum h \<noteq> sum then Err (Corrupt ''payload checksum mismatch'')
        else Ok ())"

definition header_encode :: "SegmentHeader \<Rightarrow> bytes" where
  "header_encode h =
     to_le_bytes (magic h) @ to_le_bytes (version h) @ to_le_bytes (kind_to_u16 (kind h)) @
     to_le_bytes (segment_id h) @ to_le_bytes (sequence h) @ to_le_bytes (payload_len h) @
     to_le_bytes (checksum h)"

definition header_decode :: "bytes \<Rightarrow> (StorageError, SegmentHeader) result" where
  "header_decode buf =
     (if length buf < 36 then Err (Corrupt ''segment header too short'')
      else bind_r (ok_or (kind_from_u16 (from_le_bytes (slice 6 2 buf)))
                     (Corrupt ''unknown segment kind'')) (\<lambda>k.
        Ok \<lparr>magic = from_le_bytes (slice 0 4 buf), version = from_le_bytes (slice 4 2 buf),
            kind = k, segment_id = from_le_bytes (slice 8 8 buf),
            sequence = from_le_bytes (slice 16 8 buf), payload_len = from_le_bytes (slice 24 8 buf),
            checksum = from_le_bytes (slice 32 4 buf)\<rparr>))"

lemma kind_from_to_u16 [simp, codec]: "kind_from_u16 (kind_to_u16 k) = Some k"
  by (cases k) (simp_all add: kind_from_u16_def kind_to_u16_def)

lemma length_header_encode [simp]: "length (header_encode h) = 36"
  by (simp add: header_encode_def)

lemma header_decode_encode [codec]: "header_decode (header_encode h @ rest) = Ok h"
  by (simp add: header_decode_def header_encode_def)

lemma header_decode_take: "36 \<le> length buf \<Longrightarrow> header_decode (take 36 buf) = header_decode buf"
  by (simp add: header_decode_def slice_def drop_take min_def)

lemma header_validate_new:
  "length payload < 2 ^ 64 \<Longrightarrow> header_validate E (header_new E k sid sq payload) payload = Ok ()"
  by (simp add: header_validate_def header_new_def STORAGE_LAYOUT_VERSION_def
      STORAGE_LAYOUT_VERSION_V1_def)

section \<open>Identifiers and directories\<close>

definition sanitize_char :: "char \<Rightarrow> char" where
  "sanitize_char c =
     (if is_ascii_alphanumeric c \<or> c = CHR ''-'' \<or> c = CHR ''_'' then to_ascii_lowercase c
      else CHR ''_'')"

definition sanitize_id :: "string \<Rightarrow> string" where
  "sanitize_id raw = (let out = map sanitize_char raw in if out = [] then ''unknown'' else out)"

type_synonym path = "string list"

definition layout_scope_key :: "string \<Rightarrow> string" where
  "layout_scope_key library_id =
     (let scope = sanitize_id library_id in if scope = [] then ''global'' else scope)"

definition canonical_cartridge_dir :: "path \<Rightarrow> string \<Rightarrow> string \<Rightarrow> path" where
  "canonical_cartridge_dir root library_id cartridge_id =
     root @ [''cartridges'', layout_scope_key library_id, sanitize_id cartridge_id]"

definition legacy_cartridge_dir :: "path \<Rightarrow> string \<Rightarrow> string \<Rightarrow> path" where
  "legacy_cartridge_dir root drive_id cartridge_id =
     root @ [sanitize_id drive_id, sanitize_id cartridge_id]"

text \<open>
  The pool root as the resolver sees it: what \<^verbatim>\<open>symlink_metadata\<close> says of a
  path, and the entries \<^verbatim>\<open>read_dir\<close> lists (nothing when the root is missing).
\<close>

datatype node = Dir | Symlink | Regular

record pool =
  node_at :: "path \<Rightarrow> node option"
  entries_of :: "path \<Rightarrow> string list option"

definition is_layout_directory :: "pool \<Rightarrow> path \<Rightarrow> (StorageError, bool) result" where
  "is_layout_directory P p =
     (case node_at P p of
        Some Symlink \<Rightarrow> Err (Conflict ''identity_conflict'')
      | Some n \<Rightarrow> Ok (n = Dir)
      | None \<Rightarrow> Ok False)"

fun scan_legacy_entries ::
  "pool \<Rightarrow> path \<Rightarrow> string \<Rightarrow> string list \<Rightarrow> path list \<Rightarrow> (StorageError, path list) result" where
  "scan_legacy_entries P root cartridge [] dirs = Ok dirs"
| "scan_legacy_entries P root cartridge (e # es) dirs =
     (if e = ''cartridges'' then scan_legacy_entries P root cartridge es dirs
      else case node_at P (root @ [e]) of
        Some Symlink \<Rightarrow> Err (Conflict ''identity_conflict'')
      | Some Dir \<Rightarrow>
          bind_r (is_layout_directory P (root @ [e, cartridge])) (\<lambda>is_dir.
          scan_legacy_entries P root cartridge es
            (if is_dir then dirs @ [root @ [e, cartridge]] else dirs))
      | _ \<Rightarrow> scan_legacy_entries P root cartridge es dirs)"

definition discover_legacy_dirs :: "pool \<Rightarrow> path \<Rightarrow> string \<Rightarrow> (StorageError, path list) result" where
  "discover_legacy_dirs P root cartridge_id =
     (case entries_of P root of
        None \<Rightarrow> Ok []
      | Some es \<Rightarrow> scan_legacy_entries P root (sanitize_id cartridge_id) es [])"

fun push_distinct :: "path list \<Rightarrow> path list \<Rightarrow> path list" where
  "push_distinct candidates [] = candidates"
| "push_distinct candidates (c # cs) =
     push_distinct (if c \<in> set candidates then candidates else candidates @ [c]) cs"

definition resolve_layout_dir :: "pool \<Rightarrow> path \<Rightarrow> string \<Rightarrow> string \<Rightarrow> string \<Rightarrow> (StorageError, path) result" where
  "resolve_layout_dir P root library_id drive_id cartridge_id =
     (let canonical = canonical_cartridge_dir root library_id cartridge_id;
          preferred = legacy_cartridge_dir root drive_id cartridge_id in
      bind_r (is_layout_directory P canonical) (\<lambda>has_canonical.
      bind_r (is_layout_directory P preferred) (\<lambda>has_preferred.
      bind_r (discover_legacy_dirs P root cartridge_id) (\<lambda>legacy.
      let candidates = push_distinct ((if has_canonical then [canonical] else []) @
                                      (if has_preferred then [preferred] else [])) legacy in
      case candidates of
        [] \<Rightarrow> Ok canonical
      | [c] \<Rightarrow> Ok c
      | _ \<Rightarrow> Err (Conflict ''ambiguous_layout'')))))"

subsection \<open>What resolution promises\<close>

text \<open>The cartridge directories that exist under a pool root, canonical or legacy.\<close>

definition cartridge_dirs :: "pool \<Rightarrow> path \<Rightarrow> string \<Rightarrow> string \<Rightarrow> string \<Rightarrow> path set" where
  "cartridge_dirs P root library_id drive_id cartridge_id =
     {p. node_at P p = Some Dir \<and>
         (p = canonical_cartridge_dir root library_id cartridge_id \<or>
          p = legacy_cartridge_dir root drive_id cartridge_id \<or>
          (\<exists>es e. entries_of P root = Some es \<and> e \<in> set es \<and> e \<noteq> ''cartridges'' \<and>
                  node_at P (root @ [e]) = Some Dir \<and> p = root @ [e, sanitize_id cartridge_id]))}"

lemma is_layout_directory_Ok [simp]:
  "is_layout_directory P p = Ok b \<longleftrightarrow> node_at P p \<noteq> Some Symlink \<and> b = (node_at P p = Some Dir)"
  by (auto simp: is_layout_directory_def split: option.splits node.splits)

lemma scan_legacy_entries_Ok:
  "scan_legacy_entries P root c es dirs = Ok ds \<Longrightarrow>
     set ds = set dirs \<union> {root @ [e, c] | e. e \<in> set es \<and> e \<noteq> ''cartridges'' \<and>
       node_at P (root @ [e]) = Some Dir \<and> node_at P (root @ [e, c]) = Some Dir}"
proof (induction es arbitrary: dirs)
  case (Cons e es)
  show ?case
  proof (cases "e \<noteq> ''cartridges'' \<and> node_at P (root @ [e]) = Some Dir")
    case True
    with Cons.prems Cons.IH show ?thesis by (auto split: if_splits)
  next
    case False
    with Cons.prems have "scan_legacy_entries P root c es dirs = Ok ds"
      by (auto split: if_splits option.splits node.splits)
    with False Cons.IH show ?thesis by fastforce
  qed
qed simp

lemma set_push_distinct [simp]: "set (push_distinct cs ds) = set cs \<union> set ds"
  by (induction cs ds rule: push_distinct.induct) auto

lemma resolve_layout_dir_Ok:
  assumes "resolve_layout_dir P root lib drive cart = Ok d"
  shows "cartridge_dirs P root lib drive cart = {} \<and> d = canonical_cartridge_dir root lib cart \<or>
         cartridge_dirs P root lib drive cart = {d}"
proof -
  let ?can = "canonical_cartridge_dir root lib cart" and ?leg = "legacy_cartridge_dir root drive cart"
  obtain ds where ds: "discover_legacy_dirs P root cart = Ok ds"
    using assms by (auto simp: resolve_layout_dir_def Let_def)
  let ?cands = "push_distinct ((if node_at P ?can = Some Dir then [?can] else []) @
                               (if node_at P ?leg = Some Dir then [?leg] else [])) ds"
  have set_ds: "set ds = {root @ [e, sanitize_id cart] | e es. entries_of P root = Some es \<and> e \<in> set es \<and>
      e \<noteq> ''cartridges'' \<and> node_at P (root @ [e]) = Some Dir \<and>
      node_at P (root @ [e, sanitize_id cart]) = Some Dir}"
    using ds by (auto simp: discover_legacy_dirs_def dest: scan_legacy_entries_Ok split: option.splits)
  have cands: "set ?cands = cartridge_dirs P root lib drive cart"
    by (auto simp: cartridge_dirs_def set_ds)
  have "?cands = [] \<and> d = ?can \<or> ?cands = [d]"
    using assms ds by (auto simp: resolve_layout_dir_def Let_def split: list.splits)
  then show ?thesis using cands by (metis empty_set list.simps(15))
qed

section \<open>Properties\<close>

text \<open>
  C19: A cartridge directory is resolved only when it is unambiguous: the result
  is the one existing directory of the cartridge, canonical or legacy, or the
  canonical path when none exists.
\<close>

theorem resolve_layout_dir_unique:
  assumes "resolve_layout_dir P root lib drive cart = Ok d"
  shows "cartridge_dirs P root lib drive cart = {d} \<or>
     cartridge_dirs P root lib drive cart = {} \<and> d = canonical_cartridge_dir root lib cart"
  using resolve_layout_dir_Ok [OF assms] by blast

definition sample_pool :: pool where
  "sample_pool = \<lparr>node_at = \<lambda>p. if p = [''pool'', ''drive-1''] \<or> p = [''pool'', ''drive-1'', ''cart-1''] then Some Dir else None,
     entries_of = \<lambda>p. if p = [''pool''] then Some [''drive-1''] else None\<rparr>"

theorem resolve_layout_dir_unique_witness:
  "resolve_layout_dir sample_pool [''pool''] ''lib'' ''drive-1'' ''cart-1'' = Ok [''pool'', ''drive-1'', ''cart-1''] \<and>
   cartridge_dirs sample_pool [''pool''] ''lib'' ''drive-1'' ''cart-1'' = {[''pool'', ''drive-1'', ''cart-1'']}"
proof -
  have ids: "sanitize_id ''cart-1'' = ''cart-1''" "sanitize_id ''drive-1'' = ''drive-1''" "sanitize_id ''lib'' = ''lib''"
    by code_simp+
  have r: "resolve_layout_dir sample_pool [''pool''] ''lib'' ''drive-1'' ''cart-1'' = Ok [''pool'', ''drive-1'', ''cart-1'']"
    by (simp add: resolve_layout_dir_def sample_pool_def canonical_cartridge_dir_def legacy_cartridge_dir_def
        layout_scope_key_def is_layout_directory_def discover_legacy_dirs_def ids)
  with resolve_layout_dir_unique [OF r] show ?thesis
    by (auto simp: canonical_cartridge_dir_def)
qed

end
