(* ===== verification/Tape_State.thy ===== *)
theory Tape_State
  imports Layout Rust_Map
begin

text \<open>
  The state of one tape drive (\<^verbatim>\<open>scsi_tape/state.rs\<close>), the errors of its
  commands (\<^verbatim>\<open>scsi_tape/error.rs\<close>), and the machine the commands act on: the
  drive together with the storage of every cartridge layout, by its root.  The
  usage counters of a cartridge are a text file of its layout; printing and
  parsing them is a round trip.  The environment variables are fields of the
  \<^typ>\<open>externs\<close> argument, read once by the code and here at every use.
\<close>

section \<open>Errors\<close>

datatype TapeError =
    InvalidTransition
  | InvalidProfile string
  | UnsupportedVpdPage u8
  | UnsupportedModePage u8
  | UnsupportedLogPage u8
  | NotReady string
  | RecoveryRequired
  | AccessDenied string
  | Unsupported string
  | InvalidArgument string
  | FixedBlockSizeMismatch u32 u32
  | FilemarkDetected u32 bytes
  | Tape_NotFound string
  | OutOfRange string
  | VolumeOverflow
  | RetentionBlocked
  | WormWriteProtected
  | ReservationConflict string
  | InvalidReservationKey string
  | InvalidReservationRelease string
  | Unauthorized
  | Tape_Storage StorageError
  | PhysicalWriteAdmission u32 StorageError
  | PhysicalFilemarkAdmission StorageError

section \<open>The parts of the drive state\<close>

datatype MountState = Empty | Loaded | Busy | Error

datatype BlockMode = Variable | Fixed

record BlockModeProfile =
  bm_mode :: BlockMode
  fixed_block_size :: u32

definition block_mode_default :: BlockModeProfile where
  "block_mode_default = \<lparr>bm_mode = Fixed, fixed_block_size = 256 * 1024\<rparr>"

record CommandCounters =
  write_ops :: u64
  read_ops :: u64
  filemark_ops :: u64
  space_ops :: u64
  mode_sense_ops :: u64
  log_sense_ops :: u64
  unsupported_mode_pages :: u64
  unsupported_log_pages :: u64

definition command_counters_default :: CommandCounters where
  "command_counters_default =
     \<lparr>write_ops = 0, read_ops = 0, filemark_ops = 0, space_ops = 0, mode_sense_ops = 0,
      log_sense_ops = 0, unsupported_mode_pages = 0, unsupported_log_pages = 0\<rparr>"

record CartridgeUsageCounters =
  load_count :: u64
  volume_change_reference :: u64
  lifetime_write_ops :: u64
  lifetime_read_ops :: u64
  lifetime_filemark_ops :: u64
  lifetime_bytes_written :: u64
  lifetime_bytes_read :: u64
  last_load_write_ops :: u64
  last_load_read_ops :: u64
  last_load_filemark_ops :: u64
  last_load_bytes_written :: u64
  last_load_bytes_read :: u64

definition usage_counters_default :: CartridgeUsageCounters where
  "usage_counters_default =
     \<lparr>load_count = 0, volume_change_reference = 0, lifetime_write_ops = 0, lifetime_read_ops = 0,
      lifetime_filemark_ops = 0, lifetime_bytes_written = 0, lifetime_bytes_read = 0,
      last_load_write_ops = 0, last_load_read_ops = 0, last_load_filemark_ops = 0,
      last_load_bytes_written = 0, last_load_bytes_read = 0\<rparr>"

definition reset_last_load :: "CartridgeUsageCounters \<Rightarrow> CartridgeUsageCounters" where
  "reset_last_load c =
     c\<lparr>last_load_write_ops := 0, last_load_read_ops := 0, last_load_filemark_ops := 0,
       last_load_bytes_written := 0, last_load_bytes_read := 0\<rparr>"

record AllowOverwriteState =
  allow_type :: u8
  ao_partition :: u8
  block_address :: u64

record PartitionRuntime =
  partition_units :: u8
  addl_partitions_defined :: u8
  fdp :: u8
  medium_fmt_recognition :: u8
  partition_size_units :: "u16 list"
  partition_sizes_bytes :: "u64 list"
  active_partition :: u8

definition partition_runtime_default :: PartitionRuntime where
  "partition_runtime_default =
     \<lparr>partition_units = 9, addl_partitions_defined = 0, fdp = 0x9C, medium_fmt_recognition = 0x03,
      partition_size_units = replicate 4 0, partition_sizes_bytes = replicate 4 0,
      active_partition = 0\<rparr>"

record MamAttributeOverride =
  mam_format :: u8
  mam_value :: bytes

record RetentionPolicy =
  is_worm_media :: bool
  retention_locked :: bool

definition retention_default :: RetentionPolicy where
  "retention_default = \<lparr>is_worm_media = False, retention_locked = False\<rparr>"

record ReservationState =
  generation :: u32
  registrations :: "(string, u64) btree"
  active_owner :: "string option"
  active_key :: "u64 option"

definition reservation_default :: ReservationState where
  "reservation_default = \<lparr>generation = 0, registrations = [], active_owner = None, active_key = None\<rparr>"

text \<open>
  The layout of a mounted cartridge is given by its root directory; the lease
  on it is a lock that the state holds or does not hold.
\<close>

record TapeState =
  drive_id :: string
  cartridge_id :: "string option"
  mount_state :: MountState
  current_position :: u64
  eod_position :: u64
  filemarks :: "u64 list"
  block_starts :: "u64 list"
  block_lengths :: "(u64, u32) btree"
  active_layout :: "path option"
  layout_lease :: bool
  requires_recovery :: bool
  early_warning_window :: u64
  block_mode :: BlockModeProfile
  buffered_mode :: bool
  data_compression_allowed :: bool
  data_compression_enabled :: bool
  select_data_compression_algorithm :: bool
  command_counters :: CommandCounters
  retention_policy :: RetentionPolicy
  reservation_state :: ReservationState
  changer_slots :: "(u16, string option) btree"
  changer_drives :: "(u16, string option) btree"
  changer_ie_ports :: "(u16, string option) btree"
  changer_ie_impexp :: "(u16, bool) btree"
  changer_drive_sources :: "(u16, u16 option) btree"
  changer_slots_synced_from_shared :: bool
  partition_runtime :: PartitionRuntime
  cartridge_capacity_bytes :: "u64 option"
  mam_overrides :: "(u32, MamAttributeOverride) btree"
  mam_loaded_for :: "string option"
  usage_counters :: CartridgeUsageCounters
  usage_counters_dirty_ops :: u32
  allow_overwrite :: "AllowOverwriteState option"
  pending_unit_attention :: "(u8 \<times> u8) list"
  nexus_unit_attention :: "(string, (u8 \<times> u8) list) btree"

section \<open>Defaults\<close>

definition default_changer_slots :: "(u16, string option) btree" where
  "default_changer_slots =
     map (\<lambda>i. (0x0400 + of_nat i, if i < 10 then Some (''VTL'' @ zero_padded 6 (i + 1)) else None))
       [0..<16]"

definition default_changer_drives :: "(u16, string option) btree" where
  "default_changer_drives = [(0x0100, None)]"

definition default_changer_ie_ports :: "(u16, string option) btree" where
  "default_changer_ie_ports = [(0x0300, None)]"

definition default_changer_ie_impexp :: "(u16, bool) btree" where
  "default_changer_ie_impexp = [(0x0300, False)]"

definition default_changer_drive_sources :: "(u16, u16 option) btree" where
  "default_changer_drive_sources = [(0x0100, None)]"

definition initial_unit_attention_queue :: "(u8 \<times> u8) list" where
  "initial_unit_attention_queue = [(0x29, 0x00)]"

definition normalize_nexus_key :: "string \<Rightarrow> string" where
  "normalize_nexus_key initiator = trim initiator"

definition USAGE_COUNTER_PERSIST_EVERY_OPS :: u32 where
  "USAGE_COUNTER_PERSIST_EVERY_OPS = 1024"

definition usage_counter_persist_every_ops :: "externs \<Rightarrow> u32" where
  "usage_counter_persist_every_ops E =
     (case Option.bind (env_var E ''HOLO_USAGE_COUNTER_PERSIST_EVERY_OPS'') (\<lambda>raw. parse_word (trim raw)) of
        Some v \<Rightarrow> if 1 \<le> v \<and> v \<le> 1000000 then v else USAGE_COUNTER_PERSIST_EVERY_OPS
      | None \<Rightarrow> USAGE_COUNTER_PERSIST_EVERY_OPS)"

definition initial_data_compression_enabled :: "externs \<Rightarrow> bool" where
  "initial_data_compression_enabled E =
     switch_only [''1'', ''true'', ''yes'', ''on''] True (env_var E ''HOLO_TAPE_COMPRESSION_ENABLED'')"

definition tape_new :: "externs \<Rightarrow> string \<Rightarrow> TapeState" where
  "tape_new E drive =
     \<lparr>drive_id = drive, cartridge_id = None, mount_state = Empty, current_position = 0,
      eod_position = 0, filemarks = [], block_starts = [], block_lengths = [],
      active_layout = None, layout_lease = False, requires_recovery = False,
      early_warning_window = 8, block_mode = block_mode_default, buffered_mode = True,
      data_compression_allowed = True,
      data_compression_enabled = initial_data_compression_enabled E,
      select_data_compression_algorithm = True, command_counters = command_counters_default,
      retention_policy = retention_default, reservation_state = reservation_default,
      changer_slots = default_changer_slots, changer_drives = default_changer_drives,
      changer_ie_ports = default_changer_ie_ports, changer_ie_impexp = default_changer_ie_impexp,
      changer_drive_sources = default_changer_drive_sources,
      changer_slots_synced_from_shared = False, partition_runtime = partition_runtime_default,
      cartridge_capacity_bytes = None, mam_overrides = [], mam_loaded_for = None,
      usage_counters = usage_counters_default, usage_counters_dirty_ops = 0,
      allow_overwrite = None, pending_unit_attention = initial_unit_attention_queue,
      nexus_unit_attention = []\<rparr>"

definition reset_changer_inventory :: "TapeState \<Rightarrow> TapeState" where
  "reset_changer_inventory t =
     t\<lparr>changer_slots := default_changer_slots, changer_drives := default_changer_drives,
       changer_ie_ports := default_changer_ie_ports,
       changer_ie_impexp := default_changer_ie_impexp,
       changer_drive_sources := default_changer_drive_sources,
       changer_slots_synced_from_shared := False\<rparr>"

definition changer_slot_count :: "TapeState \<Rightarrow> u16" where
  "changer_slot_count t =
     (let n = length (changer_slots t) in
      if n = 0 then 1 else case try_from_nat n of Some w \<Rightarrow> w | None \<Rightarrow> - 1)"

definition changer_ie_count :: "TapeState \<Rightarrow> u16" where
  "changer_ie_count t =
     (let n = length (changer_ie_ports t) in
      if n = 0 then 1 else case try_from_nat n of Some w \<Rightarrow> w | None \<Rightarrow> - 1)"

section \<open>Unit attentions\<close>

definition push_unit_attention :: "u8 \<Rightarrow> u8 \<Rightarrow> TapeState \<Rightarrow> TapeState" where
  "push_unit_attention asc ascq t =
     (let queue = (if 16 \<le> length (pending_unit_attention t) then tl (pending_unit_attention t)
                   else pending_unit_attention t) in
      t\<lparr>pending_unit_attention := queue @ [(asc, ascq)]\<rparr>)"

definition take_unit_attention :: "TapeState \<Rightarrow> (u8 \<times> u8) option \<times> TapeState" where
  "take_unit_attention t =
     (case pending_unit_attention t of
        [] \<Rightarrow> (None, t)
      | u # us \<Rightarrow> (Some u, t\<lparr>pending_unit_attention := us\<rparr>))"

text \<open>
  A command of an initiator runs with the queue of that initiator in place of
  the drive's; afterwards the queue goes back and the drive's returns.
\<close>

definition take_nexus_unit_attention :: "string \<Rightarrow> TapeState \<Rightarrow> (u8 \<times> u8) list \<times> TapeState" where
  "take_nexus_unit_attention initiator t =
     (let key = normalize_nexus_key initiator;
          queue = (case map_of (nexus_unit_attention t) key of
                     Some q \<Rightarrow> q | None \<Rightarrow> initial_unit_attention_queue) in
      (pending_unit_attention t,
       t\<lparr>pending_unit_attention := queue,
         nexus_unit_attention := bt_remove key (nexus_unit_attention t)\<rparr>))"

definition restore_nexus_unit_attention :: "string \<Rightarrow> (u8 \<times> u8) list \<Rightarrow> TapeState \<Rightarrow> TapeState" where
  "restore_nexus_unit_attention initiator default_queue t =
     t\<lparr>pending_unit_attention := default_queue,
       nexus_unit_attention :=
         bt_insert (normalize_nexus_key initiator) (pending_unit_attention t)
           (nexus_unit_attention t)\<rparr>"

section \<open>Usage counters\<close>

definition counter_line :: "string \<Rightarrow> u64 \<Rightarrow> string" where
  "counter_line key v = key @ ''='' @ decimal (unat v) @ [NEWLINE]"

definition usage_counters_text :: "CartridgeUsageCounters \<Rightarrow> string" where
  "usage_counters_text c =
     counter_line ''load_count'' (load_count c) @
     counter_line ''volume_change_reference'' (volume_change_reference c) @
     counter_line ''lifetime_write_ops'' (lifetime_write_ops c) @
     counter_line ''lifetime_read_ops'' (lifetime_read_ops c) @
     counter_line ''lifetime_filemark_ops'' (lifetime_filemark_ops c) @
     counter_line ''lifetime_bytes_written'' (lifetime_bytes_written c) @
     counter_line ''lifetime_bytes_read'' (lifetime_bytes_read c)"

definition set_counter :: "string \<Rightarrow> u64 \<Rightarrow> CartridgeUsageCounters \<Rightarrow> CartridgeUsageCounters" where
  "set_counter key v c =
     (if key = ''load_count'' then c\<lparr>load_count := v\<rparr>
      else if key = ''volume_change_reference'' then c\<lparr>volume_change_reference := v\<rparr>
      else if key = ''lifetime_write_ops'' then c\<lparr>lifetime_write_ops := v\<rparr>
      else if key = ''lifetime_read_ops'' then c\<lparr>lifetime_read_ops := v\<rparr>
      else if key = ''lifetime_filemark_ops'' then c\<lparr>lifetime_filemark_ops := v\<rparr>
      else if key = ''lifetime_bytes_written'' then c\<lparr>lifetime_bytes_written := v\<rparr>
      else if key = ''lifetime_bytes_read'' then c\<lparr>lifetime_bytes_read := v\<rparr>
      else c)"

definition read_counter_line :: "CartridgeUsageCounters \<Rightarrow> string \<Rightarrow> CartridgeUsageCounters" where
  "read_counter_line c line =
     (case split_once (CHR ''='') line of
        None \<Rightarrow> c
      | Some (key, value) \<Rightarrow>
          (case parse_word (trim value) of None \<Rightarrow> c | Some v \<Rightarrow> set_counter (trim key) v c))"

definition load_usage_counters :: "bytes option \<Rightarrow> (io_error, CartridgeUsageCounters) result" where
  "load_usage_counters content =
     (case content of
        None \<Rightarrow> Ok usage_counters_default
      | Some b \<Rightarrow>
          (case read_text b of
             None \<Rightarrow> Err (IoInvalidData ''stream did not contain valid UTF-8'')
           | Some raw \<Rightarrow> Ok (foldl read_counter_line usage_counters_default (text_lines raw))))"

definition persist_usage_to_path ::
  "CartridgeUsageCounters \<Rightarrow> ('z layout_files_scheme, StorageError, unit) stm" where
  "persist_usage_to_path c =
     bind_s (put_file (Tmp Usage_Counters_File) (as_bytes (usage_counters_text c))) (\<lambda>_.
     rename_file (Tmp Usage_Counters_File) Usage_Counters_File)"

lemma counter_line_read:
  assumes "list_all (\<lambda>c. is_ascii_alphanumeric c \<or> c = CHR ''_'') key"
  shows "foldl read_counter_line c (text_lines (counter_line key v @ rest)) =
    foldl read_counter_line (set_counter key v c) (text_lines rest)"
proof -
  have digit: "d \<in> set (decimal (unat v)) \<Longrightarrow> 48 \<le> char_code d \<and> char_code d \<le> 57" for d
    using decimal_digits [of "unat v"] by (auto simp: list_all_iff is_ascii_digit_def)
  have letter: "k \<in> set key \<Longrightarrow> 48 \<le> char_code k \<and> char_code k \<le> 57 \<or> 65 \<le> char_code k" for k
    using assms by (auto simp: list_all_iff is_ascii_alphanumeric_def is_ascii_digit_def char_code_def)
  let ?l = "key @ ''='' @ decimal (unat v)"
  have eq: "char_code (CHR ''='') = 61" by (simp add: char_code_def)
  have "13 < char_code x" if "x \<in> set ?l" for x
    using that digit [of x] letter [of x] eq by auto
  moreover have "char_code NEWLINE = 10" "char_code CARRIAGE_RETURN = 13"
    by (simp_all add: NEWLINE_def CARRIAGE_RETURN_def char_code_def)
  ultimately have "NEWLINE \<notin> set ?l" "CARRIAGE_RETURN \<notin> set ?l" by fastforce+
  then have lines: "text_lines (counter_line key v @ rest) = ?l # text_lines rest"
    using text_lines_line [of ?l rest] by (simp add: counter_line_def)
  have "CHR ''='' \<notin> set key" using letter [of "CHR ''=''"] eq by auto
  then have split: "split_once (CHR ''='') ?l = Some (key, decimal (unat v))"
    using split_once_here by simp
  have "trim key = key" using letter by (intro trim_id) (force simp: is_whitespace_def)
  then show ?thesis
    using decimal_digits [of "unat v"]
    by (simp add: lines read_counter_line_def split [simplified] parse_decimal_word)
qed

lemma usage_counters_text_read:
  "foldl read_counter_line usage_counters_default (text_lines (usage_counters_text c)) = reset_last_load c"
proof -
  have "foldl read_counter_line usage_counters_default (text_lines (usage_counters_text c @ [])) =
      reset_last_load c"
    unfolding usage_counters_text_def append_assoc
    by (simp add: counter_line_read is_ascii_alphanumeric_def is_ascii_digit_def char_code_def
        set_counter_def usage_counters_default_def reset_last_load_def del: append_Nil2)
  then show ?thesis by simp
qed

section \<open>The machine\<close>

text \<open>
  The drive and the storage of each layout, files and caches, by the root of
  the layout.  \<^verbatim>\<open>at_layout\<close> runs a storage operation on one layout,
  \<^verbatim>\<open>map_err_s\<close> is \<^verbatim>\<open>map_err\<close> on an operation that changes state.
\<close>

record 'st machine =
  tape :: TapeState
  stores :: "path \<Rightarrow> 'st"

definition at_layout :: "path \<Rightarrow> ('st, 'e, 'a) stm \<Rightarrow> ('st machine, 'e, 'a) stm" where
  "at_layout root op m =
     (case op (stores m root) of (r, st) \<Rightarrow> (r, m\<lparr>stores := (stores m)(root := st)\<rparr>))"

definition map_err_s :: "('e \<Rightarrow> 'f) \<Rightarrow> ('s, 'e, 'a) stm \<Rightarrow> ('s, 'f, 'a) stm" where
  "map_err_s f op s = (case op s of (r, s') \<Rightarrow> (map_err f r, s'))"

definition usage_counter_path :: "TapeState \<Rightarrow> path option" where
  "usage_counter_path t = active_layout t"

definition persist_usage_counters :: "('z layout_files_scheme machine, StorageError, unit) stm" where
  "persist_usage_counters m =
     (case usage_counter_path (tape m) of
        None \<Rightarrow> (Ok (), m)
      | Some root \<Rightarrow>
          bind_s (at_layout root (persist_usage_to_path (usage_counters (tape m)))) (\<lambda>_.
          modify_s (tape_update (\<lambda>t. t\<lparr>usage_counters_dirty_ops := 0\<rparr>))) m)"

definition mark_usage_counters_dirty ::
  "externs \<Rightarrow> ('z layout_files_scheme machine, StorageError, unit) stm" where
  "mark_usage_counters_dirty E =
     bind_s (modify_s (tape_update (\<lambda>t. t\<lparr>usage_counters_dirty_ops :=
        saturating_add (usage_counters_dirty_ops t) 1\<rparr>))) (\<lambda>_ m.
     if usage_counter_persist_every_ops E \<le> usage_counters_dirty_ops (tape m)
     then persist_usage_counters m else (Ok (), m))"

definition count_write :: "u64 \<Rightarrow> CartridgeUsageCounters \<Rightarrow> CartridgeUsageCounters" where
  "count_write n c =
     c\<lparr>lifetime_write_ops := saturating_add (lifetime_write_ops c) 1,
       last_load_write_ops := saturating_add (last_load_write_ops c) 1,
       lifetime_bytes_written := saturating_add (lifetime_bytes_written c) n,
       last_load_bytes_written := saturating_add (last_load_bytes_written c) n\<rparr>"

definition record_write_usage ::
  "externs \<Rightarrow> u64 \<Rightarrow> ('z layout_files_scheme machine, StorageError, unit) stm" where
  "record_write_usage E n =
     bind_s (modify_s (tape_update (usage_counters_update (count_write n)))) (\<lambda>_.
     mark_usage_counters_dirty E)"

definition count_read :: "u64 \<Rightarrow> CartridgeUsageCounters \<Rightarrow> CartridgeUsageCounters" where
  "count_read n c =
     c\<lparr>lifetime_read_ops := saturating_add (lifetime_read_ops c) 1,
       last_load_read_ops := saturating_add (last_load_read_ops c) 1,
       lifetime_bytes_read := saturating_add (lifetime_bytes_read c) n,
       last_load_bytes_read := saturating_add (last_load_bytes_read c) n\<rparr>"

definition record_read_usage ::
  "externs \<Rightarrow> u64 \<Rightarrow> ('z layout_files_scheme machine, StorageError, unit) stm" where
  "record_read_usage E n =
     bind_s (modify_s (tape_update (usage_counters_update (count_read n)))) (\<lambda>_.
     mark_usage_counters_dirty E)"

definition record_filemark_usage ::
  "externs \<Rightarrow> u64 \<Rightarrow> ('z layout_files_scheme machine, StorageError, unit) stm" where
  "record_filemark_usage E n =
     bind_s (modify_s (tape_update (usage_counters_update (\<lambda>c.
        c\<lparr>lifetime_filemark_ops := saturating_add (lifetime_filemark_ops c) n,
          last_load_filemark_ops := saturating_add (last_load_filemark_ops c) n\<rparr>)))) (\<lambda>_.
     mark_usage_counters_dirty E)"

section \<open>Mounting\<close>

definition mounted_counters :: "bytes option \<Rightarrow> CartridgeUsageCounters" where
  "mounted_counters content =
     (let c = (case load_usage_counters content of Inr c \<Rightarrow> c | Inl _ \<Rightarrow> usage_counters_default) in
      reset_last_load
        (c\<lparr>load_count := saturating_add (load_count c) 1,
           volume_change_reference := saturating_add (volume_change_reference c) 1\<rparr>))"

definition tape_mount ::
  "string \<Rightarrow> path \<Rightarrow> 'z layout_files_scheme machine \<Rightarrow> 'z layout_files_scheme machine" where
  "tape_mount cartridge root m =
     (let t = (tape m)
            \<lparr>cartridge_id := Some cartridge, mount_state := Loaded, current_position := 0,
             eod_position := 0, filemarks := [], block_starts := [], block_lengths := [],
             active_layout := Some root, requires_recovery := False, early_warning_window := 8,
             block_mode := block_mode_default, buffered_mode := True,
             command_counters := command_counters_default,
             retention_policy := retention_default, reservation_state := reservation_default,
             partition_runtime := partition_runtime_default, cartridge_capacity_bytes := None,
             mam_overrides := [], mam_loaded_for := None, allow_overwrite := None,
             usage_counters := mounted_counters (files (stores m root) Usage_Counters_File),
             usage_counters_dirty_ops := 0\<rparr>;
          m' = snd (persist_usage_counters (m\<lparr>tape := t\<rparr>)) in
      m'\<lparr>tape := push_unit_attention 0x28 0x00
           ((tape m')\<lparr>pending_unit_attention := [], nexus_unit_attention := []\<rparr>)\<rparr>)"

definition tape_unmount :: "'z layout_files_scheme machine \<Rightarrow> 'z layout_files_scheme machine" where
  "tape_unmount m =
     (let m' = snd (persist_usage_counters m) in
      m'\<lparr>tape := (tape m')
            \<lparr>cartridge_id := None, mount_state := Empty, current_position := 0,
             eod_position := 0, filemarks := [], block_starts := [], block_lengths := [],
             active_layout := None, layout_lease := False, requires_recovery := False,
             early_warning_window := 8, block_mode := block_mode_default, buffered_mode := True,
             command_counters := command_counters_default,
             retention_policy := retention_default, reservation_state := reservation_default,
             partition_runtime := partition_runtime_default, cartridge_capacity_bytes := None,
             mam_overrides := [], mam_loaded_for := None, usage_counters := usage_counters_default,
             usage_counters_dirty_ops := 0, allow_overwrite := None,
             pending_unit_attention := [], nexus_unit_attention := []\<rparr>\<rparr>)"

section \<open>What mounting promises\<close>

lemma persist_usage_run:
  "persist_usage_counters m =
     (Ok (), case active_layout (tape m) of
        None \<Rightarrow> m
      | Some root \<Rightarrow> m\<lparr>tape := (tape m)\<lparr>usage_counters_dirty_ops := 0\<rparr>,
          stores := (stores m)(root := files_update (\<lambda>fs. fs(Tmp Usage_Counters_File := None,
            Usage_Counters_File := Some (as_bytes (usage_counters_text (usage_counters (tape m))))))
            (stores m root))\<rparr>)"
  by (cases "active_layout (tape m)")
    (simp_all add: persist_usage_counters_def usage_counter_path_def at_layout_def
      persist_usage_to_path_def put_file_def rename_file_def bind_s_def fun_upd_idem comp_def)

lemma usage_text_ascii: "list_all (\<lambda>c. char_code c < 128) (usage_counters_text c)"
proof -
  have "char_code d < 128" if "d \<in> set (decimal n)" for d n
    using decimal_digits [of n] that by (auto simp: list_all_iff is_ascii_digit_def)
  then have "list_all (\<lambda>c. char_code c < 128) (decimal n)" for n by (simp add: list_all_iff)
  then show ?thesis by (simp add: usage_counters_text_def counter_line_def char_code_def NEWLINE_def)
qed

lemma load_persisted_usage:
  "load_usage_counters (Some (as_bytes (usage_counters_text c))) = Ok (reset_last_load c)"
  by (simp add: load_usage_counters_def read_text_as_bytes [OF usage_text_ascii]
      usage_counters_text_read)

text \<open>
  C37: unmounting a cartridge and mounting it again keeps its lifetime
  counters, counts the load, and starts the counters of the current load at
  zero.
\<close>

theorem usage_counters_survive_remount:
  assumes "active_layout (tape m) = Some root"
  shows "usage_counters (tape (tape_mount cartridge root (tape_unmount m))) =
    reset_last_load ((usage_counters (tape m))
      \<lparr>load_count := saturating_add (load_count (usage_counters (tape m))) 1,
       volume_change_reference := saturating_add (volume_change_reference (usage_counters (tape m))) 1\<rparr>)"
  using assms
  by (simp add: tape_mount_def tape_unmount_def Let_def persist_usage_run push_unit_attention_def
      mounted_counters_def load_persisted_usage reset_last_load_def)

theorem usage_counters_survive_remount_witness:
  "lifetime_write_ops (usage_counters (tape (tape_mount ''CAR1'' [''pool''] (tape_unmount
     \<lparr>tape = (tape_new plain_externs ''drive-1'')
        \<lparr>active_layout := Some [''pool''],
         usage_counters := usage_counters_default\<lparr>lifetime_write_ops := 41\<rparr>\<rparr>,
      stores = (\<lambda>_. \<lparr>files = (\<lambda>_. None)\<rparr>)\<rparr>)))) = 41"
  by (subst usage_counters_survive_remount) (simp_all add: reset_last_load_def)

end
