(* ===== verification/Tape_Position.thy ===== *)
theory Tape_Position
  imports Tape_State
begin

text \<open>
  Positions on the tape (\<^verbatim>\<open>scsi_tape/command_chain.rs\<close>): the index of
  recorded blocks, the filemarks, SPACE in its three forms, LOCATE, the
  position report, partition capacity and early warning.  These functions read
  the drive state and compute a position; the commands around them are in
  \<^verbatim>\<open>Command_Chain\<close>.
\<close>

section \<open>Requests and reports\<close>

datatype EraseMode = Short | Long

datatype SpaceBranch = Blocks | Filemarks | EndOfData

record PositionReport =
  pr_current_position :: u64
  pr_eod_position :: u64
  file_number :: u64
  set_number :: u64
  pr_filemark_count :: u32
  next_filemark :: "u64 option"
  early_warning :: bool

record ReservationReport =
  rr_generation :: u32
  rr_registration_count :: nat
  rr_active_owner :: "string option"
  rr_active_key :: "u64 option"

definition validate_payload_len :: "nat \<Rightarrow> (TapeError, u32) result" where
  "validate_payload_len n =
     ok_or (try_from_nat n) (InvalidArgument (''payload too large for u32 length field: '' @ decimal n @ '' bytes''))"

section \<open>The index of recorded blocks\<close>

text \<open>
  \<^verbatim>\<open>binary_search\<close> on a sorted list: where the element is, or where it
  would have to be inserted.
\<close>

definition insert_sorted :: "u64 \<Rightarrow> u64 list \<Rightarrow> u64 list" where
  "insert_sorted x xs =
     (if x \<in> set xs then xs
      else let i = partition_point (\<lambda>y. y < x) xs in take i xs @ x # drop i xs)"

definition record_block :: "u64 \<Rightarrow> u32 \<Rightarrow> TapeState \<Rightarrow> TapeState" where
  "record_block start n t =
     (if bt_has start (block_lengths t) then t\<lparr>block_lengths := bt_insert start n (block_lengths t)\<rparr>
      else
        let append = (block_starts t = [] \<or> last (block_starts t) < start) in
        t\<lparr>block_starts := (if append then block_starts t @ [start] else insert_sorted start (block_starts t)),
          block_lengths := bt_insert start n (block_lengths t)\<rparr>)"

definition next_point :: "u64 list \<Rightarrow> u64 \<Rightarrow> u64 option" where
  "next_point ps current = find (\<lambda>p. current < p) ps"

definition previous_point :: "u64 list \<Rightarrow> u64 \<Rightarrow> u64 option" where
  "previous_point ps current = find (\<lambda>p. p < current) (rev ps)"

definition sorted_points :: "u64 list \<Rightarrow> u64 list" where
  "sorted_points ps = sort ps"

definition logical_position_step :: "TapeState \<Rightarrow> u64" where
  "logical_position_step t =
     (if bm_mode (block_mode t) = Fixed \<and> 0 < fixed_block_size (block_mode t)
      then ucast (fixed_block_size (block_mode t)) else 1)"

text \<open>Filemarks keep their stored extent when the block mode changes.\<close>

definition position_after_filemark :: "TapeState \<Rightarrow> u64 \<Rightarrow> u64" where
  "position_after_filemark t mark =
     (case filter (\<lambda>p. mark < p) (block_starts t @ filemarks t @ [eod_position t]) of
        [] \<Rightarrow> eod_position t
      | p # ps \<Rightarrow> foldl min p ps)"

section \<open>SPACE\<close>

text \<open>
  The count is a signed 64-bit integer, here a word read by \<^verbatim>\<open>sint\<close>; negating
  it wraps.  A loop of \<^verbatim>\<open>n\<close> rounds that may stop with nothing is
  \<^verbatim>\<open>iterate_point n\<close>.
\<close>

type_synonym i64 = "64 word"

primrec iterate_point :: "nat \<Rightarrow> (u64 \<Rightarrow> u64 option) \<Rightarrow> u64 \<Rightarrow> u64 option" where
  "iterate_point 0 f p = Some p"
| "iterate_point (Suc n) f p = Option.bind (f p) (iterate_point n f)"

definition space_blocks :: "TapeState \<Rightarrow> i64 \<Rightarrow> (TapeError, u64) result" where
  "space_blocks t cnt =
     (if cnt = 0 then Ok (current_position t)
      else if block_starts t = [] then
        if 0 < sint cnt then Err (Tape_NotFound ''SPACE blocks encountered EOD before any recorded block'')
        else Err (OutOfRange ''SPACE blocks before BOT'')
      else if 0 < sint cnt
      then ok_or (iterate_point (nat (sint cnt)) (next_point (block_starts t)) (current_position t))
             (Tape_NotFound ''SPACE blocks encountered EOD'')
      else ok_or (iterate_point (nat (sint (- cnt))) (previous_point (block_starts t)) (current_position t))
             (OutOfRange ''SPACE blocks before BOT''))"

definition space_filemarks :: "TapeState \<Rightarrow> i64 \<Rightarrow> (TapeError, u64) result" where
  "space_filemarks t cnt =
     (let marks = sorted_points (filemarks t) in
      if cnt = 0 then Ok (current_position t)
      else if filemarks t = [] then Err (OutOfRange ''SPACE filemarks has no filemarks'')
      else if 0 < sint cnt
      then ok_or (iterate_point (nat (sint cnt))
               (\<lambda>p. map_option (position_after_filemark t) (find (\<lambda>m. p \<le> m) marks)) (current_position t))
             (OutOfRange ''SPACE filemarks beyond EOD'')
      else ok_or (iterate_point (nat (sint (- cnt))) (previous_point marks) (current_position t))
             (OutOfRange ''SPACE filemarks before BOT''))"

definition space_end_of_data :: "TapeState \<Rightarrow> i64 \<Rightarrow> (TapeError, u64) result" where
  "space_end_of_data t cnt =
     (if cnt = 0 \<or> cnt = 1 then Ok (eod_position t)
      else if cnt = - 1 then Ok 0
      else Err (OutOfRange (''SPACE EOD count '' @
        (if sint cnt < 0 then CHR ''-'' # decimal (nat (- sint cnt)) else decimal (nat (sint cnt))) @
        '' out of supported range'')))"

section \<open>Capacity\<close>

definition active_partition_size :: "TapeState \<Rightarrow> u64" where
  "active_partition_size t =
     (let p = partition_runtime t;
          partition_count = min 4 (unat (addl_partitions_defined p) + 1) in
      partition_sizes_bytes p ! min (unat (active_partition p)) (partition_count - 1))"

definition active_partition_capacity_limit :: "TapeState \<Rightarrow> u64 option" where
  "active_partition_capacity_limit t =
     (let configured = active_partition_size t in
      case cartridge_capacity_bytes t of
        Some capacity \<Rightarrow> Some (if configured = 0 then capacity else min capacity configured)
      | None \<Rightarrow> if configured = 0 then None else Some configured)"

definition ensure_capacity_available :: "TapeState \<Rightarrow> u64 \<Rightarrow> (TapeError, unit) result" where
  "ensure_capacity_available t n =
     (case active_partition_capacity_limit t of
        None \<Rightarrow> Ok ()
      | Some limit \<Rightarrow> guard (saturating_add (current_position t) n \<le> limit) VolumeOverflow)"

definition early_warning_active :: "TapeState \<Rightarrow> bool" where
  "early_warning_active t =
     (let capacity = active_partition_size t; window = max 1 (early_warning_window t) in
      capacity \<noteq> 0 \<and> saturating_sub capacity window \<le> current_position t)"

section \<open>LOCATE and READ POSITION\<close>

definition is_addressable_position :: "TapeState \<Rightarrow> u64 \<Rightarrow> bool" where
  "is_addressable_position t p =
     (if eod_position t < p then False
      else if bm_mode (block_mode t) = Variable then True
      else if p = 0 \<or> p = eod_position t \<or> bt_has p (block_lengths t) \<or> p \<in> set (filemarks t) then True
      else if 0 < fixed_block_size (block_mode t) then p mod ucast (fixed_block_size (block_mode t)) = 0
      else False)"

definition locate_target :: "TapeState \<Rightarrow> u64 \<Rightarrow> (TapeError, u64) result" where
  "locate_target t p =
     bind_r (guard (p \<le> eod_position t) (OutOfRange (''locate target '' @ decimal (unat p) @ '' beyond eod '' @
       decimal (unat (eod_position t))))) (\<lambda>_.
     bind_r (guard (is_addressable_position t p) (OutOfRange (''locate target '' @ decimal (unat p) @
       '' is not an addressable position''))) (\<lambda>_.
     Ok p))"

definition read_position :: "TapeState \<Rightarrow> (TapeError, PositionReport) result" where
  "read_position t =
     bind_r (guard (mount_state t \<noteq> Empty) (NotReady ''no media loaded'')) (\<lambda>_.
     bind_r (validate_payload_len (length (filemarks t))) (\<lambda>n.
     let ahead = filter (\<lambda>m. current_position t \<le> m) (filemarks t) in
     Ok \<lparr>pr_current_position = current_position t, pr_eod_position = eod_position t,
         file_number = (if filemarks t = [] then 0
           else of_nat (length (filter (\<lambda>m. m < current_position t) (filemarks t)))),
         set_number = 0, pr_filemark_count = n,
         next_filemark = (case ahead of [] \<Rightarrow> None | m # ms \<Rightarrow> Some (foldl min m ms)),
         early_warning = early_warning_active t\<rparr>))"

section \<open>What the positions mean\<close>

text \<open>The two indexes of recorded blocks agree and are in order.\<close>

definition index_ok :: "TapeState \<Rightarrow> bool" where
  "index_ok t \<longleftrightarrow> bt_ok (block_lengths t) \<and> block_starts t = map fst (block_lengths t)"

lemma index_ok_sorted: "index_ok t \<Longrightarrow> sorted_wrt (<) (block_starts t)"
  by (simp add: index_ok_def bt_ok_def)

lemma partition_point_less:
  "sorted_wrt (<) xs \<Longrightarrow> x \<notin> set xs \<Longrightarrow>
   take (partition_point (\<lambda>y. y < x) xs) xs @ x # drop (partition_point (\<lambda>y. y < x) xs) xs =
     insort x (xs :: u64 list)"
  by (induction xs) (auto simp: partition_point_def not_less)

lemma map_fst_bt_insert:
  "bt_ok m \<Longrightarrow> map fst (bt_insert k v m) = (if k \<in> fst ` set m then map fst m else insort k (map fst m))"
proof (induction k v m rule: bt_insert.induct)
  case (2 k v k' v' m)
  then show ?case by (cases "k < k'"; cases "k = k'") (auto dest: less_not_sym)
qed simp

lemma insort_last: "(\<forall>y\<in>set xs. y < x) \<Longrightarrow> insort x xs = xs @ [x :: u64]"
  by (induction xs) (auto simp: not_le)

lemma sorted_last_above:
  assumes "sorted_wrt (<) xs" "xs = [] \<or> last xs < x"
  shows "\<forall>y\<in>set xs. y < (x :: u64)"
  using assms by (induction xs rule: rev_induct) (auto simp: sorted_wrt_append dest: less_trans)

lemma record_block_starts:
  assumes "index_ok t"
  shows "block_starts (record_block start n t) =
    (if start \<in> set (block_starts t) then block_starts t else insort start (block_starts t))"
proof -
  have sorted: "sorted_wrt (<) (block_starts t)" using assms by (rule index_ok_sorted)
  have has: "bt_has start (block_lengths t) \<longleftrightarrow> start \<in> set (block_starts t)"
    using assms unfolding bt_has_def by (simp add: index_ok_def)
  show ?thesis
    using sorted_last_above [OF sorted, of start] insort_last [of "block_starts t" start]
      partition_point_less [OF sorted, of start]
    unfolding record_block_def has Let_def insert_sorted_def by auto
qed

lemma record_block_index:
  assumes "index_ok t"
  shows "index_ok (record_block start n t)"
    "map_of (block_lengths (record_block start n t)) = (map_of (block_lengths t))(start \<mapsto> n)"
proof -
  have l: "block_lengths (record_block start n t) = bt_insert start n (block_lengths t)"
    by (simp add: record_block_def Let_def)
  show "map_of (block_lengths (record_block start n t)) = (map_of (block_lengths t))(start \<mapsto> n)"
    by (simp add: l)
  show "index_ok (record_block start n t)"
    using assms map_fst_bt_insert [of "block_lengths t" start n]
    unfolding index_ok_def l record_block_starts [OF assms] by auto
qed

lemma iterate_find:
  assumes "sorted_wrt R ps" "transp R" "irreflp R"
  shows "iterate_point (Suc n) (\<lambda>p. find (R p) ps) p =
    (if n < length (filter (R p) ps) then Some (filter (R p) ps ! n) else None)"
proof (induction n arbitrary: p)
  case 0
  have "iterate_point 0 f = Some" for f by (rule ext) simp
  moreover have "find (R p) ps = (if filter (R p) ps = [] then None else Some (filter (R p) ps ! 0))"
    by (induction ps) simp_all
  ultimately show ?case by simp
next
  case (Suc n)
  show ?case
  proof (cases "filter (R p) ps")
    case Nil
    then have "find (R p) ps = None" by (auto simp: find_None_iff filter_empty_conv)
    then show ?thesis using Nil by simp
  next
    case (Cons q qs)
    then have q: "find (R p) ps = Some q" by (induction ps) (auto split: if_splits)
    have "q \<in> set (filter (R p) ps)" using Cons by simp
    then have "R p q" by simp
    then have "filter (R q) ps = filter (R q) (filter (R p) ps)"
      using assms(2) by (auto intro!: filter_cong dest: transpD)
    also have "\<dots> = qs"
    proof -
      have "sorted_wrt R (q # qs)" using assms(1) Cons sorted_wrt_filter by metis
      then show ?thesis using assms(3) Cons by (auto simp: irreflp_def filter_id_conv)
    qed
    finally show ?thesis using Suc.IH [of q] q Cons by simp
  qed
qed

lemma iterate_next:
  assumes "sorted_wrt (<) ps"
  shows "iterate_point (Suc n) (next_point ps) p =
    (if n < length (filter (\<lambda>x. p < x) ps) then Some (filter (\<lambda>x. p < x) ps ! n) else None)"
  using iterate_find [of "(<)" ps n p] assms unfolding next_point_def by simp

lemma iterate_previous:
  assumes "sorted_wrt (<) ps"
  shows "iterate_point (Suc n) (previous_point ps) p =
    (if n < length (filter (\<lambda>x. x < p) ps) then Some (rev (filter (\<lambda>x. x < p) ps) ! n) else None)"
  using iterate_find [of "(>)" "rev ps" n p] assms
  unfolding previous_point_def by (simp add: sorted_wrt_rev rev_filter [symmetric])

lemma sint_neg_count:
  assumes "sint (n :: i64) < 0" "n \<noteq> 0x8000000000000000"
  shows "sint (- n) = - sint n"
proof -
  have "sint n \<noteq> - (2 ^ 63)"
  proof
    assume "sint n = - (2 ^ 63)"
    then have "sint n = sint (0x8000000000000000 :: i64)" by simp
    then have "n = 0x8000000000000000" by (rule signed_word_eqI)
    then show False using assms(2) by blast
  qed
  moreover have "- (2 ^ 63) \<le> sint n" using sint_ge [of n] by simp
  ultimately have "- (2 ^ 63) < sint n" by linarith
  then show ?thesis using assms(1) by (simp add: sint_word_ariths signed_take_bit_int_eq_self)
qed

text \<open>
  C40: SPACE over blocks on a drive whose block index is in order moves to the
  start of the n-th recorded block after the position, or the n-th before it,
  and fails exactly when there are not that many; the one count whose negation
  overflows, -2^63, moves nowhere and reports success.
\<close>

theorem space_blocks_exact:
  assumes "index_ok t"
  shows "(0 < sint n \<longrightarrow>
      (let later = filter (\<lambda>s. current_position t < s) (block_starts t) in
       if nat (sint n) \<le> length later then space_blocks t n = Ok (later ! (nat (sint n) - 1))
       else \<exists>msg. space_blocks t n = Err (Tape_NotFound msg))) \<and>
    (sint n < 0 \<and> n \<noteq> 0x8000000000000000 \<longrightarrow>
      (let earlier = filter (\<lambda>s. s < current_position t) (block_starts t) in
       if nat (- sint n) \<le> length earlier
       then space_blocks t n = Ok (rev earlier ! (nat (- sint n) - 1))
       else \<exists>msg. space_blocks t n = Err (OutOfRange msg))) \<and>
    (block_starts t \<noteq> [] \<longrightarrow> space_blocks t 0x8000000000000000 = Ok (current_position t))"
proof (intro conjI impI)
  have sorted: "sorted_wrt (<) (block_starts t)" using assms by (rule index_ok_sorted)
  show "let later = filter (\<lambda>s. current_position t < s) (block_starts t) in
       if nat (sint n) \<le> length later then space_blocks t n = Ok (later ! (nat (sint n) - 1))
       else \<exists>msg. space_blocks t n = Err (Tape_NotFound msg)" if pos: "0 < sint n"
  proof -
    obtain k where k: "nat (sint n) = Suc k" using pos by (cases "nat (sint n)") auto
    have "n \<noteq> 0" using pos by auto
    then show ?thesis using pos k iterate_next [OF sorted, of k "current_position t"]
      by (auto simp: space_blocks_def Let_def)
  qed
  show "let earlier = filter (\<lambda>s. s < current_position t) (block_starts t) in
       if nat (- sint n) \<le> length earlier
       then space_blocks t n = Ok (rev earlier ! (nat (- sint n) - 1))
       else \<exists>msg. space_blocks t n = Err (OutOfRange msg)" if neg: "sint n < 0 \<and> n \<noteq> 0x8000000000000000"
  proof -
    have minus: "sint (- n) = - sint n" using neg sint_neg_count by blast
    obtain k where k: "nat (- sint n) = Suc k" using neg by (cases "nat (- sint n)") auto
    have "n \<noteq> 0" using neg by auto
    then show ?thesis using neg k iterate_previous [OF sorted, of k "current_position t"]
      by (auto simp: space_blocks_def Let_def minus)
  qed
  show "space_blocks t 0x8000000000000000 = Ok (current_position t)" if "block_starts t \<noteq> []"
    using that by (simp add: space_blocks_def)
qed

theorem space_blocks_exact_witness:
  "space_blocks ((tape_new plain_externs ''d'')\<lparr>block_starts := [0, 4, 8], block_lengths := [(0, 4), (4, 4), (8, 4)],
     current_position := 4\<rparr>) (- 1) = Ok 0"
  using space_blocks_exact [of "(tape_new plain_externs ''d'')\<lparr>block_starts := [0, 4, 8],
      block_lengths := [(0, 4), (4, 4), (8, 4)], current_position := 4\<rparr>" "- 1"]
  by (simp add: index_ok_def Let_def)

end
