(* ===== verification/Segment.thy ===== *)
theory Segment
  imports Layout
begin

text \<open>
  Segment files (\<^verbatim>\<open>storage/segment.rs\<close>): a header, in format 2 stored twice
  with a checksum of its own, followed by the payload.  A segment is replaced
  as a whole through a temporary file, or appended to in place through a cache
  of open files.  The model has the bytes of each file and the append cache;
  the synchronisation calls have no effect on it, and an open file of the
  cache is identified with its name, since every replacement of a file drops
  its cache entry.
\<close>

definition SEGMENT_HEADER_SIZE :: nat where "SEGMENT_HEADER_SIZE = 36"
definition SEGMENT_HEADER_V2_COPY_SIZE :: nat where "SEGMENT_HEADER_V2_COPY_SIZE = 48"
definition SEGMENT_HEADER_V2_TOTAL_SIZE :: nat where
  "SEGMENT_HEADER_V2_TOTAL_SIZE = SEGMENT_HEADER_V2_COPY_SIZE * 2"

lemmas header_sizes = SEGMENT_HEADER_SIZE_def SEGMENT_HEADER_V2_COPY_SIZE_def
  SEGMENT_HEADER_V2_TOTAL_SIZE_def

lemmas header_versions = STORAGE_LAYOUT_VERSION_def STORAGE_LAYOUT_VERSION_V1_def

section \<open>State\<close>

record AppendFileState =
  af_header :: SegmentHeader
  af_payload_offset :: u64
  af_checked_prefix :: "bytes option"
  af_append_offset :: u64

record segment_store = layout_files +
  append_file_cache :: "layout_file \<Rightarrow> AppendFileState option"

definition invalidate_append_file :: "layout_file \<Rightarrow> ('z segment_store_scheme, 'e, unit) stm" where
  "invalidate_append_file f = modify_s (append_file_cache_update (\<lambda>c. c(f := None)))"

section \<open>Header sets\<close>

definition encode_v2_header_copy :: "externs \<Rightarrow> SegmentHeader \<Rightarrow> bytes" where
  "encode_v2_header_copy E h =
     (let out = to_le_bytes (magic h) @ to_le_bytes (version h) @ to_le_bytes (kind_to_u16 (kind h)) @
                to_le_bytes (segment_id h) @ to_le_bytes (sequence h) @ to_le_bytes (payload_len h) @
                to_le_bytes (checksum h) @ to_le_bytes (1 :: u16) @ replicate 6 0 in
      out @ to_le_bytes (integrity32 E out))"

definition decode_v2_header_copy :: "externs \<Rightarrow> bytes \<Rightarrow> (StorageError, SegmentHeader) result" where
  "decode_v2_header_copy E buf =
     (if length buf < SEGMENT_HEADER_V2_COPY_SIZE then Err (Corrupt ''v2 segment header too short'')
      else if integrity32 E (take 44 buf) \<noteq> from_le_bytes (slice 44 4 buf)
      then Err (Corrupt ''v2 segment header checksum mismatch'')
      else bind_r (header_decode (take SEGMENT_HEADER_SIZE buf)) (\<lambda>h.
        if version h \<noteq> STORAGE_LAYOUT_VERSION
        then Err (VersionMismatch STORAGE_LAYOUT_VERSION (version h)) else Ok h))"

definition select_header_copy ::
  "(StorageError, SegmentHeader) result \<Rightarrow> (StorageError, SegmentHeader) result \<Rightarrow>
   (StorageError, SegmentHeader) result" where
  "select_header_copy primary backup =
     (case (primary, backup) of
        (Inr left, Inr right) \<Rightarrow> Ok (if sequence right \<le> sequence left then left else right)
      | (Inr h, Inl _) \<Rightarrow> Ok h
      | (Inl _, Inr h) \<Rightarrow> Ok h
      | (Inl _, Inl _) \<Rightarrow> Err (Corrupt ''no valid v2 segment header copy''))"

definition decode_segment_header_set ::
  "externs \<Rightarrow> bytes \<Rightarrow> (StorageError, SegmentHeader \<times> u64) result" where
  "decode_segment_header_set E buf =
     (if length buf < SEGMENT_HEADER_SIZE then Err (Corrupt ''segment header too short'')
      else
        let legacy = header_decode (take SEGMENT_HEADER_SIZE buf);
            otherwise =
              (if length buf < SEGMENT_HEADER_V2_TOTAL_SIZE then
                 (case legacy of
                    Inr h \<Rightarrow>
                      if magic h = STORAGE_LAYOUT_MAGIC \<and> version h \<noteq> STORAGE_LAYOUT_VERSION
                      then Err (VersionMismatch STORAGE_LAYOUT_VERSION (version h))
                      else Err (Corrupt ''v2 segment header set too short'')
                  | Inl e \<Rightarrow> Err e)
               else
                 bind_r (select_header_copy
                           (decode_v2_header_copy E (take SEGMENT_HEADER_V2_COPY_SIZE buf))
                           (decode_v2_header_copy E
                              (slice SEGMENT_HEADER_V2_COPY_SIZE SEGMENT_HEADER_V2_COPY_SIZE buf)))
                   (\<lambda>h. Ok (h, of_nat SEGMENT_HEADER_V2_TOTAL_SIZE))) in
        case legacy of
          Inr h \<Rightarrow> if version h = STORAGE_LAYOUT_VERSION_V1 then Ok (h, of_nat SEGMENT_HEADER_SIZE)
                   else otherwise
        | Inl _ \<Rightarrow> otherwise)"

definition segment_headers :: "externs \<Rightarrow> SegmentHeader \<Rightarrow> bytes" where
  "segment_headers E h =
     (if version h = STORAGE_LAYOUT_VERSION
      then encode_v2_header_copy E h @ encode_v2_header_copy E h else header_encode h)"

definition segment_payload_offset :: "SegmentHeader \<Rightarrow> u64" where
  "segment_payload_offset h =
     (if version h = STORAGE_LAYOUT_VERSION then of_nat SEGMENT_HEADER_V2_TOTAL_SIZE
      else of_nat SEGMENT_HEADER_SIZE)"

section \<open>Whole files\<close>

definition write_segment_file ::
  "externs \<Rightarrow> layout_file \<Rightarrow> SegmentKind \<Rightarrow> u64 \<Rightarrow> u64 \<Rightarrow> bytes \<Rightarrow>
   ('z segment_store_scheme, StorageError, unit) stm" where
  "write_segment_file E f k sid sq payload =
     bind_s (invalidate_append_file f) (\<lambda>_.
     bind_s (put_file (Tmp f) (segment_headers E (header_new E k sid sq payload) @ payload)) (\<lambda>_.
     bind_s (rename_file (Tmp f) f) (\<lambda>_.
     invalidate_append_file f)))"

definition decode_segment_file_bytes ::
  "externs \<Rightarrow> SegmentKind \<Rightarrow> bytes \<Rightarrow> (StorageError, SegmentHeader \<times> bytes) result" where
  "decode_segment_file_bytes E expected_kind buf =
     (if length buf < SEGMENT_HEADER_SIZE then Err (Corrupt ''segment too short'')
      else bind_r (decode_segment_header_set E buf) (\<lambda>(h, off).
        if kind h \<noteq> expected_kind then Err (Corrupt ''segment kind mismatch'')
        else if length buf < unat off then Err (Corrupt ''segment payload offset exceeds file'')
        else let payload = drop (unat off) buf in
          bind_r (header_validate E h payload) (\<lambda>_. Ok (h, payload))))"

definition read_segment_file ::
  "externs \<Rightarrow> layout_file \<Rightarrow> SegmentKind \<Rightarrow>
   ('z segment_store_scheme, StorageError, SegmentHeader \<times> bytes) stm" where
  "read_segment_file E f k s =
     (case files s f of
        None \<Rightarrow> (Err (NotFound ''segment not found''), s)
      | Some buf \<Rightarrow> (decode_segment_file_bytes E k buf, s))"

definition read_segment_file_bounded ::
  "externs \<Rightarrow> layout_file \<Rightarrow> SegmentKind \<Rightarrow> nat \<Rightarrow>
   ('z segment_store_scheme, StorageError, SegmentHeader \<times> bytes) stm" where
  "read_segment_file_bounded E f k max_bytes s =
     (case files s f of
        None \<Rightarrow> (Err (Io IoNotFound), s)
      | Some buf \<Rightarrow>
          if length buf > max_bytes then (Err MetadataBudgetExceeded, s)
          else (decode_segment_file_bytes E k buf, s))"

definition read_segment_header ::
  "externs \<Rightarrow> layout_file \<Rightarrow> SegmentKind \<Rightarrow> ('z segment_store_scheme, StorageError, SegmentHeader) stm" where
  "read_segment_header E f k s =
     (case files s f of
        None \<Rightarrow> (Err (NotFound ''segment not found''), s)
      | Some buf \<Rightarrow>
          (bind_r (decode_segment_header_set E (take SEGMENT_HEADER_V2_TOTAL_SIZE buf)) (\<lambda>(h, _).
             if kind h \<noteq> k then Err (Corrupt ''segment kind mismatch'') else Ok h), s))"

definition validate_segment_shape ::
  "externs \<Rightarrow> layout_file \<Rightarrow> SegmentKind \<Rightarrow> ('z segment_store_scheme, StorageError, SegmentHeader) stm" where
  "validate_segment_shape E f k =
     bind_s (read_segment_header E f k) (\<lambda>h.
     bind_s (gets_s (\<lambda>s. case files s f of None \<Rightarrow> 0 | Some buf \<Rightarrow> length buf)) (\<lambda>actual_len.
     if of_nat actual_len \<noteq> segment_payload_offset h + payload_len h
     then err_s (Corrupt ''segment size mismatch'') else ret_s h))"

section \<open>Appending\<close>

text \<open>
  The gathering write: after a short write the loop skips the parts that were
  written completely and continues in the middle of the next one.  The result
  carries the bytes that reached the file, also when the loop fails.
\<close>

fun advance_parts :: "nat \<Rightarrow> bytes list \<Rightarrow> bytes list" where
  "advance_parts n [] = []"
| "advance_parts n (p # ps) =
     (if n < length p then drop n p # ps
      else if n - length p = 0 then ps else advance_parts (n - length p) ps)"

lemma advance_parts_measure:
  "0 < n \<Longrightarrow> ps \<noteq> [] \<Longrightarrow>
   length (concat (advance_parts n ps)) + length (advance_parts n ps) < length (concat ps) + length ps"
proof (induction n ps rule: advance_parts.induct)
  case (2 n p ps)
  show ?case
  proof (cases "n < length p \<or> n - length p = 0 \<or> ps = []")
    case True
    with "2.prems" show ?thesis by auto
  next
    case False
    with 2 show ?thesis by (auto simp del: length_concat)
  qed
qed simp

function write_parts_loop :: "externs \<Rightarrow> bytes list \<Rightarrow> bytes \<Rightarrow> (StorageError, unit) result \<times> bytes" where
  "write_parts_loop E parts out =
     (if parts = [] then (Ok (), out)
      else let written = write_vectored E (map length parts) in
        if written = 0 then (Err (Io IoWriteZero), out)
        else write_parts_loop E (advance_parts written parts) (out @ take written (concat parts)))"
  by pat_completeness auto

termination
  by (relation "measure (\<lambda>(E, parts, out). length (concat parts) + length parts)")
    (auto simp: advance_parts_measure simp del: length_concat)

declare write_parts_loop.simps [simp del]

definition write_all_parts :: "externs \<Rightarrow> bytes list \<Rightarrow> (StorageError, unit) result \<times> bytes" where
  "write_all_parts E parts =
     (if length parts = 1 then (Ok (), hd parts) else write_parts_loop E parts [])"

text \<open>Writing at an offset: bytes in between read as zero when the offset is past the end.\<close>

definition write_at :: "nat \<Rightarrow> bytes \<Rightarrow> bytes \<Rightarrow> bytes" where
  "write_at off new buf =
     take off buf @ replicate (off - length buf) 0 @ new @ drop (off + length new) buf"

definition write_file_at :: "layout_file \<Rightarrow> nat \<Rightarrow> bytes \<Rightarrow> ('z layout_files_scheme, 'e, unit) stm" where
  "write_file_at f off new =
     modify_s (files_update (\<lambda>m. m(f := map_option (write_at off new) (m f))))"

definition write_segment_header_copies_at ::
  "externs \<Rightarrow> layout_file \<Rightarrow> SegmentHeader \<Rightarrow> ('z segment_store_scheme, StorageError, unit) stm" where
  "write_segment_header_copies_at E f h =
     (if version h = STORAGE_LAYOUT_VERSION then
        bind_s (write_file_at f SEGMENT_HEADER_V2_COPY_SIZE (encode_v2_header_copy E h)) (\<lambda>_.
        write_file_at f 0 (encode_v2_header_copy E h))
      else write_file_at f 0 (header_encode h))"

definition append_checksum :: "externs \<Rightarrow> bool \<Rightarrow> SegmentHeader \<Rightarrow> bytes list \<Rightarrow> u32" where
  "append_checksum E checksum_enabled h parts =
     (if checksum_enabled \<and> checksum h \<noteq> 0
      then foldl (\<lambda>acc part. if version h = STORAGE_LAYOUT_VERSION
                             then integrity32_continue E acc part
                             else checksum32_continue acc part) (checksum h) parts
      else 0)"

definition set_append_state ::
  "layout_file \<Rightarrow> AppendFileState \<Rightarrow> ('z segment_store_scheme, 'e, unit) stm" where
  "set_append_state f st = modify_s (append_file_cache_update (\<lambda>c. c(f := Some st)))"

text \<open>The cached prefix comparison, and the in-place append with the header update after it.\<close>

definition check_append_prefix ::
  "layout_file \<Rightarrow> bytes \<Rightarrow> AppendFileState \<Rightarrow> ('z segment_store_scheme, StorageError, AppendFileState) stm" where
  "check_append_prefix f expected_prefix st =
     (if af_checked_prefix st = Some expected_prefix then ret_s st
      else bind_s (gets_s (\<lambda>s. case files s f of None \<Rightarrow> [] | Some buf \<Rightarrow>
                      slice (unat (af_payload_offset st)) (length expected_prefix) buf)) (\<lambda>prefix_buf.
        if length prefix_buf < length expected_prefix then err_s (Io IoUnexpectedEof)
        else if prefix_buf \<noteq> expected_prefix
        then err_s (Conflict ''segment requires migration before append'')
        else let st' = st\<lparr>af_checked_prefix := Some expected_prefix\<rparr> in
          bind_s (set_append_state f st') (\<lambda>_. ret_s st')))"

definition append_in_place ::
  "externs \<Rightarrow> layout_file \<Rightarrow> bytes \<Rightarrow> bytes list \<Rightarrow> bool \<Rightarrow> AppendFileState \<Rightarrow>
   ('z segment_store_scheme, StorageError, SegmentHeader) stm" where
  "append_in_place E f expected_prefix parts checksum_enabled st0 =
     bind_s (check_append_prefix f expected_prefix st0) (\<lambda>st.
     let appended_len = of_nat (length (concat parts)) :: u64;
         (outcome, out) = write_all_parts E parts in
     bind_s (write_file_at f (unat (af_append_offset st)) out) (\<lambda>_.
     bind_s (lift_s outcome) (\<lambda>_.
     let h = af_header st;
         h' = h\<lparr>sequence := saturating_add (sequence h) 1,
                payload_len := saturating_add (payload_len h) appended_len,
                checksum := append_checksum E checksum_enabled h parts\<rparr> in
     bind_s (set_append_state f (st\<lparr>af_header := h',
               af_append_offset := saturating_add (af_append_offset st) appended_len\<rparr>)) (\<lambda>_.
     bind_s (write_segment_header_copies_at E f h') (\<lambda>_.
     ret_s h')))))"

definition append_segment_payload_parts ::
  "externs \<Rightarrow> layout_file \<Rightarrow> SegmentKind \<Rightarrow> u64 \<Rightarrow> bytes \<Rightarrow> bytes list \<Rightarrow> bool \<Rightarrow>
   ('z segment_store_scheme, StorageError, SegmentHeader) stm" where
  "append_segment_payload_parts E f k sid expected_prefix parts checksum_enabled s =
     (if length (concat parts) = 0 then read_segment_header E f k s
      else
        let rewrite = (\<lambda>sq. bind_s (write_segment_file E f k sid sq (expected_prefix @ concat parts))
                              (\<lambda>_. read_segment_header E f k));
            continue = (\<lambda>st.
              if kind (af_header st) \<noteq> k then err_s (Corrupt ''segment kind mismatch'')
              else if payload_len (af_header st) = 0
              then rewrite (saturating_add (sequence (af_header st)) 1)
              else append_in_place E f expected_prefix parts checksum_enabled st) in
        case append_file_cache s f of
          Some st \<Rightarrow> continue st s
        | None \<Rightarrow>
            (case files s f of
               None \<Rightarrow> rewrite 1 s
             | Some buf \<Rightarrow>
                 bind_s (lift_s (decode_segment_header_set E (take SEGMENT_HEADER_V2_TOTAL_SIZE buf)))
                   (\<lambda>(h, off).
                      let st = \<lparr>af_header = h, af_payload_offset = off, af_checked_prefix = None,
                                af_append_offset = off + payload_len h\<rparr> in
                      bind_s (set_append_state f st) (\<lambda>_. continue st)) s))"

definition append_segment_payload ::
  "externs \<Rightarrow> layout_file \<Rightarrow> SegmentKind \<Rightarrow> u64 \<Rightarrow> bytes \<Rightarrow> bytes \<Rightarrow>
   ('z segment_store_scheme, StorageError, SegmentHeader) stm" where
  "append_segment_payload E f k sid expected_prefix appended =
     append_segment_payload_parts E f k sid expected_prefix [appended] True"

definition discard_layout_append_handles :: "('z segment_store_scheme, 'e, unit) stm" where
  "discard_layout_append_handles = modify_s (append_file_cache_update (\<lambda>_. \<lambda>_. None))"

section \<open>Correctness of header sets\<close>

lemma length_encode_v2_header_copy [simp]: "length (encode_v2_header_copy E h) = 48"
  by (simp add: encode_v2_header_copy_def Let_def)

lemma encode_v2_header_copy_parts:
  "encode_v2_header_copy E h =
     header_encode h @ to_le_bytes (1 :: u16) @ replicate 6 0 @
     to_le_bytes (integrity32 E (header_encode h @ to_le_bytes (1 :: u16) @ replicate 6 0))"
  by (simp add: encode_v2_header_copy_def header_encode_def Let_def)

lemma decode_v2_header_copy_encode [codec]:
  "version h = STORAGE_LAYOUT_VERSION \<Longrightarrow> decode_v2_header_copy E (encode_v2_header_copy E h) = Ok h"
  by (simp add: decode_v2_header_copy_def encode_v2_header_copy_parts header_sizes
      header_decode_encode [of h "[]", simplified])

lemma length_segment_headers:
  "version h = STORAGE_LAYOUT_VERSION \<Longrightarrow> length (segment_headers E h) = 96"
  by (simp add: segment_headers_def)

text \<open>
  The choice between the two copies.  The first copy may hold anything that is
  not a header of format 1; the second is an intact format 2 header.
\<close>

lemma decode_segment_header_set_copies:
  assumes "length c1 = 48" "length c2 = 48"
    and "\<And>h. header_decode c1 = Ok h \<Longrightarrow> version h \<noteq> STORAGE_LAYOUT_VERSION_V1"
  shows "decode_segment_header_set E (c1 @ c2 @ rest) =
     bind_r (select_header_copy (decode_v2_header_copy E c1) (decode_v2_header_copy E c2))
       (\<lambda>h. Ok (h, 96))"
proof -
  have "header_decode (take 36 (c1 @ c2 @ rest)) = header_decode c1"
    using header_decode_take [of c1] assms(1) by simp
  moreover have "slice 48 48 (c1 @ c2 @ rest) = c2" using assms by simp
  ultimately show ?thesis using assms
    by (auto simp: decode_segment_header_set_def header_sizes Let_def split: sum.split)
qed

lemma header_decode_v2_copy [simp]: "header_decode (encode_v2_header_copy E h) = Ok h"
  by (simp add: encode_v2_header_copy_parts header_decode_encode)

lemma decode_segment_headers [simp]:
  assumes "version h = STORAGE_LAYOUT_VERSION"
  shows "decode_segment_header_set E (segment_headers E h @ rest) = Ok (h, 96)"
  using assms decode_segment_header_set_copies
    [of "encode_v2_header_copy E h" "encode_v2_header_copy E h" E rest]
  by (simp add: segment_headers_def decode_v2_header_copy_encode select_header_copy_def header_versions)

section \<open>Correctness of whole files\<close>

text \<open>
  A file has the shape of a segment when it is a format 2 header set followed
  by exactly the payload the header announces; it is sealed when the header
  also carries the payload's checksum.
\<close>

definition shaped :: "externs \<Rightarrow> 'z layout_files_scheme \<Rightarrow> layout_file \<Rightarrow> SegmentHeader \<Rightarrow> bytes \<Rightarrow> bool" where
  "shaped E s f h payload \<longleftrightarrow>
     files s f = Some (segment_headers E h @ payload) \<and> magic h = STORAGE_LAYOUT_MAGIC \<and>
     version h = STORAGE_LAYOUT_VERSION \<and> payload_len h = of_nat (length payload) \<and>
     length payload + 96 < 2 ^ 64"

definition sealed :: "externs \<Rightarrow> 'z layout_files_scheme \<Rightarrow> layout_file \<Rightarrow> SegmentHeader \<Rightarrow> bytes \<Rightarrow> bool" where
  "sealed E s f h payload \<longleftrightarrow> shaped E s f h payload \<and> checksum h = integrity32 E payload"

lemma decode_segment_file_bytes_headers:
  assumes "version h = STORAGE_LAYOUT_VERSION" "kind h = k"
  shows "decode_segment_file_bytes E k (segment_headers E h @ payload) =
     bind_r (header_validate E h payload) (\<lambda>_. Ok (h, payload))"
  using assms by (simp add: decode_segment_file_bytes_def length_segment_headers header_sizes Let_def)

lemma sealed_validate: "sealed E s f h payload \<Longrightarrow> header_validate E h payload = Ok ()"
  by (simp add: sealed_def shaped_def header_validate_def header_versions)

lemma read_sealed:
  "sealed E s f h payload \<Longrightarrow> kind h = k \<Longrightarrow> read_segment_file E f k s = (Ok (h, payload), s)"
  using sealed_validate [of E s f h payload]
  by (simp add: read_segment_file_def sealed_def shaped_def decode_segment_file_bytes_headers)

lemma read_bounded_sealed:
  "sealed E s f h payload \<Longrightarrow> kind h = k \<Longrightarrow> length payload + 96 \<le> m \<Longrightarrow>
     read_segment_file_bounded E f k m s = (Ok (h, payload), s)"
  using sealed_validate [of E s f h payload]
  by (simp add: read_segment_file_bounded_def sealed_def shaped_def decode_segment_file_bytes_headers
      length_segment_headers)

lemma read_header_shaped:
  "shaped E s f h payload \<Longrightarrow> kind h = k \<Longrightarrow> read_segment_header E f k s = (Ok h, s)"
  using decode_segment_headers [of h E "[]"]
  by (simp add: read_segment_header_def shaped_def length_segment_headers header_sizes)

lemma validate_segment_shape_shaped:
  "shaped E s f h payload \<Longrightarrow> kind h = k \<Longrightarrow> validate_segment_shape E f k s = (Ok h, s)"
  by (simp add: validate_segment_shape_def read_header_shaped)
    (simp add: shaped_def length_segment_headers segment_payload_offset_def header_sizes)

lemma write_segment_file_run:
  "write_segment_file E f k sid sq payload s =
     (Ok (), s\<lparr>files := (files s)(Tmp f := None,
                 f := Some (segment_headers E (header_new E k sid sq payload) @ payload)),
               append_file_cache := (append_file_cache s)(f := None)\<rparr>)"
  by (simp add: write_segment_file_def invalidate_append_file_def put_file_def rename_file_def)

lemma header_new_simps [simp]:
  "magic (header_new E k sid sq p) = STORAGE_LAYOUT_MAGIC"
  "version (header_new E k sid sq p) = STORAGE_LAYOUT_VERSION"
  "kind (header_new E k sid sq p) = k" "sequence (header_new E k sid sq p) = sq"
  "segment_id (header_new E k sid sq p) = sid"
  "payload_len (header_new E k sid sq p) = of_nat (length p)"
  "checksum (header_new E k sid sq p) = integrity32 E p"
  by (simp_all add: header_new_def)

lemma sealed_header_new:
  assumes "files s f = Some (segment_headers E (header_new E k sid sq p) @ p)" "length p + 96 < 2 ^ 64"
  shows "sealed E s f (header_new E k sid sq p) p"
  using assms by (simp add: sealed_def shaped_def)

section \<open>Correctness of appending\<close>

lemma concat_advance_parts: "concat (advance_parts n ps) = drop n (concat ps)"
  by (induction n ps rule: advance_parts.induct) auto

lemma advance_parts_nonempty: "[] \<notin> set ps \<Longrightarrow> [] \<notin> set (advance_parts n ps)"
  by (induction n ps rule: advance_parts.induct) auto

lemma write_parts_loop_complete:
  assumes "write_vectored_ok E" "[] \<notin> set parts"
  shows "write_parts_loop E parts out = (Ok (), out @ concat parts)"
  using assms
proof (induction E parts out rule: write_parts_loop.induct)
  case (1 E parts out)
  show ?case
  proof (cases parts)
    case Nil
    then show ?thesis by (simp add: write_parts_loop.simps)
  next
    case (Cons p ps)
    let ?n = "write_vectored E (map length parts)"
    have "0 < sum_list (map length parts)" using Cons "1.prems" by auto
    then have n: "0 < ?n" using "1.prems"(1) by (simp add: write_vectored_ok_def)
    have "write_parts_loop E (advance_parts ?n parts) (out @ take ?n (concat parts)) =
        (Ok (), (out @ take ?n (concat parts)) @ concat (advance_parts ?n parts))"
      using Cons n "1.prems" advance_parts_nonempty by (intro "1.IH") auto
    then show ?thesis
      using Cons n by (subst write_parts_loop.simps) (simp add: Let_def concat_advance_parts)
  qed
qed

lemma write_all_parts_complete:
  "write_vectored_ok E \<Longrightarrow> [] \<notin> set parts \<or> length parts = 1 \<Longrightarrow>
     write_all_parts E parts = (Ok (), concat parts)"
  by (auto simp: write_all_parts_def write_parts_loop_complete length_Suc_conv)

lemma write_at_end: "write_at (length buf) new buf = buf @ new"
  by (simp add: write_at_def)

lemma write_at_block:
  "length a = off \<Longrightarrow> length old = length new \<Longrightarrow> write_at off new (a @ old @ b) = a @ new @ b"
  by (simp add: write_at_def)

lemma write_segment_header_copies_at_run:
  assumes "files s f = Some (segment_headers E h @ payload)"
    and "version h = STORAGE_LAYOUT_VERSION" "version h' = STORAGE_LAYOUT_VERSION"
  shows "write_segment_header_copies_at E f h' s =
    (Ok (), files_update (\<lambda>m. m(f := Some (segment_headers E h' @ payload))) s)"
proof -
  let ?c = "encode_v2_header_copy E h" and ?c' = "encode_v2_header_copy E h'"
  have "write_at 48 ?c' (?c @ ?c @ payload) = ?c @ ?c' @ payload"
    by (rule write_at_block) simp_all
  moreover have "write_at 0 ?c' (?c @ ?c' @ payload) = ?c' @ ?c' @ payload"
    using write_at_block [of "[]" 0 ?c ?c' "?c' @ payload"] by simp
  ultimately show ?thesis using assms
    by (simp add: write_segment_header_copies_at_def write_file_at_def segment_headers_def header_sizes
        comp_def fun_upd_def cong: if_cong)
qed

text \<open>The cache entry of a file agrees with the bytes of the file.\<close>

definition append_cache_ok :: "externs \<Rightarrow> 'z segment_store_scheme \<Rightarrow> layout_file \<Rightarrow> bool" where
  "append_cache_ok E s f \<longleftrightarrow>
     (\<forall>st. append_file_cache s f = Some st \<longrightarrow>
        (\<exists>payload. shaped E s f (af_header st) payload \<and> af_payload_offset st = 96 \<and>
           af_append_offset st = of_nat (96 + length payload) \<and>
           (\<forall>pre. af_checked_prefix st = Some pre \<longrightarrow> prefix pre payload)))"

definition entry_for :: "externs \<Rightarrow> 'z segment_store_scheme \<Rightarrow> layout_file \<Rightarrow> SegmentHeader \<Rightarrow> bytes \<Rightarrow> AppendFileState \<Rightarrow> bool" where
  "entry_for E s f h payload st \<longleftrightarrow>
     shaped E s f h payload \<and> af_header st = h \<and> af_payload_offset st = 96 \<and>
     af_append_offset st = of_nat (96 + length payload) \<and>
     (\<forall>pre. af_checked_prefix st = Some pre \<longrightarrow> prefix pre payload)"

lemma shaped_unique:
  assumes "shaped E s f h payload" "shaped E s f h' payload'"
  shows "h' = h \<and> payload' = payload"
proof -
  have eq: "segment_headers E h @ payload = segment_headers E h' @ payload'"
    using assms by (simp add: shaped_def)
  have "Ok (h, 96) = (Ok (h', 96) :: (StorageError, SegmentHeader \<times> u64) result)"
    using decode_segment_headers [of h E payload] decode_segment_headers [of h' E payload'] eq assms
    by (simp add: shaped_def)
  then show ?thesis using eq by simp
qed

lemma entry_of_cache:
  "append_cache_ok E s f \<Longrightarrow> append_file_cache s f = Some st \<Longrightarrow> shaped E s f h payload \<Longrightarrow>
     entry_for E s f h payload st"
  unfolding append_cache_ok_def entry_for_def by (blast dest: shaped_unique)

text \<open>What an operation on one segment leaves alone.\<close>

definition others_same :: "layout_file \<Rightarrow> 'z segment_store_scheme \<Rightarrow> 'z segment_store_scheme \<Rightarrow> bool" where
  "others_same f s s' \<longleftrightarrow>
     (\<forall>g. g \<noteq> f \<and> g \<noteq> Tmp f \<longrightarrow> files s' g = files s g) \<and>
     (\<forall>g. g \<noteq> f \<longrightarrow> append_file_cache s' g = append_file_cache s g)"

definition frame :: "layout_file \<Rightarrow> 'z segment_store_scheme \<Rightarrow> 'z segment_store_scheme \<Rightarrow> bool" where
  "frame f s s' \<longleftrightarrow> others_same f s s' \<and> segment_store.more s' = segment_store.more s"

lemma others_same_refl [simp]: "others_same f s s"
  by (simp add: others_same_def)

lemma others_same_trans: "others_same f s s' \<Longrightarrow> others_same f s' s'' \<Longrightarrow> others_same f s s''"
  by (auto simp: others_same_def)

lemma frame_trans: "frame f s s' \<Longrightarrow> frame f s' s'' \<Longrightarrow> frame f s s''"
  by (auto simp: frame_def intro: others_same_trans)

lemma frame_others: "frame f s s' \<Longrightarrow> others_same f s s'"
  by (simp add: frame_def)

lemma check_append_prefix_run:
  assumes "entry_for E s f h payload st" "prefix pre payload"
  shows "\<exists>st' s'. check_append_prefix f pre st s = (Ok st', s') \<and> entry_for E s' f h payload st' \<and>
           frame f s s'"
proof (cases "af_checked_prefix st = Some pre")
  case True
  with assms show ?thesis by (auto simp: check_append_prefix_def frame_def others_same_def)
next
  case False
  have sh: "files s f = Some (segment_headers E h @ payload)" "length (segment_headers E h) = 96"
    using assms by (auto simp: entry_for_def shaped_def length_segment_headers)
  have "slice 96 (length pre) (segment_headers E h @ payload) = pre"
    using assms(2) sh(2) by (auto simp: prefix_def)
  with False assms sh show ?thesis
    by (auto simp: check_append_prefix_def set_append_state_def entry_for_def shaped_def Let_def frame_def others_same_def)
qed

text \<open>The header an in-place append writes.\<close>

definition appended_header :: "externs \<Rightarrow> bool \<Rightarrow> SegmentHeader \<Rightarrow> bytes list \<Rightarrow> SegmentHeader" where
  "appended_header E checksum_enabled h parts =
     h\<lparr>sequence := saturating_add (sequence h) 1,
       payload_len := saturating_add (payload_len h) (of_nat (length (concat parts))),
       checksum := append_checksum E checksum_enabled h parts\<rparr>"

lemma saturating_add_of_nat:
  "m + n < 2 ^ 64 \<Longrightarrow> saturating_add (of_nat m) (of_nat n) = (of_nat (m + n) :: u64)"
  by (simp add: saturating_add_def unat_of_nat_small)

lemma append_in_place_run:
  assumes entry: "entry_for E s f h payload st" and "prefix pre payload"
    and parts: "write_all_parts E parts = (Ok (), concat parts)"
    and len: "length payload + length (concat parts) + 96 < 2 ^ 64"
  shows "\<exists>s'. append_in_place E f pre parts en st s = (Ok (appended_header E en h parts), s') \<and>
     shaped E s' f (appended_header E en h parts) (payload @ concat parts) \<and>
     append_cache_ok E s' f \<and> frame f s s'"
proof -
  let ?h' = "appended_header E en h parts" and ?n = "length (concat parts)"
  obtain st1 s1 where run1: "check_append_prefix f pre st s = (Ok st1, s1)"
    and e1: "entry_for E s1 f h payload st1" and fr1: "frame f s s1"
    using check_append_prefix_run [OF entry assms(2)] by blast
  let ?st' = "st1\<lparr>af_header := ?h', af_append_offset := saturating_add (af_append_offset st1) (of_nat ?n)\<rparr>"
  let ?s2 = "append_file_cache_update (\<lambda>c. c(f := Some ?st'))
      (files_update (\<lambda>m. m(f := map_option (write_at (unat (af_append_offset st1)) (concat parts)) (m f))) s1)"
  have off: "unat (af_append_offset st1) = length (segment_headers E h @ payload)"
    using e1 len unat_of_nat_small [where 'a=64, of "96 + length payload"]
    by (simp add: entry_for_def shaped_def length_segment_headers)
  have "files s1 f = Some (segment_headers E h @ payload)"
    using e1 by (simp add: entry_for_def shaped_def)
  then have f2: "files ?s2 f = Some (segment_headers E h @ payload @ concat parts)"
    using write_at_end [of "segment_headers E h @ payload" "concat parts"] by (simp add: off)
  have v: "version h = STORAGE_LAYOUT_VERSION" "version ?h' = STORAGE_LAYOUT_VERSION"
    using e1 by (simp_all add: entry_for_def shaped_def appended_header_def)
  let ?s3 = "files_update (\<lambda>m. m(f := Some (segment_headers E ?h' @ payload @ concat parts))) ?s2"
  have "append_in_place E f pre parts en st s = (Ok ?h', ?s3)"
    using run1 e1 parts write_segment_header_copies_at_run [OF f2 v]
    by (simp add: append_in_place_def Let_def write_file_at_def set_append_state_def
        appended_header_def entry_for_def)
  moreover have sh3: "shaped E ?s3 f ?h' (payload @ concat parts)"
    using e1 len by (simp add: shaped_def entry_for_def appended_header_def saturating_add_of_nat)
  moreover have "append_cache_ok E ?s3 f"
  proof -
    have "saturating_add (af_append_offset st1) (of_nat ?n) = of_nat (96 + length (payload @ concat parts))"
      using e1 len saturating_add_of_nat [of "96 + length payload" ?n] by (simp add: entry_for_def)
    then show ?thesis using sh3 e1 unfolding append_cache_ok_def
      by (auto simp: entry_for_def intro!: exI [of _ "payload @ concat parts"])
  qed
  moreover have "frame f s ?s3" using fr1 by (auto simp: frame_def others_same_def)
  ultimately show ?thesis by blast
qed

text \<open>
  Appending to a segment of the right kind: the payload grows by the appended
  bytes (an empty segment is rewritten with the expected prefix in front), the
  header describes the new payload, the cache stays coherent.
\<close>

definition appended_payload :: "bytes \<Rightarrow> bytes \<Rightarrow> bytes list \<Rightarrow> bytes" where
  "appended_payload pre payload parts = (if payload = [] then pre @ concat parts else payload @ concat parts)"

lemma unat_payload_len: "shaped E s f h payload \<Longrightarrow> unat (payload_len h) = length payload"
  by (simp add: shaped_def unat_of_nat_small)

lemma append_segment_run:
  assumes sh: "shaped E s f h payload" and k: "kind h = k" and cache: "append_cache_ok E s f"
    and pre: "payload = [] \<or> prefix pre payload"
    and parts: "write_all_parts E parts = (Ok (), concat parts)" "concat parts \<noteq> []"
    and len: "length pre + length payload + length (concat parts) + 96 < 2 ^ 64"
  shows "\<exists>h' s'. append_segment_payload_parts E f k sid pre parts en s = (Ok h', s') \<and>
     shaped E s' f h' (appended_payload pre payload parts) \<and> kind h' = k \<and>
     append_cache_ok E s' f \<and> frame f s s' \<and>
     checksum h' = (if payload = [] then integrity32 E (pre @ concat parts)
                    else append_checksum E en h parts)"
proof -
  let ?st0 = "\<lparr>af_header = h, af_payload_offset = 96, af_checked_prefix = None,
               af_append_offset = 96 + payload_len h\<rparr>"
  define st where "st = (case append_file_cache s f of Some st \<Rightarrow> st | None \<Rightarrow> ?st0)"
  define s1 where "s1 = (case append_file_cache s f of Some _ \<Rightarrow> s
      | None \<Rightarrow> append_file_cache_update (\<lambda>c. c(f := Some ?st0)) s)"
  have entry: "entry_for E s1 f h payload st"
  proof (cases "append_file_cache s f")
    case None
    with sh show ?thesis by (simp add: st_def s1_def entry_for_def shaped_def)
  next
    case (Some c)
    with entry_of_cache [OF cache Some sh] show ?thesis by (simp add: st_def s1_def)
  qed
  have fr: "frame f s s1" by (auto simp: s1_def frame_def others_same_def split: option.splits)
  let ?rw = "\<lambda>sq. bind_s (write_segment_file E f k sid sq (pre @ concat parts)) (\<lambda>_. read_segment_header E f k)"
  have run: "append_segment_payload_parts E f k sid pre parts en s =
      (if payload = [] then ?rw (saturating_add (sequence h) 1) s1
       else append_in_place E f pre parts en st s1)"
  proof -
    have hdr: "decode_segment_header_set E (take 96 (segment_headers E h @ payload)) = Ok (h, 96)"
      using sh decode_segment_headers [of h E "[]"] by (simp add: shaped_def length_segment_headers)
    have "payload_len h = 0 \<longleftrightarrow> payload = []"
      using unat_payload_len [OF sh] by (metis length_0_conv unat_eq_zero)
    moreover have "af_header st = h" using entry by (simp add: entry_for_def)
    moreover have "files s f = Some (segment_headers E h @ payload)" using sh by (simp add: shaped_def)
    ultimately show ?thesis using parts(2) k hdr
      by (auto simp: append_segment_payload_parts_def st_def s1_def header_sizes Let_def
          set_append_state_def split: option.splits)
  qed
  show ?thesis
  proof (cases "payload = []")
    case True
    let ?h = "header_new E k sid (saturating_add (sequence h) 1) (pre @ concat parts)"
    let ?s = "s1\<lparr>files := (files s1)(Tmp f := None, f := Some (segment_headers E ?h @ pre @ concat parts)),
               append_file_cache := (append_file_cache s1)(f := None)\<rparr>"
    have "shaped E ?s f ?h (pre @ concat parts)" using len by (simp add: shaped_def)
    moreover have "append_segment_payload_parts E f k sid pre parts en s = (Ok ?h, ?s)"
      using True run read_header_shaped [OF calculation] by (simp add: write_segment_file_run)
    moreover have "append_cache_ok E ?s f" by (simp add: append_cache_ok_def)
    moreover have "frame f s ?s" using fr by (auto simp: frame_def others_same_def)
    ultimately show ?thesis using True
      by (intro exI [of _ ?h] exI [of _ ?s]) (simp add: appended_payload_def)
  next
    case False
    with pre have "prefix pre payload" by simp
    moreover have "length payload + length (concat parts) + 96 < 2 ^ 64" using len by linarith
    ultimately obtain s' where "append_in_place E f pre parts en st s1 = (Ok (appended_header E en h parts), s')"
      "shaped E s' f (appended_header E en h parts) (payload @ concat parts)"
      "append_cache_ok E s' f" "frame f s1 s'"
      using append_in_place_run [OF entry _ parts(1), of pre en] by blast
    moreover from this have "frame f s s'" using fr by (blast intro: frame_trans)
    ultimately show ?thesis using False run k
      by (intro exI [of _ "appended_header E en h parts"] exI [of _ s'])
        (simp add: appended_payload_def appended_header_def)
  qed
qed

text \<open>With the running checksum switched on and not zero, a sealed segment stays sealed.\<close>

lemma foldl_integrity32:
  "crc_ok E \<Longrightarrow> foldl (integrity32_continue E) (integrity32 E payload) parts = integrity32 E (payload @ concat parts)"
proof (induction parts arbitrary: payload)
  case (Cons p ps)
  then show ?case by (simp flip: integrity32_append)
qed simp

lemma append_sealed:
  assumes se: "sealed E s f h payload" and k: "kind h = k" and cache: "append_cache_ok E s f"
    and pre: "payload = [] \<or> prefix pre payload \<and> integrity32 E payload \<noteq> 0"
    and parts: "write_all_parts E parts = (Ok (), concat parts)" "concat parts \<noteq> []"
    and len: "length pre + length payload + length (concat parts) + 96 < 2 ^ 64" and crc: "crc_ok E"
  shows "\<exists>h' s'. append_segment_payload_parts E f k sid pre parts True s = (Ok h', s') \<and>
     sealed E s' f h' (appended_payload pre payload parts) \<and> kind h' = k \<and>
     append_cache_ok E s' f \<and> frame f s s'"
proof -
  from se have sh: "shaped E s f h payload" and v: "version h = STORAGE_LAYOUT_VERSION"
    and sum: "checksum h = integrity32 E payload" by (auto simp: sealed_def shaped_def)
  have "payload \<noteq> [] \<Longrightarrow> append_checksum E True h parts = integrity32 E (payload @ concat parts)"
    using pre crc sum v by (simp add: append_checksum_def foldl_integrity32 cong: foldl_cong)
  moreover have "payload = [] \<or> prefix pre payload" using pre by blast
  ultimately show ?thesis using append_segment_run [OF sh k cache _ parts len, of sid True]
    by (auto simp: sealed_def appended_payload_def)
qed

section \<open>Properties\<close>

text \<open>
  C10: A gathering write puts every byte of its parts into the file, in order,
  however short the individual kernel writes are.
\<close>

theorem gathering_write_complete:
  assumes "write_vectored_ok E" "[] \<notin> set parts"
  shows "write_all_parts E parts = (Ok (), concat parts)"
  using assms by (simp add: write_all_parts_complete)

theorem gathering_write_complete_witness:
  "write_all_parts (plain_externs\<lparr>write_vectored := \<lambda>ls. min 2 (sum_list ls)\<rparr>) [[1, 2, 3], [4], [5, 6]] =
     (Ok (), [1, 2, 3, 4, 5, 6])"
proof -
  let ?E = "plain_externs\<lparr>write_vectored := \<lambda>ls. min 2 (sum_list ls)\<rparr>"
  have "write_vectored_ok ?E" by (simp add: write_vectored_ok_def)
  from gathering_write_complete [OF this, of "[[1, 2, 3], [4], [5, 6]]"] show ?thesis by simp
qed

text \<open>
  C11: A segment that was written as a whole is read back with its payload, its
  identifier and its sequence number; reading it as another kind is refused;
  no other file changes and no temporary file stays behind.
\<close>

theorem segment_file_roundtrip:
  assumes "length payload + 96 < 2 ^ 64" "write_segment_file E f k sid sq payload s = (res, s')"
  shows "res = Ok () \<and>
     (\<exists>h. read_segment_file E f k s' = (Ok (h, payload), s') \<and> segment_id h = sid \<and> sequence h = sq) \<and>
     (\<forall>k'. k' \<noteq> k \<longrightarrow> read_segment_file E f k' s' = (Err (Corrupt ''segment kind mismatch''), s')) \<and>
     files s' (Tmp f) = None \<and> (\<forall>g. g \<noteq> f \<and> g \<noteq> Tmp f \<longrightarrow> files s' g = files s g)"
proof -
  let ?h = "header_new E k sid sq payload"
  have s': "res = Ok ()" "s' = s\<lparr>files := (files s)(Tmp f := None, f := Some (segment_headers E ?h @ payload)),
      append_file_cache := (append_file_cache s)(f := None)\<rparr>"
    using assms(2) by (simp_all add: write_segment_file_run)
  have se: "sealed E s' f ?h payload" using assms(1) s' by (intro sealed_header_new) auto
  have "read_segment_file E f k' s' = (Err (Corrupt ''segment kind mismatch''), s')" if "k' \<noteq> k" for k'
    using that s' by (simp add: read_segment_file_def decode_segment_file_bytes_def length_segment_headers header_sizes)
  then show ?thesis using read_sealed [OF se] s' by (auto intro!: exI [of _ ?h] simp: neq_commute)
qed

definition empty_segment_store :: segment_store where
  "empty_segment_store = \<lparr>files = \<lambda>_. None, append_file_cache = \<lambda>_. None\<rparr>"

theorem segment_file_roundtrip_witness:
  "\<exists>s'. write_segment_file plain_externs Blk_Map_File KBlkMap 2 1 [1, 2] empty_segment_store = (Ok (), s') \<and>
     (\<exists>h. read_segment_file plain_externs Blk_Map_File KBlkMap s' = (Ok (h, [1, 2]), s'))"
proof -
  obtain res s' where run:
    "write_segment_file plain_externs Blk_Map_File KBlkMap 2 1 [1, 2] empty_segment_store = (res, s')"
    by (metis surj_pair)
  from segment_file_roundtrip [OF _ this] run show ?thesis by auto
qed

text \<open>
  C7: Appending to a sealed segment whose running checksum is not zero succeeds,
  and reading the segment afterwards gives the old payload followed by the
  appended bytes (an empty segment starts with the expected prefix).  The file
  stays sealed and the cache of open files stays coherent with it.
\<close>

theorem append_then_read:
  assumes "sealed E s f h payload" "kind h = k" "append_cache_ok E s f"
    and "payload = [] \<or> prefix pre payload \<and> integrity32 E payload \<noteq> 0"
    and "[] \<notin> set parts" "parts \<noteq> []" "write_vectored_ok E" "crc_ok E"
    and "length pre + length payload + length (concat parts) + 96 < 2 ^ 64"
  shows "\<exists>h' s'. append_segment_payload_parts E f k sid pre parts True s = (Ok h', s') \<and>
     read_segment_file E f k s' =
       (Ok (h', (if payload = [] then pre else payload) @ concat parts), s') \<and>
     sealed E s' f h' ((if payload = [] then pre else payload) @ concat parts) \<and>
     append_cache_ok E s' f \<and> frame f s s'"
proof -
  have "write_all_parts E parts = (Ok (), concat parts)" using assms by (simp add: write_all_parts_complete)
  moreover have "concat parts \<noteq> []" using assms(5,6) by (cases parts) auto
  ultimately obtain h' s' where "append_segment_payload_parts E f k sid pre parts True s = (Ok h', s')"
    "sealed E s' f h' (appended_payload pre payload parts)" "kind h' = k" "append_cache_ok E s' f" "frame f s s'"
    using append_sealed [OF assms(1-4) _ _ assms(9,8), of sid] by blast
  moreover from this have "read_segment_file E f k s' = (Ok (h', appended_payload pre payload parts), s')"
    by (simp add: read_sealed)
  ultimately show ?thesis by (cases "payload = []") (auto simp: appended_payload_def)
qed

definition sample_segment_store :: "bytes \<Rightarrow> segment_store" where
  "sample_segment_store p = empty_segment_store\<lparr>files := (\<lambda>_. None)(Lookup_File :=
     Some (segment_headers plain_externs (header_new plain_externs KLookup 3 1 p) @ p))\<rparr>"

lemma sample_segment_sealed:
  "length p + 96 < 2 ^ 64 \<Longrightarrow> sealed plain_externs (sample_segment_store p) Lookup_File (header_new plain_externs KLookup 3 1 p) p"
  by (rule sealed_header_new) (simp_all add: sample_segment_store_def)

lemma sample_segment_cache: "append_cache_ok E (sample_segment_store p) f"
  by (simp add: append_cache_ok_def sample_segment_store_def empty_segment_store_def)

theorem append_then_read_witness:
  "\<exists>h' s'. append_segment_payload_parts plain_externs Lookup_File KLookup 3 [7] [[1, 2], [3]] True
       (sample_segment_store [7, 8]) = (Ok h', s') \<and>
     read_segment_file plain_externs Lookup_File KLookup s' = (Ok (h', [7, 8, 1, 2, 3]), s')"
proof -
  have "integrity32 plain_externs [7, 8] \<noteq> 0" by (simp add: integrity32_def plain_externs_def)
  with append_then_read [OF sample_segment_sealed [of "[7, 8]"] _ sample_segment_cache, of KLookup "[7]" "[[1, 2], [3]]" 3]
  show ?thesis using plain_externs_ok by auto
qed





text \<open>
  C18: The append treats a stored checksum of zero as \<^emph>\<open>checksum disabled\<close> and
  writes zero again, but a format 2 segment is always validated against its
  checksum.  So when the payload of a sealed segment happens to have checksum
  zero, the next append succeeds and the segment can no longer be read unless
  the new checksum is zero too.
\<close>

theorem zero_checksum_append_unreadable:
  assumes "sealed E s f h payload" "kind h = k" "append_cache_ok E s f"
    and "payload \<noteq> []" "prefix pre payload" "integrity32 E payload = 0"
    and "[] \<notin> set parts" "parts \<noteq> []" "write_vectored_ok E"
    and "integrity32 E (payload @ concat parts) \<noteq> 0"
    and "length pre + length payload + length (concat parts) + 96 < 2 ^ 64"
  shows "\<exists>h' s'. append_segment_payload_parts E f k sid pre parts en s = (Ok h', s') \<and>
     read_segment_file E f k s' = (Err (Corrupt ''payload checksum mismatch''), s')"
proof -
  have sh: "shaped E s f h payload" and z: "checksum h = 0" using assms(1,6) by (auto simp: sealed_def)
  have "write_all_parts E parts = (Ok (), concat parts)" using assms(7-9) by (simp add: write_all_parts_complete)
  moreover have "concat parts \<noteq> []" using assms(7,8) by (cases parts) auto
  note run = append_segment_run [OF sh assms(2,3) _ calculation this assms(11), of sid en]
  from run assms(4,5)
  obtain h' s' where run: "append_segment_payload_parts E f k sid pre parts en s = (Ok h', s')"
    and sh': "shaped E s' f h' (payload @ concat parts)" "kind h' = k"
    and sum: "checksum h' = append_checksum E en h parts"
    by (auto simp: appended_payload_def)
  have "checksum h' = 0" using sum z by (simp add: append_checksum_def)
  then have "header_validate E h' (payload @ concat parts) = Err (Corrupt ''payload checksum mismatch'')"
    using sh'(1) assms(10) by (simp add: header_validate_def shaped_def header_versions)
  then have "read_segment_file E f k s' = (Err (Corrupt ''payload checksum mismatch''), s')"
    using sh' by (simp add: read_segment_file_def shaped_def decode_segment_file_bytes_headers)
  with run show ?thesis by blast
qed

theorem zero_checksum_append_unreadable_witness:
  "\<exists>h' s'. append_segment_payload_parts plain_externs Lookup_File KLookup 3 [0] [[1]] True
       (sample_segment_store [0, 0]) = (Ok h', s') \<and>
     read_segment_file plain_externs Lookup_File KLookup s' = (Err (Corrupt ''payload checksum mismatch''), s')"
proof -
  have "integrity32 plain_externs [0, 0] = 0" "integrity32 plain_externs [0, 0, 1] \<noteq> 0"
    by (simp_all add: integrity32_def plain_externs_def)
  with zero_checksum_append_unreadable [OF sample_segment_sealed [of "[0, 0]"] _ sample_segment_cache,
      of KLookup "[0]" "[[1]]" 3 True]
  show ?thesis using plain_externs_ok by auto
qed

end
