(* ===== verification/Record_Log.thy ===== *)
theory Record_Log
  imports Segment "HOL-Library.AList"
begin

text \<open>
  The metadata segments hold logs of fixed-size records in which the last
  record of an identifier wins.  This theory has what the block map, the
  lookup table, the deduplication index and the segment index share: cutting a
  payload into records, the \<^verbatim>\<open>HashMap\<close> of the latest record per identifier
  and its values in hash order, and the contract of a record codec with the
  round trip of a whole log that follows from it.
\<close>

section \<open>Cutting a payload into records\<close>

fun chunks :: "nat \<Rightarrow> 'a list \<Rightarrow> 'a list list" where
  "chunks n xs = (if n = 0 \<or> xs = [] then [] else take n xs # chunks n (drop n xs))"

declare chunks.simps [simp del]

lemma chunks_Nil [simp]: "chunks n [] = []"
  by (simp add: chunks.simps)

lemma chunks_append:
  assumes "0 < n" "length x = n"
  shows "chunks n (x @ xs) = x # chunks n xs"
  using assms by (subst chunks.simps) auto

lemma chunks_concat:
  "0 < n \<Longrightarrow> (\<And>x. x \<in> set xs \<Longrightarrow> length x = n) \<Longrightarrow> chunks n (concat xs) = xs"
  by (induction xs) (simp_all add: chunks_append)

lemma chunks_append_dvd:
  "0 < n \<Longrightarrow> n dvd length xs \<Longrightarrow> chunks n (xs @ ys) = chunks n xs @ chunks n ys"
proof (induction n xs rule: chunks.induct)
  case (1 n xs)
  show ?case
  proof (cases "xs = []")
    case False
    then have le: "n \<le> length xs" using 1 by (auto intro: dvd_imp_le)
    then have "n dvd length (drop n xs)" using 1 by (simp add: dvd_diff_nat)
    then have "chunks n (drop n xs @ ys) = chunks n (drop n xs) @ chunks n ys" using 1 False by simp
    moreover have "chunks n (xs @ ys) = take n xs # chunks n (drop n xs @ ys)"
      using False 1 le chunks_append [of n "take n xs" "drop n xs @ ys"] by (simp flip: append.assoc)
    moreover have "chunks n xs = take n xs # chunks n (drop n xs)"
      using False 1 by (subst chunks.simps) simp
    ultimately show ?thesis by simp
  qed simp
qed

lemma length_chunks: "0 < n \<Longrightarrow> n dvd length xs \<Longrightarrow> length (chunks n xs) = length xs div n"
proof (induction n xs rule: chunks.induct)
  case (1 n xs)
  show ?case
  proof (cases "xs = []")
    case False
    then have le: "n \<le> length xs" using 1 by (auto intro: dvd_imp_le)
    moreover have "n dvd length (drop n xs)" using 1 le by (simp add: dvd_diff_nat)
    ultimately show ?thesis using 1 False
      by (subst chunks.simps) (simp add: le_div_geq)
  qed simp
qed

section \<open>The latest record of each identifier\<close>

definition latest_by :: "('r \<Rightarrow> u64) \<Rightarrow> 'r list \<Rightarrow> (u64 \<times> 'r) list" where
  "latest_by key rs = foldl (\<lambda>m r. AList.update (key r) r m) [] rs"

definition hash_values :: "externs \<Rightarrow> (u64 \<times> 'r) list \<Rightarrow> 'r list" where
  "hash_values E m = map (\<lambda>k. the (map_of m k)) (hash_order E (map fst m))"

definition latest_values :: "externs \<Rightarrow> ('r \<Rightarrow> u64) \<Rightarrow> 'r list \<Rightarrow> 'r list" where
  "latest_values E key rs = hash_values E (latest_by key rs)"

lemma latest_by_snoc [simp]: "latest_by key (rs @ [r]) = AList.update (key r) r (latest_by key rs)"
  by (simp add: latest_by_def)

lemma latest_by_Nil [simp]: "latest_by key [] = []"
  by (simp add: latest_by_def)

lemma distinct_latest_by: "distinct (map fst (latest_by key rs))"
  by (induction rs rule: rev_induct) (simp_all add: distinct_update)

lemma map_of_latest_by: "map_of (latest_by key rs) k = find (\<lambda>r. key r = k) (rev rs)"
  by (induction rs rule: rev_induct) (auto simp: update_conv')

lemma keys_latest_by: "fst ` set (latest_by key rs) = key ` set rs"
proof -
  have "fst ` set (latest_by key rs) = {k. find (\<lambda>r. key r = k) (rev rs) \<noteq> None}"
    by (simp add: dom_def map_of_latest_by flip: dom_map_of_conv_image_fst)
  also have "\<dots> = key ` set rs" by (auto simp: find_None_iff)
  finally show ?thesis .
qed

lemma latest_by_key:
  assumes "(k, r) \<in> set (latest_by key rs)"
  shows "key r = k"
proof -
  have "map_of (latest_by key rs) k = Some r" using assms distinct_latest_by [of key rs] by simp
  then show ?thesis by (auto simp: map_of_latest_by find_Some_iff)
qed

lemma hash_values_perm:
  assumes "hash_order_ok E" "distinct (map fst m)"
  shows "mset (hash_values E m) = mset (map snd m)"
proof -
  have "mset (hash_values E m) = image_mset (\<lambda>k. the (map_of m k)) (mset (map fst m))"
    using assms(1) by (simp add: hash_values_def hash_order_ok_def)
  also have "\<dots> = mset (map (\<lambda>p. the (map_of m (fst p))) m)"
    by (simp add: multiset.map_comp comp_def)
  also have "map (\<lambda>p. the (map_of m (fst p))) m = map snd m"
    using assms(2) by (auto intro!: map_cong)
  finally show ?thesis .
qed

text \<open>Records with distinct identifiers are their own latest records.\<close>

lemma AList_update_fresh: "k \<notin> fst ` set m \<Longrightarrow> AList.update k v m = m @ [(k, v)]"
  by (induction m) auto

lemma latest_by_distinct:
  "distinct (map key rs) \<Longrightarrow> latest_by key rs = map (\<lambda>r. (key r, r)) rs"
  by (induction rs rule: rev_induct) (auto simp: AList_update_fresh image_image)

lemma mset_latest_values_distinct:
  "hash_order_ok E \<Longrightarrow> distinct (map key rs) \<Longrightarrow> mset (latest_values E key rs) = mset rs"
  by (simp add: latest_values_def hash_values_perm distinct_latest_by)
    (simp add: latest_by_distinct multiset.map_comp comp_def)

lemma mset_latest_values_snoc:
  assumes "hash_order_ok E" "key r \<notin> key ` set rs"
  shows "mset (latest_values E key (rs @ [r])) = add_mset r (mset (latest_values E key rs))"
proof -
  have "key r \<notin> fst ` set (latest_by key rs)" using assms(2) by (simp add: keys_latest_by)
  then have "latest_by key (rs @ [r]) = latest_by key rs @ [(key r, r)]" by (simp add: AList_update_fresh)
  moreover have "distinct (map fst (latest_by key (rs @ [r])))" by (rule distinct_latest_by)
  ultimately show ?thesis using assms(1)
    by (simp add: latest_values_def hash_values_perm distinct_latest_by)
qed

lemma set_latest_values:
  assumes "hash_order_ok E"
  shows "r \<in> set (latest_values E key rs) \<longleftrightarrow> find (\<lambda>x. key x = key r) (rev rs) = Some r"
proof -
  have "set (latest_values E key rs) = snd ` set (latest_by key rs)"
    using hash_values_perm [OF assms distinct_latest_by] by (metis latest_values_def set_map set_mset_mset)
  also have "r \<in> \<dots> \<longleftrightarrow> (key r, r) \<in> set (latest_by key rs)"
  proof
    assume "r \<in> snd ` set (latest_by key rs)"
    then obtain k where "(k, r) \<in> set (latest_by key rs)" by auto
    then show "(key r, r) \<in> set (latest_by key rs)" by (simp add: latest_by_key [of k r])
  qed (auto intro: rev_image_eqI)
  also have "\<dots> \<longleftrightarrow> map_of (latest_by key rs) (key r) = Some r"
    using distinct_latest_by [of key rs] by simp
  finally show ?thesis by (simp add: map_of_latest_by)
qed

lemma distinct_keys_latest_values:
  assumes "hash_order_ok E"
  shows "distinct (map key (latest_values E key rs))"
proof -
  have "mset (map key (latest_values E key rs)) = mset (map key (map snd (latest_by key rs)))"
    by (simp add: latest_values_def hash_values_perm [OF assms distinct_latest_by] multiset.map_comp)
  also have "map key (map snd (latest_by key rs)) = map fst (latest_by key rs)"
    by (auto dest: latest_by_key)
  finally show ?thesis by (metis distinct_latest_by mset_eq_imp_distinct_iff)
qed

lemma map_snd_update:
  "distinct (map fst m) \<Longrightarrow> k \<in> fst ` set m \<Longrightarrow>
     map snd (AList.update k v m) = map (\<lambda>(k', r). if k' = k then v else r) m"
proof (induction m)
  case (Cons p m)
  obtain k' r where p: "p = (k', r)" by (cases p)
  have "k' = k \<Longrightarrow> map (\<lambda>(k', r). if k' = k then v else r) m = map snd m"
    using Cons.prems p by (auto intro!: map_cong) (force simp: image_iff)
  then show ?case using Cons p by auto
qed simp

text \<open>A further record of a known identifier replaces the latest one.\<close>

lemma mset_latest_values_update:
  assumes "hash_order_ok E" "key u \<in> key ` set rs"
  shows "mset (latest_values E key (rs @ [u])) =
    image_mset (\<lambda>r. if key r = key u then u else r) (mset (latest_values E key rs))"
proof -
  let ?m = "latest_by key rs"
  have "key u \<in> fst ` set ?m" using assms(2) by (simp add: keys_latest_by)
  then have "map snd (latest_by key (rs @ [u])) = map (\<lambda>(k', r). if k' = key u then u else r) ?m"
    by (simp add: map_snd_update [OF distinct_latest_by])
  also have "\<dots> = map (\<lambda>r. if key r = key u then u else r) (map snd ?m)"
    by (auto dest!: latest_by_key)
  finally have "mset (map snd (latest_by key (rs @ [u]))) =
      image_mset (\<lambda>r. if key r = key u then u else r) (mset (map snd ?m))"
    by (metis mset_map)
  then show ?thesis unfolding latest_values_def hash_values_perm [OF assms(1) distinct_latest_by] .
qed

lemma keys_latest_values:
  assumes "hash_order_ok E"
  shows "key ` set (latest_values E key rs) = key ` set rs"
proof -
  have "set (latest_values E key rs) = snd ` set (latest_by key rs)"
    using hash_values_perm [OF assms distinct_latest_by] by (metis latest_values_def set_map set_mset_mset)
  then have "key ` set (latest_values E key rs) = (\<lambda>p. key (snd p)) ` set (latest_by key rs)"
    by (simp add: image_image)
  also have "\<dots> = fst ` set (latest_by key rs)"
    by (rule image_cong) (auto dest: latest_by_key)
  finally show ?thesis by (simp add: keys_latest_by)
qed

section \<open>Fresh identifiers and sorted insertion\<close>

text \<open>
  The next identifier is one more than the largest one in use, and saturates;
  a record is inserted behind the records with the same or a smaller key.
\<close>

definition next_id :: "('r \<Rightarrow> u64) \<Rightarrow> 'r list \<Rightarrow> u64" where
  "next_id key rs = saturating_add (foldl max 0 (map key rs)) 1"

definition insert_by_key :: "('r \<Rightarrow> 'k::linorder) \<Rightarrow> 'r \<Rightarrow> 'r list \<Rightarrow> 'r list" where
  "insert_by_key key r rs =
     (if rs = [] \<or> key (last rs) \<le> key r then rs @ [r]
      else let i = partition_point (\<lambda>x. key x \<le> key r) rs in take i rs @ r # drop i rs)"

lemma foldl_max_ge: "(a :: 'a::linorder) \<le> foldl max a xs" "x \<in> set xs \<Longrightarrow> x \<le> foldl max a xs"
proof (induction xs arbitrary: a)
  case (Cons y ys)
  { case 1 show ?case using Cons.IH(1) [of "max a y"] by (simp add: max_def split: if_splits) }
  { case 2
    then show ?case using Cons.IH(1) [of "max a y"] Cons.IH(2) [of "max a y"]
      by (auto simp: max_def split: if_splits) }
qed simp_all

lemma foldl_max_Max: "foldl max a zs = Max (insert (a :: 'a::linorder) (set zs))"
proof (induction zs rule: rev_induct)
  case (snoc z zs)
  have "Max (insert z (insert a (set zs))) = max z (Max (insert a (set zs)))" by (rule Max_insert) simp_all
  then show ?case by (simp add: snoc.IH max.commute insert_commute del: Max_insert)
qed simp

lemma foldl_max_mset: "mset xs = mset ys \<Longrightarrow> foldl max a xs = foldl max (a :: 'a::linorder) ys"
  unfolding foldl_max_Max by (drule mset_eq_setD) simp

lemma sorted_le_last: "sorted (map f xs) \<Longrightarrow> x \<in> set xs \<Longrightarrow> f x \<le> f (last xs)"
  by (induction xs) auto

lemma mset_insert_at: "mset (take i xs @ x # drop i xs) = add_mset x (mset xs)"
proof -
  have "mset (take i xs) + mset (drop i xs) = mset xs" by (simp flip: mset_append)
  then show ?thesis by simp
qed

lemma next_id_mset: "mset rs = mset rs' \<Longrightarrow> next_id key rs = next_id key rs'"
  by (simp add: next_id_def foldl_max_mset [of "map key rs" "map key rs'"])

lemma next_id_fresh:
  assumes "next_id key rs \<noteq> - 1" "r \<in> set rs"
  shows "key r < next_id key rs"
proof -
  let ?m = "foldl max 0 (map key rs)"
  have "key r \<le> ?m" using assms(2) by (intro foldl_max_ge(2)) auto
  moreover have "unat (next_id key rs) = unat ?m + 1"
  proof -
    have "unat (next_id key rs) \<noteq> 2 ^ 64 - 1"
      using assms(1) unat_max [where 'a=64] by (simp add: word_unat_eq_iff)
    then show ?thesis unfolding next_id_def by (simp add: unat_saturating_add)
  qed
  ultimately show ?thesis by (simp add: word_le_nat_alt word_less_nat_alt)
qed

lemma next_id_snoc:
  assumes "checked_add (key r) 1 = Some n"
  shows "next_id key (rs @ [r]) = max (next_id key rs) n"
proof -
  have n: "unat n = unat (key r) + 1" using assms by (simp add: checked_add_Some)
  then have "unat (key r) + 1 < 2 ^ 64" using unat_bound [of n] by simp
  then have "saturating_add (key r) 1 = n" using n by (simp add: word_unat_eq_iff unat_saturating_add)
  moreover have "saturating_add (max a b) 1 = max (saturating_add a 1) (saturating_add b 1)" for a b :: u64
    using saturating_add_mono [of a b 1 1] saturating_add_mono [of b a 1 1] by (auto simp: max_def)
  ultimately show ?thesis by (simp add: next_id_def)
qed

lemma checked_succ_Some:
  assumes "(a :: u64) \<noteq> - 1"
  shows "checked_add a 1 = Some (a + 1)"
proof (cases "checked_add a 1")
  case None
  then have "unat a = 2 ^ 64 - 1" using unat_bound_le [of a] by (simp add: checked_add_None)
  then show ?thesis using assms unat_max [where 'a=64] by (simp add: word_unat_eq_iff)
next
  case (Some n)
  then have "unat n = unat a + 1" by (simp add: checked_add_Some)
  then have "of_nat (unat n) = (of_nat (unat a + 1) :: u64)" by (rule arg_cong)
  then have "n = a + 1" by simp
  with Some show ?thesis by simp
qed

lemma mset_insert_by_key: "mset (insert_by_key key r rs) = add_mset r (mset rs)"
  using mset_insert_at [of "partition_point (\<lambda>x. key x \<le> key r) rs" rs r] by (simp add: insert_by_key_def Let_def)

lemma sorted_insert_by_key:
  assumes "sorted (map key rs)"
  shows "sorted (map key (insert_by_key key r rs))"
proof (cases "rs = [] \<or> key (last rs) \<le> key r")
  case True
  then have "x \<in> set rs \<Longrightarrow> key x \<le> key r" for x
    using sorted_le_last [OF assms] by (fastforce intro: order_trans)
  with True assms show ?thesis by (auto simp: insert_by_key_def sorted_append)
next
  case False
  let ?i = "partition_point (\<lambda>x. key x \<le> key r) rs"
  have cut: "take ?i rs = filter (\<lambda>x. key x \<le> key r) rs" "drop ?i rs = filter (\<lambda>x. \<not> key x \<le> key r) rs"
    using takeWhile_sorted_key [OF assms, of "\<lambda>x. key x \<le> key r"]
    unfolding take_partition_point drop_partition_point by (auto intro: order_trans)
  have "sorted (map key (take ?i rs @ r # drop ?i rs))"
  proof (rule sorted_map_insert)
    show "sorted (map key (take ?i rs @ drop ?i rs))" using assms by simp
    show "\<forall>x\<in>set (take ?i rs). key x \<le> key r" by (auto simp: cut(1))
    show "\<forall>x\<in>set (drop ?i rs). key r \<le> key x" by (auto simp: cut(2))
  qed
  with False show ?thesis by (auto simp: insert_by_key_def Let_def)
qed

section \<open>The contract of a record codec\<close>

text \<open>
  A record type with a fixed-size encoding and a decoder that accepts what the
  encoder wrote, for the records the code constructs.  Given that, decoding
  the concatenation of encoded records gives them back in order.
\<close>

locale record_codec =
  fixes enc :: "'r \<Rightarrow> bytes" and dec :: "bytes \<Rightarrow> (StorageError, 'r) result"
    and size :: nat and wf :: "'r \<Rightarrow> bool"
  assumes size_pos: "0 < size"
    and enc_size: "length (enc r) = size"
    and dec_enc: "wf r \<Longrightarrow> dec (enc r) = Ok r"
begin

lemma length_concat_enc: "length (concat (map enc rs)) = size * length rs"
  by (induction rs) (simp_all add: enc_size)

lemma chunks_enc: "chunks size (concat (map enc rs)) = map enc rs"
  using size_pos by (intro chunks_concat) (auto simp: enc_size)

lemma decode_all: "list_all wf rs \<Longrightarrow> traverse dec (chunks size (concat (map enc rs))) = Ok rs"
  by (auto simp: chunks_enc list_all_iff intro!: traverse_map_Ok dec_enc)

lemma decode_append:
  assumes "size dvd length log" "traverse dec (chunks size log) = Ok rs" "list_all wf new"
  shows "traverse dec (chunks size (log @ concat (map enc new))) = Ok (rs @ new)"
proof -
  have "traverse dec (xs @ ys) = Ok (as @ bs)"
    if "traverse dec xs = Ok as" "traverse dec ys = Ok bs" for xs ys as bs
    using that by (simp add: traverse_Ok list_all2_appendI)
  then show ?thesis using assms size_pos decode_all by (simp add: chunks_append_dvd)
qed

end

end
