(* ===== verification/Metadata.thy ===== *)
theory Metadata
  imports Record_Log
begin

text \<open>
  The checkpoint page (\<^verbatim>\<open>storage/metadata.rs\<close>): one record with a checksum
  that says whether the metadata chain of a cartridge is clean or has writes
  that were not flushed, the ordered flush of the chain, and the metadata
  budget of the maintenance tools.
\<close>

section \<open>Checkpoint page\<close>

datatype CheckpointFlags = Clean | Dirty

definition flags_to_u8 :: "CheckpointFlags \<Rightarrow> u8" where
  "flags_to_u8 fl = (case fl of Clean \<Rightarrow> 1 | Dirty \<Rightarrow> 2)"

definition flags_from_u8 :: "u8 \<Rightarrow> (StorageError, CheckpointFlags) result" where
  "flags_from_u8 v =
     (if v = 1 then Ok Clean else if v = 2 then Ok Dirty else Err (Corrupt ''invalid checkpoint flags''))"

record MetadataCheckpoint =
  page_id :: u64
  epoch :: u64
  active_blk_map_root :: u64
  active_lookup_root :: u64
  flags :: CheckpointFlags

definition checkpoint_encode :: "MetadataCheckpoint \<Rightarrow> bytes" where
  "checkpoint_encode c =
     (let payload = to_le_bytes (page_id c) @ to_le_bytes (epoch c) @
                    to_le_bytes (active_blk_map_root c) @ to_le_bytes (active_lookup_root c) @
                    [flags_to_u8 (flags c)] @ replicate 7 0 in
      payload @ to_le_bytes (checksum32 payload))"

definition checkpoint_decode :: "bytes \<Rightarrow> (StorageError, MetadataCheckpoint) result" where
  "checkpoint_decode payload =
     (if length payload < 44 then Err (Corrupt ''metadata checkpoint payload too short'')
      else
        let page = take 40 payload in
        if from_le_bytes (slice 40 4 payload) \<noteq> checksum32 page
        then Err (Corrupt ''checkpoint checksum mismatch'')
        else bind_r (flags_from_u8 (byte_at 32 page)) (\<lambda>fl.
          Ok \<lparr>page_id = from_le_bytes (slice 0 8 page), epoch = from_le_bytes (slice 8 8 page),
              active_blk_map_root = from_le_bytes (slice 16 8 page),
              active_lookup_root = from_le_bytes (slice 24 8 page), flags = fl\<rparr>))"

definition persist_checkpoint_page ::
  "externs \<Rightarrow> layout_file \<Rightarrow> MetadataCheckpoint \<Rightarrow> ('z segment_store_scheme, StorageError, unit) stm" where
  "persist_checkpoint_page E f c =
     write_segment_file E f KMetadata (page_id c) (epoch c) (checkpoint_encode c)"

definition load_checkpoint_page ::
  "externs \<Rightarrow> layout_file \<Rightarrow> ('z segment_store_scheme, StorageError, MetadataCheckpoint) stm" where
  "load_checkpoint_page E f =
     bind_s (read_segment_file_bounded E f KMetadata MAX_MAINTENANCE_METADATA_BYTES) (\<lambda>(_, payload).
     lift_s (checkpoint_decode payload))"

section \<open>Flush chain\<close>

datatype FlushStep = FlushData | FlushBlkMap | FlushLookup | FlushMetadata

text \<open>Data, block map, lookup table and checkpoint, in this order; a failpoint stops in between.\<close>

definition flush_chain ::
  "externs \<Rightarrow> bytes \<Rightarrow> bytes \<Rightarrow> bytes \<Rightarrow> MetadataCheckpoint \<Rightarrow> FlushStep option \<Rightarrow>
   ('z segment_store_scheme, StorageError, FlushStep list) stm" where
  "flush_chain E data_payload blk_payload lookup_payload c fail_after =
     bind_s (write_segment_file E Data_File KData 1 (epoch c) data_payload) (\<lambda>_.
     if fail_after = Some FlushData then err_s (Conflict ''flush interrupted after data'') else
     bind_s (write_segment_file E Blk_Map_File KBlkMap (active_blk_map_root c) (epoch c) blk_payload) (\<lambda>_.
     if fail_after = Some FlushBlkMap then err_s (Conflict ''flush interrupted after blk_map'') else
     bind_s (write_segment_file E Lookup_File KLookup (active_lookup_root c) (epoch c) lookup_payload) (\<lambda>_.
     if fail_after = Some FlushLookup then err_s (Conflict ''flush interrupted after lookup'') else
     bind_s (persist_checkpoint_page E Metadata_File c) (\<lambda>_.
     ret_s [FlushData, FlushBlkMap, FlushLookup, FlushMetadata]))))"

section \<open>Metadata budget\<close>

text \<open>
  The preflight over the sizes of the metadata files (missing files are
  skipped); \<^verbatim>\<open>file_len\<close> is what the file system reports.
\<close>

fun preflight_total :: "(layout_file \<Rightarrow> u64 option) \<Rightarrow> layout_file list \<Rightarrow> u64 \<Rightarrow> (StorageError, u64) result" where
  "preflight_total file_len [] acc = Ok acc"
| "preflight_total file_len (f # fs) acc =
     (case file_len f of
        None \<Rightarrow> preflight_total file_len fs acc
      | Some n \<Rightarrow>
          if unat n > MAX_MAINTENANCE_METADATA_BYTES then Err MetadataBudgetExceeded
          else bind_r (ok_or (checked_add acc n) MetadataBudgetExceeded)
                 (\<lambda>t. preflight_total file_len fs t))"

definition MAX_LIVE_METADATA_ESTIMATE_BYTES :: nat where
  "MAX_LIVE_METADATA_ESTIMATE_BYTES = 64 * 1024 * 1024"

definition preflight_maintenance_metadata ::
  "(layout_file \<Rightarrow> u64 option) \<Rightarrow> layout_file list \<Rightarrow> (StorageError, unit) result" where
  "preflight_maintenance_metadata file_len fs =
     bind_r (preflight_total file_len fs 0) (\<lambda>total.
     bind_r (ok_or (checked_mul total 6) MetadataBudgetExceeded) (\<lambda>live.
     if unat total > MAX_MAINTENANCE_METADATA_BYTES \<or> unat live > MAX_LIVE_METADATA_ESTIMATE_BYTES
     then Err MetadataBudgetExceeded else Ok ()))"

section \<open>Correctness\<close>

lemma flags_from_to_u8 [simp, codec]: "flags_from_u8 (flags_to_u8 fl) = Ok fl"
  by (cases fl) (simp_all add: flags_from_u8_def flags_to_u8_def)

lemma length_checkpoint_encode [simp]: "length (checkpoint_encode c) = 44"
  by (simp add: checkpoint_encode_def Let_def)

lemma checkpoint_decode_encode [codec]: "checkpoint_decode (checkpoint_encode c) = Ok c"
  by (simp add: checkpoint_decode_def checkpoint_encode_def Let_def byte_at_def)

lemma load_persisted_checkpoint:
  assumes "persist_checkpoint_page E f c s = (Ok (), s')"
  shows "load_checkpoint_page E f s' = (Ok c, s')"
proof -
  let ?h = "header_new E KMetadata (page_id c) (epoch c) (checkpoint_encode c)"
  have "sealed E s' f ?h (checkpoint_encode c)"
    using assms by (intro sealed_header_new) (auto simp: persist_checkpoint_page_def write_segment_file_run)
  then have "read_segment_file_bounded E f KMetadata MAX_MAINTENANCE_METADATA_BYTES s' =
      (Ok (?h, checkpoint_encode c), s')"
    by (rule read_bounded_sealed) (simp_all add: MAX_MAINTENANCE_METADATA_BYTES_def)
  then show ?thesis by (simp add: load_checkpoint_page_def checkpoint_decode_encode)
qed

lemma load_checkpoint_page_frame: "snd (load_checkpoint_page E f s) = s"
  by (auto simp: load_checkpoint_page_def bind_s_def read_segment_file_bounded_def
      split: option.splits sum.splits prod.splits)

section \<open>Properties\<close>

text \<open>
  A checkpoint page that was persisted is loaded back unchanged, on every
  file and from every earlier state of it.
\<close>

theorem checkpoint_roundtrip:
  "\<exists>s'. persist_checkpoint_page E f c s = (Ok (), s') \<and> load_checkpoint_page E f s' = (Ok c, s')"
proof -
  obtain s' where "persist_checkpoint_page E f c s = (Ok (), s')"
    by (simp add: persist_checkpoint_page_def write_segment_file_run)
  with load_persisted_checkpoint show ?thesis by blast
qed

end
