(* ===== verification/Compression.thy ===== *)
theory Compression
  imports Storage_Base
begin

text \<open>
  Payload compression (\<^verbatim>\<open>storage/compression.rs\<close>): the codec tag, the
  run-length codec written in the repository, the choice to store a payload
  raw when compression does not shrink it, and the bounded decompression.
  LZ4 and zlib are the crates' routines.
\<close>

section \<open>Data\<close>

datatype CompressionCodec = CodecNone | Rle | Lz4 | Zlib

definition codec_to_u8 :: "CompressionCodec \<Rightarrow> u8" where
  "codec_to_u8 c = (case c of CodecNone \<Rightarrow> 0 | Rle \<Rightarrow> 1 | Lz4 \<Rightarrow> 2 | Zlib \<Rightarrow> 3)"

definition codec_from_u8 :: "u8 \<Rightarrow> (StorageError, CompressionCodec) result" where
  "codec_from_u8 v =
     (if v = 0 then Ok CodecNone else if v = 1 then Ok Rle else if v = 2 then Ok Lz4
      else if v = 3 then Ok Zlib else Err (Corrupt ''invalid compression codec''))"

record CompressionStats =
  input_bytes :: u64
  stored_bytes :: u64
  compressed_writes :: u64
  bypassed_writes :: u64
  rle_writes :: u64
  lz4_writes :: u64
  zlib_writes :: u64
  dedup_hits :: u64
  collision_events :: u64

definition record_write :: "nat \<Rightarrow> nat \<Rightarrow> CompressionCodec \<Rightarrow> bool \<Rightarrow> CompressionStats \<Rightarrow> CompressionStats" where
  "record_write input_len stored_len codec compressed st =
     (let st = st\<lparr>input_bytes := input_bytes st + of_nat input_len,
                  stored_bytes := stored_bytes st + of_nat stored_len\<rparr> in
      if compressed \<and> codec \<noteq> CodecNone then
        let st = st\<lparr>compressed_writes := compressed_writes st + 1\<rparr> in
        (case codec of
           Rle \<Rightarrow> st\<lparr>rle_writes := rle_writes st + 1\<rparr>
         | Lz4 \<Rightarrow> st\<lparr>lz4_writes := lz4_writes st + 1\<rparr>
         | Zlib \<Rightarrow> st\<lparr>zlib_writes := zlib_writes st + 1\<rparr>
         | CodecNone \<Rightarrow> st)
      else st\<lparr>bypassed_writes := bypassed_writes st + 1\<rparr>)"

definition MAX_DECOMPRESSED_PAYLOAD_LEN :: nat where
  "MAX_DECOMPRESSED_PAYLOAD_LEN = 16 * 2 ^ 20"

section \<open>Run-length codec\<close>

text \<open>
  The inner loop counts the run at the head of the remaining payload, at most
  255 bytes long; the outer loop emits the pair and skips the run.
\<close>

definition run_length :: "u8 \<Rightarrow> bytes \<Rightarrow> nat" where
  "run_length b rest = min 255 (1 + length (takeWhile (\<lambda>x. x = b) rest))"

fun rle_encode :: "bytes \<Rightarrow> bytes" where
  "rle_encode [] = []"
| "rle_encode (b # rest) =
     (let run = run_length b rest in of_nat run # b # rle_encode (drop (run - 1) rest))"

fun rle_decode_pairs :: "bytes \<Rightarrow> bytes \<Rightarrow> (StorageError, bytes) result" where
  "rle_decode_pairs (run # value # rest) out =
     (if run = 0 then Err (Corrupt ''rle run length cannot be zero'')
      else rle_decode_pairs rest (out @ replicate (unat run) value))"
| "rle_decode_pairs _ out = Ok out"

definition rle_decode :: "bytes \<Rightarrow> (StorageError, bytes) result" where
  "rle_decode payload =
     (if odd (length payload) then Err (Corrupt ''rle payload malformed'')
      else rle_decode_pairs payload [])"

section \<open>Compressing and decompressing a payload\<close>

definition keep_if_smaller ::
  "CompressionCodec \<Rightarrow> bytes \<Rightarrow> bytes \<Rightarrow> CompressionCodec \<times> bytes \<times> bool" where
  "keep_if_smaller codec encoded payload =
     (if length encoded \<ge> length payload then (CodecNone, payload, False) else (codec, encoded, True))"

definition compress_payload ::
  "externs \<Rightarrow> CompressionCodec \<Rightarrow> bytes \<Rightarrow> (StorageError, CompressionCodec \<times> bytes \<times> bool) result" where
  "compress_payload E codec payload =
     (case codec of
        CodecNone \<Rightarrow> Ok (CodecNone, payload, False)
      | Rle \<Rightarrow> Ok (keep_if_smaller Rle (rle_encode payload) payload)
      | Lz4 \<Rightarrow> Ok (keep_if_smaller Lz4 (lz4_compress_prepend_size E payload) payload)
      | Zlib \<Rightarrow> bind_r (map_err storage_error_from_io (zlib_encode E payload)) (\<lambda>encoded.
          Ok (keep_if_smaller Zlib encoded payload)))"

definition ensure_decompressed_len_within_limit :: "nat \<Rightarrow> (StorageError, unit) result" where
  "ensure_decompressed_len_within_limit n =
     guard (n \<le> MAX_DECOMPRESSED_PAYLOAD_LEN) (Corrupt ''decompressed payload length exceeds maximum'')"

definition lz4_prepended_len :: "bytes \<Rightarrow> (StorageError, nat) result" where
  "lz4_prepended_len payload =
     (if length payload < 4 then Err (Corrupt ''lz4 payload missing size header'')
      else let declared = unat (from_le_bytes (take 4 payload) :: u32) in
        bind_r (ensure_decompressed_len_within_limit declared) (\<lambda>_. Ok declared))"

definition decoded_of_length :: "nat \<Rightarrow> bytes \<Rightarrow> (StorageError, bytes) result" where
  "decoded_of_length n decoded =
     (if length decoded \<noteq> n then Err (Corrupt ''decoded payload length mismatch'') else Ok decoded)"

definition decompress_payload ::
  "externs \<Rightarrow> CompressionCodec \<Rightarrow> bytes \<Rightarrow> nat \<Rightarrow> (StorageError, bytes) result" where
  "decompress_payload E codec payload expected_len =
     bind_r (ensure_decompressed_len_within_limit expected_len) (\<lambda>_.
     case codec of
       CodecNone \<Rightarrow> if length payload \<noteq> expected_len then Err (Corrupt ''raw payload length mismatch'')
                    else Ok payload
     | Rle \<Rightarrow> bind_r (rle_decode payload) (decoded_of_length expected_len)
     | Lz4 \<Rightarrow> bind_r (lz4_prepended_len payload) (\<lambda>declared.
         if declared \<noteq> expected_len then Err (Corrupt ''decoded payload length mismatch'')
         else bind_r (map_err (\<lambda>m. Corrupt (''lz4 decompress: '' @ m))
                        (lz4_decompress_size_prepended E payload))
                (decoded_of_length expected_len))
     | Zlib \<Rightarrow> bind_r (map_err storage_error_from_io (zlib_read E (expected_len + 1) payload))
                (decoded_of_length expected_len))"

section \<open>Correctness\<close>

lemma codec_from_to_u8 [simp, codec]: "codec_from_u8 (codec_to_u8 c) = Ok c"
  by (cases c) (simp_all add: codec_from_u8_def codec_to_u8_def)

lemma run_length_bounds: "1 \<le> run_length b rest" "run_length b rest \<le> 255" "run_length b rest - 1 \<le> length rest"
  using length_takeWhile_le [of "\<lambda>x. x = b" rest] by (auto simp: run_length_def)

lemma run_is_replicate: "b # take (run_length b rest - 1) rest = replicate (run_length b rest) b"
proof -
  let ?n = "run_length b rest - 1"
  have n: "?n \<le> length (takeWhile (\<lambda>x. x = b) rest)" by (auto simp: run_length_def)
  have "rest ! i = b" if "i < ?n" for i
  proof -
    have i: "i < length (takeWhile (\<lambda>x. x = b) rest)" using that n by simp
    from nth_mem [OF i] have "takeWhile (\<lambda>x. x = b) rest ! i = b" by (auto dest: set_takeWhileD)
    then show ?thesis by (simp add: takeWhile_nth [OF i])
  qed
  then have "take ?n rest = replicate ?n b"
    using run_length_bounds(3) [of b rest] by (intro nth_equalityI) auto
  moreover have "run_length b rest = Suc ?n" using run_length_bounds(1) [of b rest] by simp
  ultimately show ?thesis by (metis replicate_Suc)
qed

lemma even_length_rle_encode: "even (length (rle_encode p))"
  by (induction p rule: rle_encode.induct) (auto simp: Let_def)

lemma rle_decode_pairs_encode: "rle_decode_pairs (rle_encode p) out = Ok (out @ p)"
proof (induction p arbitrary: out rule: rle_encode.induct)
  case (2 b rest)
  let ?run = "run_length b rest"
  have "unat (of_nat ?run :: u8) = ?run"
    using run_length_bounds(2) [of b rest] by (intro unat_of_nat_small) simp
  moreover from this have "(of_nat ?run :: u8) \<noteq> 0"
    using run_length_bounds(1) [of b rest] by (metis not_one_le_zero unat_0)
  moreover have "replicate ?run b @ drop (?run - 1) rest = b # rest"
    by (simp flip: run_is_replicate)
  ultimately show ?case using "2.IH" [OF refl] by (simp add: Let_def)
qed simp

lemma rle_decode_encode [codec]: "rle_decode (rle_encode p) = Ok p"
  by (simp add: rle_decode_def even_length_rle_encode rle_decode_pairs_encode)

lemma keep_if_smaller_cases:
  "keep_if_smaller codec encoded payload = (c, stored, compressed) \<longleftrightarrow>
     (if length payload \<le> length encoded then c = CodecNone \<and> stored = payload \<and> \<not> compressed
      else c = codec \<and> stored = encoded \<and> compressed)"
  by (auto simp: keep_if_smaller_def)

lemma decompress_raw:
  "length payload \<le> MAX_DECOMPRESSED_PAYLOAD_LEN \<Longrightarrow>
     decompress_payload E CodecNone payload (length payload) = Ok payload"
  by (simp add: decompress_payload_def ensure_decompressed_len_within_limit_def guard_def)

text \<open>Whatever codec was asked for, decompressing what was stored gives the payload back.\<close>

lemma decompress_compress [codec]:
  assumes "compress_payload E codec payload = Ok (c, stored, compressed)"
    and "length payload \<le> MAX_DECOMPRESSED_PAYLOAD_LEN" and "lz4_ok E" "zlib_ok E"
  shows "decompress_payload E c stored (length payload) = Ok payload"
proof -
  have lim: "ensure_decompressed_len_within_limit (length payload) = Ok ()"
    using assms(2) by (simp add: ensure_decompressed_len_within_limit_def)
  have small: "length payload < 2 ^ 32"
    using assms(2) by (simp add: MAX_DECOMPRESSED_PAYLOAD_LEN_def)
  show ?thesis
  proof (cases "c = CodecNone")
    case True
    then have "stored = payload" using assms(1)
      by (auto simp: compress_payload_def keep_if_smaller_cases split: CompressionCodec.splits if_splits)
    with True assms(2) show ?thesis by (simp add: decompress_raw)
  next
    case False
    then consider "c = Rle" "stored = rle_encode payload"
      | "c = Lz4" "stored = lz4_compress_prepend_size E payload"
      | "c = Zlib" "zlib_encode E payload = Ok stored"
      using assms(1)
      by (auto simp: compress_payload_def keep_if_smaller_cases split: CompressionCodec.splits if_splits)
    then show ?thesis
    proof cases
      case 1
      with lim show ?thesis
        by (simp add: decompress_payload_def rle_decode_encode decoded_of_length_def)
    next
      case 2
      moreover have "lz4_prepended_len stored = Ok (length payload)"
        using 2 small lim assms(3) by (simp add: lz4_prepended_len_def lz4_ok_def unat_of_nat_small not_less)
      ultimately show ?thesis using lim small assms(3)
        by (simp add: decompress_payload_def lz4_ok_def decoded_of_length_def)
    next
      case 3
      with lim assms(4) show ?thesis
        by (simp add: decompress_payload_def zlib_ok_def decoded_of_length_def)
    qed
  qed
qed

lemma compress_payload_length:
  "compress_payload E codec payload = Ok (c, stored, compressed) \<Longrightarrow> length stored \<le> length payload"
  by (auto simp: compress_payload_def keep_if_smaller_cases split: CompressionCodec.splits if_splits)

section \<open>Properties\<close>

text \<open>
  C8: Whatever codec was requested and whatever codec the encoder settled on,
  the stored bytes are not longer than the payload and decompressing them with
  the recorded codec and length gives the payload back, for every payload
  within the decompression limit.
\<close>

theorem compression_roundtrip:
  assumes "compress_payload E codec payload = Ok (c, stored, compressed)"
    and "length payload \<le> MAX_DECOMPRESSED_PAYLOAD_LEN" "lz4_ok E" "zlib_ok E"
  shows "decompress_payload E c stored (length payload) = Ok payload \<and> length stored \<le> length payload \<and>
    (compressed \<longleftrightarrow> c \<noteq> CodecNone)"
proof -
  have "compressed \<longleftrightarrow> c \<noteq> CodecNone" using assms(1)
    by (auto simp: compress_payload_def keep_if_smaller_cases split: CompressionCodec.splits if_splits)
  with decompress_compress [OF assms] compress_payload_length [OF assms(1)] show ?thesis by blast
qed

theorem compression_roundtrip_witness:
  "compress_payload plain_externs Rle (replicate 9 7) = Ok (Rle, [9, 7], True) \<and>
     decompress_payload plain_externs Rle [9, 7] (length (replicate 9 (7 :: u8))) = Ok (replicate 9 7)"
proof -
  have "compress_payload plain_externs Rle (replicate 9 7) = Ok (Rle, [9, 7], True)"
    by (simp add: compress_payload_def keep_if_smaller_def numeral_eq_Suc run_length_def)
  moreover note compression_roundtrip [OF this]
  ultimately show ?thesis using plain_externs_ok by (simp add: MAX_DECOMPRESSED_PAYLOAD_LEN_def)
qed

end
