(* ===== verification/Log_Table.thy ===== *)
theory Log_Table
  imports Record_Log
begin

text \<open>
  What the block map, the lookup table and the deduplication index share: a
  segment file whose payload is a prefix and a log of fixed-size records, and
  a cache of the decoded records that is valid for a stamp of the file.  The
  locale is the contract such a table keeps with its file and its cache; its
  lemmas say that a freshness check makes the cache agree with the file and
  that an append to the file extends the log.
\<close>

definition starts_with :: "bytes \<Rightarrow> bytes \<Rightarrow> bool" where
  "starts_with payload pre = (take (length pre) payload = pre)"

lemma starts_with_append [simp]: "starts_with (pre @ rest) pre"
  by (simp add: starts_with_def)

lemma starts_with_Nil [simp]: "starts_with [] pre \<longleftrightarrow> pre = []"
  by (auto simp: starts_with_def)

definition log_payload :: "bytes \<Rightarrow> ('r \<Rightarrow> bytes) \<Rightarrow> 'r list \<Rightarrow> bytes" where
  "log_payload pre enc log = pre @ concat (map enc log)"

text \<open>An empty file is the empty log.\<close>

definition payload_of :: "bytes \<Rightarrow> ('r \<Rightarrow> bytes) \<Rightarrow> 'r list \<Rightarrow> bytes \<Rightarrow> bool" where
  "payload_of pre enc log payload \<longleftrightarrow> payload = log_payload pre enc log \<or> payload = [] \<and> log = []"

definition log_sealed ::
  "externs \<Rightarrow> 'z segment_store_scheme \<Rightarrow> layout_file \<Rightarrow> SegmentKind \<Rightarrow> bytes \<Rightarrow> bool" where
  "log_sealed E s f k payload \<longleftrightarrow>
     (\<exists>h. sealed E s f h payload \<and> kind h = k) \<and> append_cache_ok E s f"

lemma log_payload_append:
  "log_payload pre enc (log @ new) = log_payload pre enc log @ concat (map enc new)"
  by (simp add: log_payload_def)

text \<open>What only depends on the files and the append cache survives a change of anything else.\<close>

lemma log_sealed_cong:
  "files s' = files s \<Longrightarrow> append_file_cache s' = append_file_cache s \<Longrightarrow>
     log_sealed E s' f k p = log_sealed E s f k p"
  by (simp add: log_sealed_def sealed_def shaped_def append_cache_ok_def)

lemma append_cache_ok_local:
  "files s' f = files s f \<Longrightarrow> append_file_cache s' f = append_file_cache s f \<Longrightarrow>
     append_cache_ok E s' f = append_cache_ok E s f"
  by (simp add: append_cache_ok_def shaped_def)

lemma log_sealed_local:
  "files s' f = files s f \<Longrightarrow> append_file_cache s' f = append_file_cache s f \<Longrightarrow>
     log_sealed E s' f k p = log_sealed E s f k p"
  using append_cache_ok_local [of s' f s E] by (simp add: log_sealed_def sealed_def shaped_def)

text \<open>Replacing the file by a log, and appending encoded records to it.\<close>

lemma write_log_sealed:
  assumes "length payload + 96 < 2 ^ 64" "write_segment_file E f k sid sq payload s = (r, s')"
  shows "r = Ok () \<and> log_sealed E s' f k payload \<and> frame f s s'"
proof -
  let ?h = "header_new E k sid sq payload"
  have s': "r = Ok ()" "s' = s\<lparr>files := (files s)(Tmp f := None, f := Some (segment_headers E ?h @ payload)),
      append_file_cache := (append_file_cache s)(f := None)\<rparr>"
    using assms(2) by (simp_all add: write_segment_file_run)
  have "sealed E s' f ?h payload" using assms(1) s' by (intro sealed_header_new) auto
  then show ?thesis using s'
    by (auto simp: log_sealed_def append_cache_ok_def frame_def others_same_def intro!: exI [of _ ?h])
qed

lemma append_log_sealed:
  assumes "log_sealed E s f k payload" "payload = [] \<or> prefix pre payload \<and> integrity32 E payload \<noteq> 0"
    and "new \<noteq> []" "length pre + length payload + length new + 96 < 2 ^ 64" "crc_ok E"
  shows "\<exists>h s'. append_segment_payload E f k sid pre new s = (Ok h, s') \<and>
     log_sealed E s' f k ((if payload = [] then pre else payload) @ new) \<and> frame f s s'"
proof -
  obtain h where h: "sealed E s f h payload" "kind h = k" "append_cache_ok E s f"
    using assms(1) by (auto simp: log_sealed_def)
  have "length pre + length payload + length (concat [new]) + 96 < 2 ^ 64" using assms(4) by simp
  from append_sealed [OF h assms(2) _ _ this assms(5), of sid] assms(3)
  show ?thesis by (fastforce simp: append_segment_payload_def write_all_parts_def appended_payload_def log_sealed_def)
qed

section \<open>The contract of a cached log\<close>

text \<open>
  The cache entry counts when it is trusted or its stamp is that of the file.
  The file holds a log, and an entry that counts agrees with that log; within
  the metadata budget the log can be loaded again.
\<close>

definition cache_valid ::
  "externs \<Rightarrow> layout_file \<Rightarrow> ('s segment_store_scheme \<Rightarrow> 'c option) \<Rightarrow> ('c \<Rightarrow> bytes) \<Rightarrow> 's segment_store_scheme \<Rightarrow> 'c \<Rightarrow> bool" where
  "cache_valid E f get_c stamp_of s c \<longleftrightarrow>
     get_c s = Some c \<and> (trust_hot_cache E \<or> files s f = Some (stamp_of c))"

definition table_rep_any ::
  "externs \<Rightarrow> layout_file \<Rightarrow> SegmentKind \<Rightarrow> bytes \<Rightarrow> ('r \<Rightarrow> bytes) \<Rightarrow> ('r \<Rightarrow> bool) \<Rightarrow> ('s segment_store_scheme \<Rightarrow> 'c option) \<Rightarrow>
   ('c \<Rightarrow> bytes) \<Rightarrow> (externs \<Rightarrow> 'c \<Rightarrow> 'r list \<Rightarrow> bytes \<Rightarrow> bool) \<Rightarrow> 's segment_store_scheme \<Rightarrow> 'r list \<Rightarrow> bool" where
  "table_rep_any E f k pre enc okr get_c stamp_of entry_ok s log \<longleftrightarrow>
     (\<exists>payload. log_sealed E s f k payload \<and> payload_of pre enc log payload \<and>
        (\<forall>c. cache_valid E f get_c stamp_of s c \<longrightarrow> entry_ok E c log payload)) \<and> list_all okr log"

definition table_rep ::
  "externs \<Rightarrow> layout_file \<Rightarrow> SegmentKind \<Rightarrow> bytes \<Rightarrow> ('r \<Rightarrow> bytes) \<Rightarrow> ('r \<Rightarrow> bool) \<Rightarrow> ('s segment_store_scheme \<Rightarrow> 'c option) \<Rightarrow>
   ('c \<Rightarrow> bytes) \<Rightarrow> (externs \<Rightarrow> 'c \<Rightarrow> 'r list \<Rightarrow> bytes \<Rightarrow> bool) \<Rightarrow> 's segment_store_scheme \<Rightarrow> 'r list \<Rightarrow> bool" where
  "table_rep E f k pre enc okr get_c stamp_of entry_ok s log \<longleftrightarrow>
     table_rep_any E f k pre enc okr get_c stamp_of entry_ok s log \<and> length log \<le> MAX_MAINTENANCE_METADATA_RECORDS"

lemmas table_defs = table_rep_def table_rep_any_def cache_valid_def

locale log_table = record_codec enc dec size wf
  for enc :: "'r \<Rightarrow> bytes" and dec :: "bytes \<Rightarrow> (StorageError, 'r) result" and size :: nat and wf :: "'r \<Rightarrow> bool" +
  fixes f :: layout_file and k :: SegmentKind and pre :: bytes
    and decode_payload :: "externs \<Rightarrow> bytes \<Rightarrow> (StorageError, 'r list) result"
    and get_c :: "'s segment_store_scheme \<Rightarrow> 'c option"
    and upd_c :: "('c option \<Rightarrow> 'c option) \<Rightarrow> 's segment_store_scheme \<Rightarrow> 's segment_store_scheme"
    and stamp_of :: "'c \<Rightarrow> bytes"
    and entry_of :: "bytes \<Rightarrow> SegmentHeader \<Rightarrow> bytes \<Rightarrow> 'r list \<Rightarrow> 'c"
    and entry_ok :: "externs \<Rightarrow> 'c \<Rightarrow> 'r list \<Rightarrow> bytes \<Rightarrow> bool"
    and fresh :: "externs \<Rightarrow> ('s segment_store_scheme, StorageError, unit) stm"
  assumes sizes: "size \<le> 100" "pre \<noteq> []" "length pre \<le> 8"
    and load_ok: "hash_order_ok E \<Longrightarrow> list_all wf log \<Longrightarrow> length log \<le> MAX_MAINTENANCE_METADATA_RECORDS \<Longrightarrow>
      payload_of pre enc log payload \<Longrightarrow>
      \<exists>rs. decode_payload E payload = Ok rs \<and> (\<forall>st h. entry_ok E (entry_of st h payload rs) log payload)"
    and empty_ok: "entry_ok E entry [] [] \<Longrightarrow> entry_ok E entry [] (log_payload pre enc [])"
    and stamp_entry: "stamp_of (entry_of st h payload rs) = st"
    and upd_files: "files (upd_c g s) = files s"
    and upd_append: "append_file_cache (upd_c g s) = append_file_cache s"
    and get_upd: "get_c (upd_c g s) = g (get_c s)"
    and get_more: "segment_store.more s = segment_store.more s' \<Longrightarrow> get_c s = get_c s'"
    and upd_same: "get_c s = c \<Longrightarrow> upd_c (\<lambda>_. c) s = s"
    and fresh_eq: "fresh E s =
      (if trust_hot_cache E \<and> get_c s \<noteq> None then (Ok (), s)
       else case files s f of None \<Rightarrow> (Err (Io IoNotFound), s)
       | Some st \<Rightarrow>
           if map_option stamp_of (get_c s) = Some st then (Ok (), s)
           else bind_s (read_segment_file_bounded E f k MAX_MAINTENANCE_METADATA_BYTES) (\<lambda>(h, payload).
                bind_s (lift_s (decode_payload E payload)) (\<lambda>rs.
                modify_s (upd_c (\<lambda>_. Some (entry_of st h payload rs))))) s)"
begin

abbreviation valid :: "externs \<Rightarrow> 's segment_store_scheme \<Rightarrow> 'c \<Rightarrow> bool" where
  "valid E \<equiv> cache_valid E f get_c stamp_of"

abbreviation rep_any :: "externs \<Rightarrow> 's segment_store_scheme \<Rightarrow> 'r list \<Rightarrow> bool" where
  "rep_any E \<equiv> table_rep_any E f k pre enc wf get_c stamp_of entry_ok"

abbreviation rep :: "externs \<Rightarrow> 's segment_store_scheme \<Rightarrow> 'r list \<Rightarrow> bool" where
  "rep E \<equiv> table_rep E f k pre enc wf get_c stamp_of entry_ok"

lemma length_log_payload: "length (log_payload pre enc log) = length pre + size * length log"
  by (simp add: log_payload_def length_concat_enc del: length_concat)

lemma log_payload_ne [simp]: "log_payload pre enc log \<noteq> []"
  using sizes(2) by (simp add: log_payload_def)

lemma payload_bound:
  assumes "payload_of pre enc log payload" "length log \<le> MAX_MAINTENANCE_METADATA_RECORDS"
  shows "length payload + 96 \<le> MAX_MAINTENANCE_METADATA_BYTES"
proof -
  have "size * length log \<le> 100 * 65536"
    using assms(2) sizes(1) by (intro mult_mono) (simp_all add: MAX_MAINTENANCE_METADATA_RECORDS_def)
  then show ?thesis using assms(1) sizes(3)
    by (auto simp: payload_of_def length_log_payload MAX_MAINTENANCE_METADATA_BYTES_def)
qed

lemma rep_local:
  "files s' f = files s f \<Longrightarrow> append_file_cache s' f = append_file_cache s f \<Longrightarrow> get_c s' = get_c s \<Longrightarrow>
     rep_any E s' log = rep_any E s log \<and> rep E s' log = rep E s log"
  using log_sealed_local [of s' f s E k] by (simp add: table_defs)

lemma fresh_run:
  assumes rep: "rep E s log" and hash: "hash_order_ok E"
  shows "\<exists>c payload. fresh E s = (Ok (), upd_c (\<lambda>_. Some c) s) \<and> rep E (upd_c (\<lambda>_. Some c) s) log \<and>
     valid E (upd_c (\<lambda>_. Some c) s) c \<and> entry_ok E c log payload \<and>
     log_sealed E s f k payload \<and> payload_of pre enc log payload"
proof -
  obtain payload where p: "log_sealed E s f k payload" "payload_of pre enc log payload"
    "\<And>c. valid E s c \<Longrightarrow> entry_ok E c log payload" "list_all wf log"
    "length log \<le> MAX_MAINTENANCE_METADATA_RECORDS"
    using rep by (auto simp: table_rep_def table_rep_any_def)
  obtain h where h: "sealed E s f h payload" "kind h = k" using p(1) by (auto simp: log_sealed_def)
  obtain buf where buf: "files s f = Some buf" using h by (auto simp: sealed_def shaped_def)
  show ?thesis
  proof (cases "\<exists>c. valid E s c")
    case True
    then obtain c where c: "valid E s c" ..
    then have "fresh E s = (Ok (), s)" by (auto simp: fresh_eq cache_valid_def buf)
    moreover have "upd_c (\<lambda>_. Some c) s = s" using c by (intro upd_same) (simp add: cache_valid_def)
    ultimately show ?thesis using rep c p by metis
  next
    case False
    obtain rs where rs: "decode_payload E payload = Ok rs" "\<And>st h. entry_ok E (entry_of st h payload rs) log payload"
      using load_ok [OF hash p(4,5,2)] by blast
    let ?c = "entry_of buf h payload rs"
    have rd: "read_segment_file_bounded E f k MAX_MAINTENANCE_METADATA_BYTES s = (Ok (h, payload), s)"
      using read_bounded_sealed [OF h payload_bound [OF p(2,5)]] .
    have "fresh E s = (Ok (), upd_c (\<lambda>_. Some ?c) s)"
      using False by (auto simp: fresh_eq cache_valid_def buf rd rs)
    moreover have v: "valid E (upd_c (\<lambda>_. Some ?c) s) ?c" by (simp add: cache_valid_def get_upd upd_files buf stamp_entry)
    moreover have "log_sealed E (upd_c (\<lambda>_. Some ?c) s) f k payload"
      using p(1) log_sealed_cong [OF upd_files upd_append] by simp
    ultimately show ?thesis using p rs(2)
      by (intro exI [of _ ?c] exI [of _ payload]) (auto simp: table_defs get_upd)
  qed
qed

text \<open>Appending records to the file: the log grows, the cached records are not touched.\<close>

lemma append_run:
  assumes p: "log_sealed E s f k payload" "payload_of pre enc log payload"
    and room: "length log + length new \<le> 2 * MAX_MAINTENANCE_METADATA_RECORDS" and new: "new \<noteq> []"
    and E: "crc_ok E" "payload = [] \<or> integrity32 E payload \<noteq> 0"
  shows "\<exists>h s'. append_segment_payload E f k sid pre (concat (map enc new)) s = (Ok h, s') \<and>
     log_sealed E s' f k (log_payload pre enc (log @ new)) \<and> frame f s s' \<and> get_c s' = get_c s"
proof -
  have "size * length log + size * length new \<le> 100 * (2 * 65536)"
    using room sizes(1) unfolding add_mult_distrib2 [symmetric]
    by (intro mult_mono) (simp_all add: MAX_MAINTENANCE_METADATA_RECORDS_def)
  moreover have "length payload \<le> length pre + size * length log"
    using p(2) by (auto simp: payload_of_def length_log_payload)
  ultimately have "length pre + length payload + length (concat (map enc new)) + 96 < 2 ^ 64"
    using sizes(3) by (simp add: length_concat_enc del: length_concat)
  moreover have "concat (map enc new) \<noteq> []"
    using new size_pos enc_size [of "hd new"] by (cases new) auto
  moreover have "payload = [] \<or> prefix pre payload \<and> integrity32 E payload \<noteq> 0"
    using p(2) E(2) by (auto simp: payload_of_def log_payload_def)
  ultimately obtain h s' where "append_segment_payload E f k sid pre (concat (map enc new)) s = (Ok h, s')"
    "log_sealed E s' f k ((if payload = [] then pre else payload) @ concat (map enc new))" "frame f s s'"
    using append_log_sealed [OF p(1) _ _ _ E(1)] by blast
  moreover have "(if payload = [] then pre else payload) @ concat (map enc new) = log_payload pre enc (log @ new)"
    using p(2) by (auto simp: payload_of_def log_payload_def)
  moreover have "get_c s' = get_c s" using \<open>frame f s s'\<close> by (intro get_more) (simp add: frame_def)
  ultimately show ?thesis by (metis (no_types))
qed

text \<open>The rewrite of an empty file to an empty log, before the first append.\<close>

lemma rewrite_empty_run:
  assumes rep: "rep E s []" and c: "valid E s c" and hash: "hash_order_ok E"
  shows "\<exists>s1 c'. bind_s (write_segment_file E f k sid sq (log_payload pre enc [])) (\<lambda>_. fresh E) s =
       (Ok (), upd_c (\<lambda>_. Some c') s1) \<and> log_sealed E (upd_c (\<lambda>_. Some c') s1) f k (log_payload pre enc []) \<and>
     rep E (upd_c (\<lambda>_. Some c') s1) [] \<and> entry_ok E c' [] (log_payload pre enc []) \<and> frame f s s1"
proof -
  have bound: "length (log_payload pre enc []) + 96 < 2 ^ 64"
    using sizes(3) by (simp add: length_log_payload)
  obtain s1 where w: "write_segment_file E f k sid sq (log_payload pre enc []) s = (Ok (), s1)"
    "log_sealed E s1 f k (log_payload pre enc [])" "frame f s s1"
    using write_log_sealed [OF bound] by (metis (no_types) surj_pair)
  obtain payload where p: "payload_of pre enc [] payload" "\<And>c. valid E s c \<Longrightarrow> entry_ok E c [] payload"
    using rep by (auto simp: table_rep_def table_rep_any_def)
  have ok: "entry_ok E c [] (log_payload pre enc [])"
    using p(1) p(2) [OF c] empty_ok by (auto simp: payload_of_def)
  have "get_c s1 = Some c"
    using w(3) c get_more [of s1 s] by (simp add: frame_def cache_valid_def)
  then have "rep E s1 []" using w(2) ok
    by (auto simp: table_rep_def table_rep_any_def payload_of_def cache_valid_def intro!: exI [of _ "log_payload pre enc []"])
  from fresh_run [OF this hash] obtain c' p' where fr: "fresh E s1 = (Ok (), upd_c (\<lambda>_. Some c') s1)"
    "rep E (upd_c (\<lambda>_. Some c') s1) []" "entry_ok E c' [] p'" "log_sealed E s1 f k p'" by blast
  have "p' = log_payload pre enc []" using fr(4) w(2) by (auto simp: log_sealed_def sealed_def shaped_def length_segment_headers)
  moreover have "log_sealed E (upd_c (\<lambda>_. Some c') s1) f k (log_payload pre enc [])"
    using w(2) log_sealed_cong [OF upd_files upd_append] by simp
  ultimately show ?thesis using w fr by (intro exI [of _ s1] exI [of _ c']) simp
qed

text \<open>The table after the file changed to a longer log and the cache to an entry that matches it.\<close>

lemma rep_any_set:
  assumes "log_sealed E s f k (log_payload pre enc log)" "entry_ok E c log (log_payload pre enc log)" "list_all wf log"
  shows "rep_any E (upd_c (\<lambda>_. Some c) s) log"
  unfolding table_rep_any_def using assms log_sealed_cong [OF upd_files upd_append]
  by (intro conjI exI [of _ "log_payload pre enc log"]) (auto simp: payload_of_def cache_valid_def get_upd)

text \<open>A file that was written as a whole, with nothing cached.\<close>

lemma rep_any_file:
  assumes "files s f = Some (segment_headers E (header_new E k sid sq (log_payload pre enc log)) @ log_payload pre enc log)"
    and "append_file_cache s f = None" "get_c s = None" "list_all wf log" "length log < 2 ^ 32"
  shows "rep_any E s log"
proof -
  have "size * length log \<le> 100 * 2 ^ 32" using assms(5) sizes(1) by (intro mult_mono) simp_all
  then have "length (log_payload pre enc log) + 96 < 2 ^ 64" using sizes(3) by (simp add: length_log_payload)
  then have "sealed E s f (header_new E k sid sq (log_payload pre enc log)) (log_payload pre enc log)"
    using assms(1) by (intro sealed_header_new) simp_all
  then have "log_sealed E s f k (log_payload pre enc log)" using assms(2)
    by (auto simp: log_sealed_def append_cache_ok_def intro!: exI [of _ "header_new E k sid sq (log_payload pre enc log)"])
  then show ?thesis using assms(3,4)
    by (auto simp: table_rep_any_def payload_of_def cache_valid_def intro!: exI [of _ "log_payload pre enc log"])
qed

end

end
