(* ===== verification/Blk_Map.thy ===== *)
theory Blk_Map
  imports Metadata Compression Log_Table
begin

text \<open>
  The block map (\<^verbatim>\<open>storage/blk_map.rs\<close>): which logical range of a cartridge
  is stored in which blob.  Records are encoded in 59 bytes and appended to a
  log; a cache holds the latest records sorted by logical start.  The cache is
  valid for a file stamp (length and modification time in the code), which the
  model takes to be the file's contents.
\<close>

section \<open>Data\<close>

datatype BlkMapState = Active | Stale

datatype PayloadChecksumAlgorithm = AlgNone | Fnv1a32 | Crc32c

definition blk_state_to_u8 :: "BlkMapState \<Rightarrow> u8" where
  "blk_state_to_u8 st = (case st of Active \<Rightarrow> 1 | Stale \<Rightarrow> 2)"

definition blk_state_from_u8 :: "u8 \<Rightarrow> (StorageError, BlkMapState) result" where
  "blk_state_from_u8 v =
     (if v = 1 then Ok Active else if v = 2 then Ok Stale else Err (Corrupt ''invalid blk map state''))"

definition algorithm_to_u8 :: "PayloadChecksumAlgorithm \<Rightarrow> u8" where
  "algorithm_to_u8 a = (case a of AlgNone \<Rightarrow> 0 | Fnv1a32 \<Rightarrow> 1 | Crc32c \<Rightarrow> 2)"

definition algorithm_from_u8 :: "u8 \<Rightarrow> (StorageError, PayloadChecksumAlgorithm) result" where
  "algorithm_from_u8 v =
     (if v = 0 then Ok AlgNone else if v = 1 then Ok Fnv1a32 else if v = 2 then Ok Crc32c
      else Err (Corrupt ''unknown blk map checksum algorithm''))"

record BlkMapRecord =
  record_id :: u64
  logical_start :: u64
  logical_len :: u32
  physical_segment_id :: u64
  physical_offset :: u64
  filemark_count :: u32
  blk_state :: BlkMapState
  dedup_entry_id :: u64
  compression :: CompressionCodec
  compressed_len :: u32
  payload_checksum :: u32
  payload_checksum_algorithm :: PayloadChecksumAlgorithm

definition logical_end :: "BlkMapRecord \<Rightarrow> u64" where
  "logical_end r = saturating_add (logical_start r) (ucast (logical_len r))"

section \<open>Record codec\<close>

definition LEGACY_RECORD_SIZE :: nat where "LEGACY_RECORD_SIZE = 41"
definition EXTENDED_RECORD_V2_SIZE :: nat where "EXTENDED_RECORD_V2_SIZE = 58"
definition EXTENDED_RECORD_V3_SIZE :: nat where "EXTENDED_RECORD_V3_SIZE = 59"
definition MAX_RECORDS_PER_SEGMENT :: nat where "MAX_RECORDS_PER_SEGMENT = 1024"

lemmas blk_record_sizes = LEGACY_RECORD_SIZE_def EXTENDED_RECORD_V2_SIZE_def EXTENDED_RECORD_V3_SIZE_def

text \<open>The ASCII prefixes \<^verbatim>\<open>BMV2\<close> and \<^verbatim>\<open>BMV3\<close>.\<close>

definition BLK_LOG_PREFIX_V2 :: bytes where "BLK_LOG_PREFIX_V2 = [0x42, 0x4D, 0x56, 0x32]"
definition BLK_LOG_PREFIX :: bytes where "BLK_LOG_PREFIX = [0x42, 0x4D, 0x56, 0x33]"

definition blk_encode :: "BlkMapRecord \<Rightarrow> bytes" where
  "blk_encode r =
     to_le_bytes (record_id r) @ to_le_bytes (logical_start r) @ to_le_bytes (logical_len r) @
     to_le_bytes (physical_segment_id r) @ to_le_bytes (physical_offset r) @
     to_le_bytes (filemark_count r) @ [blk_state_to_u8 (blk_state r)] @
     to_le_bytes (dedup_entry_id r) @ [codec_to_u8 (compression r)] @
     to_le_bytes (compressed_len r) @ to_le_bytes (payload_checksum r) @
     [algorithm_to_u8 (payload_checksum_algorithm r)]"

definition blk_decode_legacy :: "bytes \<Rightarrow> (StorageError, BlkMapRecord) result" where
  "blk_decode_legacy buf =
     bind_r (blk_state_from_u8 (byte_at 40 buf)) (\<lambda>st.
     Ok \<lparr>record_id = from_le_bytes (slice 0 8 buf), logical_start = from_le_bytes (slice 8 8 buf),
         logical_len = from_le_bytes (slice 16 4 buf),
         physical_segment_id = from_le_bytes (slice 20 8 buf),
         physical_offset = from_le_bytes (slice 28 8 buf),
         filemark_count = from_le_bytes (slice 36 4 buf), blk_state = st, dedup_entry_id = 0,
         compression = CodecNone, compressed_len = from_le_bytes (slice 16 4 buf),
         payload_checksum = 0, payload_checksum_algorithm = AlgNone\<rparr>)"

definition blk_decode_extended_v2 :: "bytes \<Rightarrow> (StorageError, BlkMapRecord) result" where
  "blk_decode_extended_v2 buf =
     (let sum = from_le_bytes (slice 54 4 buf) in
      bind_r (blk_state_from_u8 (byte_at 40 buf)) (\<lambda>st.
      bind_r (codec_from_u8 (byte_at 49 buf)) (\<lambda>c.
      Ok \<lparr>record_id = from_le_bytes (slice 0 8 buf), logical_start = from_le_bytes (slice 8 8 buf),
          logical_len = from_le_bytes (slice 16 4 buf),
          physical_segment_id = from_le_bytes (slice 20 8 buf),
          physical_offset = from_le_bytes (slice 28 8 buf),
          filemark_count = from_le_bytes (slice 36 4 buf), blk_state = st,
          dedup_entry_id = from_le_bytes (slice 41 8 buf), compression = c,
          compressed_len = from_le_bytes (slice 50 4 buf), payload_checksum = sum,
          payload_checksum_algorithm = (if sum = 0 then AlgNone else Fnv1a32)\<rparr>)))"

definition blk_decode_extended_v3 :: "bytes \<Rightarrow> (StorageError, BlkMapRecord) result" where
  "blk_decode_extended_v3 buf =
     bind_r (blk_decode_extended_v2 (take EXTENDED_RECORD_V2_SIZE buf)) (\<lambda>r.
     bind_r (algorithm_from_u8 (byte_at 58 buf)) (\<lambda>a.
     if a = AlgNone \<and> payload_checksum r \<noteq> 0
     then Err (Corrupt ''disabled blk map checksum has a nonzero value'')
     else Ok (r\<lparr>payload_checksum_algorithm := a\<rparr>)))"

definition blk_decode :: "bytes \<Rightarrow> (StorageError, BlkMapRecord) result" where
  "blk_decode buf =
     (if length buf = LEGACY_RECORD_SIZE then blk_decode_legacy buf
      else if length buf = EXTENDED_RECORD_V2_SIZE then blk_decode_extended_v2 buf
      else if length buf = EXTENDED_RECORD_V3_SIZE then blk_decode_extended_v3 buf
      else Err (Corrupt ''unsupported blk map record size''))"

text \<open>Records the engine writes: no checksum value without an algorithm.\<close>

definition blk_wf :: "BlkMapRecord \<Rightarrow> bool" where
  "blk_wf r \<longleftrightarrow> (payload_checksum_algorithm r = AlgNone \<longrightarrow> payload_checksum r = 0)"

lemma blk_state_from_to_u8 [simp, codec]: "blk_state_from_u8 (blk_state_to_u8 st) = Ok st"
  by (cases st) (simp_all add: blk_state_from_u8_def blk_state_to_u8_def)

lemma algorithm_from_to_u8 [simp, codec]: "algorithm_from_u8 (algorithm_to_u8 a) = Ok a"
  by (cases a) (simp_all add: algorithm_from_u8_def algorithm_to_u8_def)

lemma length_blk_encode [simp]: "length (blk_encode r) = 59"
  by (simp add: blk_encode_def)

lemma blk_decode_encode [codec]: "blk_wf r \<Longrightarrow> blk_decode (blk_encode r) = Ok r"
  by (simp add: blk_decode_def blk_record_sizes blk_decode_extended_v3_def del: bind_r_Ok)
    (simp add: blk_encode_def blk_decode_extended_v2_def byte_at_def blk_wf_def Let_def del: bind_r_Ok)

interpretation blk: record_codec blk_encode blk_decode 59 blk_wf
  by unfold_locales (simp_all add: blk_decode_encode)

section \<open>Log codec\<close>

definition blk_encode_log_payload :: "BlkMapRecord list \<Rightarrow> bytes" where
  "blk_encode_log_payload rs = BLK_LOG_PREFIX @ concat (map blk_encode rs)"

definition blk_decode_legacy_payload :: "bytes \<Rightarrow> (StorageError, BlkMapRecord list) result" where
  "blk_decode_legacy_payload payload =
     (if length payload < 8 then Err (Corrupt ''blk map payload too short'')
      else bind_r (checked_metadata_record_count (unat (from_le_bytes (slice 0 8 payload) :: u64))) (\<lambda>n.
        if n = 0 then Ok []
        else let remaining = length payload - 8 in
          if remaining < n then Err (Corrupt ''blk map payload truncated'')
          else if remaining mod n \<noteq> 0 then Err (Corrupt ''blk map record size mismatch'')
          else let record_size = remaining div n in
            if record_size \<noteq> LEGACY_RECORD_SIZE \<and> record_size \<noteq> EXTENDED_RECORD_V2_SIZE
            then Err (Corrupt ''unsupported blk map record size'')
            else traverse blk_decode (chunks record_size (drop 8 payload))))"

definition blk_decode_log_payload :: "externs \<Rightarrow> bytes \<Rightarrow> (StorageError, BlkMapRecord list) result" where
  "blk_decode_log_payload E payload =
     bind_r (if starts_with payload BLK_LOG_PREFIX then Ok (BLK_LOG_PREFIX, EXTENDED_RECORD_V3_SIZE)
             else if starts_with payload BLK_LOG_PREFIX_V2
             then Ok (BLK_LOG_PREFIX_V2, EXTENDED_RECORD_V2_SIZE)
             else Err (Corrupt ''unsupported blk map log version'')) (\<lambda>(pre, record_size).
     let body = drop (length pre) payload in
     if length body mod record_size \<noteq> 0 then Err (Corrupt ''blk map log payload length mismatch'')
     else bind_r (checked_metadata_record_count (length body div record_size)) (\<lambda>_.
       bind_r (traverse blk_decode (chunks record_size body)) (\<lambda>rs.
       Ok (sort_key logical_start (latest_values E record_id rs)))))"

definition blk_decode_payload :: "externs \<Rightarrow> bytes \<Rightarrow> (StorageError, BlkMapRecord list) result" where
  "blk_decode_payload E payload =
     (if payload = [] then Ok []
      else if starts_with payload BLK_LOG_PREFIX \<or> starts_with payload BLK_LOG_PREFIX_V2
      then blk_decode_log_payload E payload
      else if starts_with payload [0x42, 0x4D, 0x56]
      then Err (Corrupt ''unsupported blk map log version'')
      else blk_decode_legacy_payload payload)"

definition block_map_log_version :: "bytes \<Rightarrow> nat" where
  "block_map_log_version payload =
     (if starts_with payload BLK_LOG_PREFIX then 3
      else if starts_with payload BLK_LOG_PREFIX_V2 then 2 else 0)"

section \<open>Cache and state\<close>

record CachedBlkMap =
  bm_stamp :: bytes
  bm_sequence :: u64
  bm_records :: "BlkMapRecord list"
  bm_record_index :: "u64 \<Rightarrow> nat option"
  bm_next_record_id :: u64
  bm_log_version :: nat

record blk_store = segment_store +
  blk_map_cache :: "CachedBlkMap option"

definition build_record_index :: "BlkMapRecord list \<Rightarrow> u64 \<Rightarrow> nat option" where
  "build_record_index rs = map_of (rev (zip (map record_id rs) [0..<length rs]))"

definition next_record_id :: "BlkMapRecord list \<Rightarrow> u64" where
  "next_record_id rs = next_id record_id rs"

definition blk_sequence :: "BlkMapRecord list \<Rightarrow> u64" where
  "blk_sequence rs = max (of_nat (length rs div MAX_RECORDS_PER_SEGMENT)) 1"

definition blk_file_stamp :: "('z blk_store_scheme, StorageError, bytes) stm" where
  "blk_file_stamp s =
     (case files s Blk_Map_File of None \<Rightarrow> (Err (Io IoNotFound), s) | Some stamp \<Rightarrow> (Ok stamp, s))"

definition set_blk_cache :: "CachedBlkMap option \<Rightarrow> ('z blk_store_scheme, 'e, unit) stm" where
  "set_blk_cache c = modify_s (blk_map_cache_update (\<lambda>_. c))"

definition blk_update_cache :: "u64 \<Rightarrow> BlkMapRecord list \<Rightarrow> ('z blk_store_scheme, StorageError, unit) stm" where
  "blk_update_cache sq rs =
     bind_s blk_file_stamp (\<lambda>stamp.
     set_blk_cache (Some \<lparr>bm_stamp = stamp, bm_sequence = sq, bm_records = rs,
        bm_record_index = build_record_index rs, bm_next_record_id = next_record_id rs,
        bm_log_version = 3\<rparr>))"

definition discard_blk_map_cache :: "('z blk_store_scheme, StorageError, unit) stm" where
  "discard_blk_map_cache = set_blk_cache None"


definition blk_reload :: "externs \<Rightarrow> bytes \<Rightarrow> ('z blk_store_scheme, StorageError, unit) stm" where
  "blk_reload E stamp =
     bind_s (read_segment_file_bounded E Blk_Map_File KBlkMap MAX_MAINTENANCE_METADATA_BYTES)
       (\<lambda>(h, payload).
     bind_s (lift_s (blk_decode_payload E payload)) (\<lambda>rs.
     set_blk_cache (Some \<lparr>bm_stamp = stamp, bm_sequence = sequence h, bm_records = rs,
        bm_record_index = build_record_index rs, bm_next_record_id = next_record_id rs,
        bm_log_version = block_map_log_version payload\<rparr>)))"

definition blk_ensure_cache_fresh :: "externs \<Rightarrow> ('z blk_store_scheme, StorageError, unit) stm" where
  "blk_ensure_cache_fresh E s =
     (if trust_hot_cache E \<and> blk_map_cache s \<noteq> None then (Ok (), s)
      else bind_s blk_file_stamp (\<lambda>stamp s.
             if map_option bm_stamp (blk_map_cache s) = Some stamp then (Ok (), s)
             else blk_reload E stamp s) s)"

text \<open>The cache entry after a freshness check, as every operation fetches it.\<close>

definition blk_cache_entry :: "('z blk_store_scheme, StorageError, CachedBlkMap) stm" where
  "blk_cache_entry s =
     (case blk_map_cache s of
        None \<Rightarrow> (Err (NotFound ''blk map cache not initialized''), s)
      | Some c \<Rightarrow> (Ok c, s))"

section \<open>Operations\<close>

definition load_blk_map_records ::
  "externs \<Rightarrow> ('z blk_store_scheme, StorageError, u64 \<times> BlkMapRecord list) stm" where
  "load_blk_map_records E =
     bind_s (blk_ensure_cache_fresh E) (\<lambda>_.
     bind_s blk_cache_entry (\<lambda>c. ret_s (bm_sequence c, bm_records c)))"

definition is_active :: "BlkMapRecord \<Rightarrow> bool" where
  "is_active r \<longleftrightarrow> blk_state r = Active"

definition covers :: "u64 \<Rightarrow> BlkMapRecord \<Rightarrow> bool" where
  "covers b r \<longleftrightarrow> logical_start r \<le> b \<and> b < logical_end r"

definition locate_in_records ::
  "CachedBlkMap \<Rightarrow> u64 \<Rightarrow> u64 \<Rightarrow> u64 \<Rightarrow> BlkMapRecord option" where
  "locate_in_records c b id_start id_end =
     (let scan = find (\<lambda>r. is_active r \<and> id_start \<le> record_id r \<and> record_id r \<le> id_end \<and> covers b r)
                   (bm_records c) in
      if id_start = id_end then
        (case bm_record_index c id_start of
           Some i \<Rightarrow> if i < length (bm_records c) \<and> is_active (bm_records c ! i) \<and> covers b (bm_records c ! i)
                     then Some (bm_records c ! i) else scan
         | None \<Rightarrow> scan)
      else scan)"

definition locate_active_record ::
  "externs \<Rightarrow> u64 \<Rightarrow> u64 \<Rightarrow> u64 \<Rightarrow> ('z blk_store_scheme, StorageError, BlkMapRecord option) stm" where
  "locate_active_record E b id_start id_end =
     bind_s (blk_ensure_cache_fresh E) (\<lambda>_.
     bind_s blk_cache_entry (\<lambda>c. ret_s (locate_in_records c b id_start id_end)))"

text \<open>The neighbours an insertion is checked against: the nearest active records on each side.\<close>

definition overlaps_neighbours :: "BlkMapRecord list \<Rightarrow> BlkMapRecord \<Rightarrow> bool" where
  "overlaps_neighbours rs r =
     (let i = partition_point (\<lambda>x. logical_start x < logical_start r) rs;
          prev = find is_active (rev (take i rs));
          nxt = find is_active (drop i rs) in
      (case prev of None \<Rightarrow> False | Some p \<Rightarrow> logical_start r < logical_end p) \<or>
      (case nxt of None \<Rightarrow> False | Some n \<Rightarrow> logical_start n < logical_end r))"

definition blk_insert :: "BlkMapRecord \<Rightarrow> CachedBlkMap \<Rightarrow> CachedBlkMap" where
  "blk_insert r c =
     (if bm_records c = [] \<or> logical_start (last (bm_records c)) \<le> logical_start r
      then c\<lparr>bm_record_index := (bm_record_index c)(record_id r := Some (length (bm_records c))),
             bm_records := bm_records c @ [r]\<rparr>
      else let i = partition_point (\<lambda>x. logical_start x \<le> logical_start r) (bm_records c);
               rs = take i (bm_records c) @ r # drop i (bm_records c) in
        c\<lparr>bm_records := rs, bm_record_index := build_record_index rs\<rparr>)"

text \<open>
  Appending: the overlap check and the identifier, the rewrite of a log in an
  older format, then the append to the file and the update of the cache.
\<close>

definition blk_commit_record ::
  "externs \<Rightarrow> BlkMapRecord \<Rightarrow> ('z blk_store_scheme, StorageError, BlkMapRecord) stm" where
  "blk_commit_record E r =
     bind_s (append_segment_payload E Blk_Map_File KBlkMap 2 BLK_LOG_PREFIX (blk_encode r)) (\<lambda>h.
     bind_s blk_cache_entry (\<lambda>c.
     let c = c\<lparr>bm_sequence := sequence h\<rparr> in
     bind_s (set_blk_cache (Some c)) (\<lambda>_.
     bind_s (lift_s (ok_or (checked_add (record_id r) 1)
                       (Conflict ''blk map record ID space is exhausted''))) (\<lambda>next_id.
     let c = blk_insert r (c\<lparr>bm_next_record_id := max (bm_next_record_id c) next_id\<rparr>) in
     bind_s (set_blk_cache (Some c)) (\<lambda>_.
     bind_s (if trust_hot_cache E then ret_s (bm_stamp c) else blk_file_stamp) (\<lambda>stamp.
     bind_s (set_blk_cache (Some (c\<lparr>bm_stamp := stamp, bm_log_version := 3\<rparr>))) (\<lambda>_.
     ret_s r)))))))"

definition append_blk_map_record ::
  "externs \<Rightarrow> BlkMapRecord \<Rightarrow> ('z blk_store_scheme, StorageError, BlkMapRecord) stm" where
  "append_blk_map_record E record0 =
     bind_s (blk_ensure_cache_fresh E) (\<lambda>_.
     bind_s blk_cache_entry (\<lambda>c.
     if overlaps_neighbours (bm_records c) record0 then err_s (Conflict ''active logical range overlap'')
     else if record_id record0 = 0 \<and> bm_next_record_id c = - 1
     then err_s (Conflict ''blk map record ID space is exhausted'')
     else
       let r = (if record_id record0 = 0 then record0\<lparr>record_id := bm_next_record_id c\<rparr> else record0) in
       bind_s (if bm_log_version c \<noteq> 3
               then bind_s (write_segment_file E Blk_Map_File KBlkMap 2 (blk_sequence (bm_records c))
                              (blk_encode_log_payload (bm_records c))) (\<lambda>_. blk_ensure_cache_fresh E)
               else ret_s ()) (\<lambda>_.
       blk_commit_record E r)))"

definition blk_ensure_log_format ::
  "externs \<Rightarrow> BlkMapRecord list \<Rightarrow> ('z blk_store_scheme, StorageError, unit) stm" where
  "blk_ensure_log_format E rs =
     bind_s (read_segment_file_bounded E Blk_Map_File KBlkMap MAX_MAINTENANCE_METADATA_BYTES)
       (\<lambda>(_, payload).
     if starts_with payload BLK_LOG_PREFIX then ret_s ()
     else bind_s (write_segment_file E Blk_Map_File KBlkMap 2 (blk_sequence rs) (blk_encode_log_payload rs))
            (\<lambda>_. blk_update_cache (blk_sequence rs) rs))"

text \<open>\<^verbatim>\<open>iter_mut().find(...)\<close> and assignment: the first record with the identifier is replaced.\<close>

fun replace_record :: "BlkMapRecord \<Rightarrow> BlkMapRecord list \<Rightarrow> BlkMapRecord list" where
  "replace_record n [] = []"
| "replace_record n (r # rs) = (if record_id r = record_id n then n # rs else r # replace_record n rs)"

definition mark_blk_map_stale_batch ::
  "externs \<Rightarrow> u64 list \<Rightarrow> ('z blk_store_scheme, StorageError, BlkMapRecord list) stm" where
  "mark_blk_map_stale_batch E record_ids =
     (if record_ids = [] then ret_s []
      else
       bind_s (load_blk_map_records E) (\<lambda>(_, rs).
       let updated = map (\<lambda>r. r\<lparr>blk_state := Stale\<rparr>) (filter (\<lambda>r. record_id r \<in> set record_ids) rs) in
       if length updated \<noteq> card (set record_ids)
       then err_s (NotFound ''one or more blk map records not found'')
       else
         bind_s (blk_ensure_log_format E rs) (\<lambda>_.
         bind_s (append_segment_payload E Blk_Map_File KBlkMap 2 BLK_LOG_PREFIX
                   (concat (map blk_encode updated))) (\<lambda>h.
         let rs = sort_key logical_start (fold replace_record updated rs) in
         bind_s (blk_update_cache (sequence h) rs) (\<lambda>_.
         ret_s updated)))))"

definition mark_blk_map_stale ::
  "externs \<Rightarrow> u64 \<Rightarrow> ('z blk_store_scheme, StorageError, BlkMapRecord) stm" where
  "mark_blk_map_stale E i =
     bind_s (mark_blk_map_stale_batch E [i]) (\<lambda>updated.
     if updated = [] then err_s (NotFound ''blk map record not found'') else ret_s (last updated))"

definition persist_blk_map_records ::
  "externs \<Rightarrow> BlkMapRecord list \<Rightarrow> ('z blk_store_scheme, StorageError, unit) stm" where
  "persist_blk_map_records E rs =
     bind_s (write_segment_file E Blk_Map_File KBlkMap 2 (blk_sequence rs) (blk_encode_log_payload rs)) (\<lambda>_.
     blk_update_cache (blk_sequence rs) rs)"

section \<open>The invariant of the records\<close>

text \<open>
  Identifiers are distinct, active ranges are not empty and do not overlap.
  The invariant does not depend on the order of the records.
\<close>

definition ranges_overlap :: "BlkMapRecord \<Rightarrow> BlkMapRecord \<Rightarrow> bool" where
  "ranges_overlap a b \<longleftrightarrow> logical_start a < logical_end b \<and> logical_start b < logical_end a"

definition blk_inv :: "BlkMapRecord list \<Rightarrow> bool" where
  "blk_inv rs \<longleftrightarrow> distinct (map record_id rs) \<and>
     (\<forall>r\<in>set rs. is_active r \<longrightarrow> logical_start r < logical_end r) \<and>
     (\<forall>a\<in>set rs. \<forall>b\<in>set rs. is_active a \<and> is_active b \<and> record_id a \<noteq> record_id b \<longrightarrow>
        \<not> ranges_overlap a b)"

lemma blk_inv_mset: "mset rs = mset rs' \<Longrightarrow> blk_inv rs = blk_inv rs'"
proof -
  assume eq: "mset rs = mset rs'"
  have "distinct (map record_id rs) = distinct (map record_id rs')"
    by (rule mset_eq_imp_distinct_iff) (simp add: eq)
  then show ?thesis unfolding blk_inv_def using mset_eq_setD [OF eq] by simp
qed

lemma blk_inv_Nil [simp]: "blk_inv []"
  by (simp add: blk_inv_def)

lemma find_filter: "find P xs = (case filter P xs of [] \<Rightarrow> None | x # _ \<Rightarrow> Some x)"
  by (induction xs) auto

lemma find_rev_filter: "find P (rev xs) = (if filter P xs = [] then None else Some (last (filter P xs)))"
  by (simp add: find_filter flip: rev_filter) (auto simp: last_rev hd_rev split: list.splits)

text \<open>Checking the two nearest active records is checking all active records.\<close>

lemma nearest_before:
  assumes inv: "blk_inv rs" and sorted: "sorted (map logical_start (filter is_active xs))"
    and sub: "set xs \<subseteq> set rs" and p: "filter is_active xs \<noteq> []" and x: "x \<in> set xs" "is_active x"
  shows "logical_end x \<le> logical_end (last (filter is_active xs))"
proof -
  let ?p = "last (filter is_active xs)"
  have p_in: "?p \<in> set xs" "is_active ?p" using p last_in_set [OF p] by auto
  have "logical_start x \<le> logical_start ?p"
  proof -
    obtain ys where ys: "filter is_active xs = ys @ [?p]" using p by (metis append_butlast_last_id)
    have "x \<in> set (filter is_active xs)" using x by simp
    then have "x \<in> set ys \<or> x = ?p" using ys by (metis Un_iff empty_iff empty_set insert_iff list.simps(15) set_append)
    moreover have "sorted (map logical_start (ys @ [?p]))" using sorted ys by metis
    ultimately show ?thesis by (auto simp: sorted_append)
  qed
  moreover have "x = ?p \<or> \<not> ranges_overlap x ?p"
  proof (cases "record_id x = record_id ?p")
    case True
    moreover have "inj_on record_id (set rs)" using inv by (simp add: blk_inv_def distinct_map)
    ultimately show ?thesis using x(1) p_in(1) sub by (auto dest: inj_onD)
  next
    case False
    then show ?thesis using inv x p_in sub by (auto simp: blk_inv_def)
  qed
  moreover have "logical_start ?p < logical_end ?p" "logical_start x < logical_end x"
    using inv x p_in sub by (auto simp: blk_inv_def)
  ultimately show ?thesis by (auto simp: ranges_overlap_def)
qed

lemma overlaps_neighbours_iff:
  assumes sorted: "sorted (map logical_start rs)" and inv: "blk_inv rs"
    and ne: "logical_start r < logical_end r"
  shows "overlaps_neighbours rs r \<longleftrightarrow> (\<exists>x\<in>set rs. is_active x \<and> ranges_overlap x r)"
proof -
  let ?P = "\<lambda>x. logical_start x < logical_start r"
  have cut: "takeWhile ?P rs = filter ?P rs" "dropWhile ?P rs = filter (\<lambda>x. \<not> ?P x) rs"
    using takeWhile_sorted_key [OF sorted, of ?P] by (auto intro: le_less_trans)
  let ?before = "filter ?P rs" and ?after = "filter (\<lambda>x. \<not> ?P x) rs"
  have srt: "sorted (map logical_start (filter is_active ?before))"
    "sorted (map logical_start (filter is_active ?after))"
    by (rule sorted_filter, rule sorted_filter, rule sorted)+
  have prev: "(case find is_active (rev ?before) of None \<Rightarrow> False | Some p \<Rightarrow> logical_start r < logical_end p)
      \<longleftrightarrow> (\<exists>x\<in>set ?before. is_active x \<and> logical_start r < logical_end x)"
  proof (cases "filter is_active ?before = []")
    case True
    then show ?thesis by (auto simp: find_rev_filter filter_empty_conv)
  next
    case False
    then have "last (filter is_active ?before) \<in> set (filter is_active ?before)" by (rule last_in_set)
    then show ?thesis using False nearest_before [OF inv srt(1) _ False]
      by (auto simp: find_rev_filter intro: less_le_trans)
  qed
  have nxt: "(case find is_active ?after of None \<Rightarrow> False | Some n \<Rightarrow> logical_start n < logical_end r)
      \<longleftrightarrow> (\<exists>x\<in>set ?after. is_active x \<and> logical_start x < logical_end r)"
  proof (cases "filter is_active ?after")
    case Nil
    then show ?thesis by (auto simp: find_filter filter_empty_conv)
  next
    case (Cons n ns)
    then have n: "n \<in> set ?after" "is_active n" by (auto dest: Cons_eq_filterD simp: filter_eq_Cons_iff)
    have "logical_start n \<le> logical_start x" if "x \<in> set ?after" "is_active x" for x
    proof -
      have "x \<in> set (n # ns)" using that Cons by (metis (no_types, lifting) mem_Collect_eq set_filter)
      then show ?thesis using srt(2) Cons by auto
    qed
    then show ?thesis using Cons n by (auto simp: find_filter intro: le_less_trans)
  qed
  have "overlaps_neighbours rs r \<longleftrightarrow>
      (\<exists>x\<in>set ?before. is_active x \<and> logical_start r < logical_end x) \<or>
      (\<exists>x\<in>set ?after. is_active x \<and> logical_start x < logical_end r)"
    unfolding overlaps_neighbours_def Let_def take_partition_point drop_partition_point cut
    using prev nxt by simp
  also have "\<dots> \<longleftrightarrow> (\<exists>x\<in>set rs. is_active x \<and> ranges_overlap x r)"
  proof -
    have "logical_start x < logical_end x" if "x \<in> set rs" "is_active x" for x
      using inv that by (auto simp: blk_inv_def)
    then show ?thesis using ne unfolding ranges_overlap_def
      by (auto 0 4 simp: not_less intro: less_trans le_less_trans)
  qed
  finally show ?thesis .
qed

lemma blk_inv_add:
  assumes "blk_inv rs" "record_id r \<notin> record_id ` set rs" "logical_start r < logical_end r"
    and "\<not> (\<exists>x\<in>set rs. is_active x \<and> ranges_overlap x r)"
  shows "blk_inv (rs @ [r])"
  using assms by (auto simp: blk_inv_def ranges_overlap_def)

section \<open>Insertion into the cache\<close>

definition blk_entry_ok :: "CachedBlkMap \<Rightarrow> BlkMapRecord list \<Rightarrow> bool" where
  "blk_entry_ok c rs \<longleftrightarrow>
     mset (bm_records c) = mset rs \<and> sorted (map logical_start (bm_records c)) \<and>
     bm_record_index c = build_record_index (bm_records c) \<and>
     bm_next_record_id c = next_record_id (bm_records c)"

lemma build_record_index_snoc:
  "build_record_index (rs @ [r]) = (build_record_index rs)(record_id r := Some (length rs))"
  by (simp add: build_record_index_def)

lemma next_record_id_mset: "mset rs = mset rs' \<Longrightarrow> next_record_id rs = next_record_id rs'"
  unfolding next_record_id_def by (rule next_id_mset)

lemma next_record_id_fresh: "next_record_id rs \<noteq> - 1 \<Longrightarrow> r \<in> set rs \<Longrightarrow> record_id r < next_record_id rs"
  unfolding next_record_id_def by (rule next_id_fresh)

lemma next_record_id_snoc:
  "checked_add (record_id r) 1 = Some n \<Longrightarrow> next_record_id (rs @ [r]) = max (next_record_id rs) n"
  unfolding next_record_id_def by (rule next_id_snoc)

lemma bm_records_insert: "bm_records (blk_insert r c) = insert_by_key logical_start r (bm_records c)"
  by (simp add: blk_insert_def insert_by_key_def Let_def)

lemma blk_insert_ok:
  assumes "blk_entry_ok c rs" "checked_add (record_id r) 1 = Some n"
  shows "blk_entry_ok (blk_insert r (c\<lparr>bm_next_record_id := max (bm_next_record_id c) n\<rparr>)) (rs @ [r])"
proof -
  let ?c = "c\<lparr>bm_next_record_id := max (bm_next_record_id c) n\<rparr>"
  have ok: "mset (bm_records c) = mset rs" "sorted (map logical_start (bm_records c))"
    "bm_record_index c = build_record_index (bm_records c)" "bm_next_record_id c = next_record_id (bm_records c)"
    using assms(1) by (simp_all add: blk_entry_ok_def)
  have ms: "mset (bm_records (blk_insert r ?c)) = mset (bm_records c @ [r])"
    by (simp add: bm_records_insert mset_insert_by_key)
  moreover have "sorted (map logical_start (bm_records (blk_insert r ?c)))"
    using ok(2) by (simp add: bm_records_insert sorted_insert_by_key)
  moreover have "bm_next_record_id (blk_insert r ?c) = next_record_id (bm_records (blk_insert r ?c))"
    using ok(4) next_record_id_mset [OF ms] next_record_id_snoc [OF assms(2)] by (simp add: blk_insert_def Let_def)
  moreover have "bm_record_index (blk_insert r ?c) = build_record_index (bm_records (blk_insert r ?c))"
    using ok(3) by (simp add: blk_insert_def build_record_index_snoc Let_def)
  ultimately show ?thesis using ok(1) by (simp add: blk_entry_ok_def)
qed

section \<open>The log file and its cache\<close>

text \<open>
  The file holds a log (an empty file is the empty log), the cached records
  are the latest records of that log, and the log is within the metadata
  budget, so that it can be read again.
\<close>

definition blk_payload_of :: "BlkMapRecord list \<Rightarrow> bytes \<Rightarrow> bool" where
  "blk_payload_of log payload \<longleftrightarrow> payload = blk_encode_log_payload log \<or> payload = [] \<and> log = []"

definition blk_view :: "externs \<Rightarrow> BlkMapRecord list \<Rightarrow> BlkMapRecord list" where
  "blk_view E log = latest_values E record_id log"

definition blk_cache_valid :: "externs \<Rightarrow> 'z blk_store_scheme \<Rightarrow> CachedBlkMap \<Rightarrow> bool" where
  "blk_cache_valid E s c \<longleftrightarrow>
     blk_map_cache s = Some c \<and> (trust_hot_cache E \<or> files s Blk_Map_File = Some (bm_stamp c))"

definition blk_rep_any :: "externs \<Rightarrow> 'z blk_store_scheme \<Rightarrow> BlkMapRecord list \<Rightarrow> bool" where
  "blk_rep_any E s log \<longleftrightarrow>
     (\<exists>h payload. sealed E s Blk_Map_File h payload \<and> kind h = KBlkMap \<and> blk_payload_of log payload \<and>
        (\<forall>c. blk_cache_valid E s c \<longrightarrow>
           blk_entry_ok c (blk_view E log) \<and> (bm_log_version c = 3 \<longrightarrow> payload \<noteq> []) \<and>
           (bm_log_version c \<noteq> 3 \<longrightarrow> log = []))) \<and>
     append_cache_ok E s Blk_Map_File \<and> list_all blk_wf log"

definition blk_rep :: "externs \<Rightarrow> 'z blk_store_scheme \<Rightarrow> BlkMapRecord list \<Rightarrow> bool" where
  "blk_rep E s log \<longleftrightarrow> blk_rep_any E s log \<and> length log \<le> MAX_MAINTENANCE_METADATA_RECORDS"

lemmas blk_rep_defs = blk_rep_def blk_rep_any_def

definition blk_frame :: "'z blk_store_scheme \<Rightarrow> 'z blk_store_scheme \<Rightarrow> bool" where
  "blk_frame s s' \<longleftrightarrow> others_same Blk_Map_File s s' \<and> blk_store.more s' = blk_store.more s"

lemma blk_frame_trans: "blk_frame s s' \<Longrightarrow> blk_frame s' s'' \<Longrightarrow> blk_frame s s''"
  by (auto simp: blk_frame_def intro: others_same_trans)

lemma segment_more_blk:
  "segment_store.more s' = segment_store.more s \<Longrightarrow>
     blk_map_cache s' = blk_map_cache s \<and> blk_store.more s' = blk_store.more s"
  by (cases s, cases s') simp

lemma frame_blk_frame: "frame Blk_Map_File s s' \<Longrightarrow> blk_frame s s'"
  by (auto simp: frame_def blk_frame_def dest: segment_more_blk)

lemma length_BLK_LOG_PREFIX [simp]: "length BLK_LOG_PREFIX = 4"
  by (simp add: BLK_LOG_PREFIX_def)

lemma length_blk_encode_log_payload [simp]: "length (blk_encode_log_payload rs) = 4 + 59 * length rs"
  using blk.length_concat_enc [of rs] by (simp add: blk_encode_log_payload_def BLK_LOG_PREFIX_def)

lemma blk_encode_log_payload_ne [simp]: "blk_encode_log_payload rs \<noteq> []" "[] \<noteq> blk_encode_log_payload rs"
  by (simp_all add: blk_encode_log_payload_def BLK_LOG_PREFIX_def)

lemma blk_decode_log:
  assumes "list_all blk_wf log" "length log \<le> MAX_MAINTENANCE_METADATA_RECORDS"
  shows "blk_decode_payload E (blk_encode_log_payload log) = Ok (sort_key logical_start (blk_view E log))"
proof -
  have pre: "starts_with (blk_encode_log_payload log) BLK_LOG_PREFIX"
    by (simp add: blk_encode_log_payload_def)
  have "drop (length BLK_LOG_PREFIX) (blk_encode_log_payload log) = concat (map blk_encode log)"
    by (simp add: blk_encode_log_payload_def)
  then have "blk_decode_log_payload E (blk_encode_log_payload log) =
      Ok (sort_key logical_start (blk_view E log))"
    using pre assms blk.decode_all [of log] blk.length_concat_enc [of log]
    by (simp add: blk_decode_log_payload_def Let_def blk_record_sizes blk_view_def
        checked_metadata_record_count_def del: length_concat bind_r_Ok)
  moreover have "blk_encode_log_payload log \<noteq> []"
    by (simp add: blk_encode_log_payload_def BLK_LOG_PREFIX_def)
  ultimately show ?thesis using pre by (simp add: blk_decode_payload_def)
qed

lemma blk_decode_payload_of:
  assumes "blk_payload_of log payload" "list_all blk_wf log" "length log \<le> MAX_MAINTENANCE_METADATA_RECORDS"
    and "hash_order_ok E"
  shows "blk_decode_payload E payload = Ok (sort_key logical_start (blk_view E log))"
proof (cases "payload = []")
  case True
  with assms(1) have "log = []" by (auto simp: blk_payload_of_def)
  with True show ?thesis using mset_latest_values_distinct [OF assms(4), of record_id "[] :: BlkMapRecord list"]
    by (simp add: blk_decode_payload_def blk_view_def)
next
  case False
  with assms show ?thesis by (simp add: blk_payload_of_def blk_decode_log)
qed

lemma blk_payload_length:
  "blk_payload_of log payload \<Longrightarrow> length log \<le> MAX_MAINTENANCE_METADATA_RECORDS \<Longrightarrow>
     length payload + 96 \<le> MAX_MAINTENANCE_METADATA_BYTES"
  by (auto simp: blk_payload_of_def MAX_MAINTENANCE_METADATA_RECORDS_def MAX_MAINTENANCE_METADATA_BYTES_def)

lemma blk_entry_ok_sorted:
  "blk_entry_ok \<lparr>bm_stamp = st, bm_sequence = sq, bm_records = sort_key logical_start rs,
     bm_record_index = build_record_index (sort_key logical_start rs),
     bm_next_record_id = next_record_id (sort_key logical_start rs), bm_log_version = v\<rparr> rs"
  by (simp add: blk_entry_ok_def)

lemma blk_log_version_of:
  "blk_payload_of log payload \<Longrightarrow>
     (block_map_log_version payload = 3 \<longrightarrow> payload \<noteq> []) \<and>
     (block_map_log_version payload \<noteq> 3 \<longrightarrow> log = [])"
  by (auto simp: blk_payload_of_def block_map_log_version_def blk_encode_log_payload_def
      starts_with_def BLK_LOG_PREFIX_def BLK_LOG_PREFIX_V2_def)

lemma blk_fresh:
  assumes rep: "blk_rep E s log" and hash: "hash_order_ok E"
  shows "\<exists>c s'. blk_ensure_cache_fresh E s = (Ok (), s') \<and> blk_rep E s' log \<and>
           blk_cache_valid E s' c \<and> s' = blk_map_cache_update (\<lambda>_. Some c) s"
proof -
  obtain h payload where se: "sealed E s Blk_Map_File h payload" "kind h = KBlkMap"
    and pl: "blk_payload_of log payload"
    and rest: "append_cache_ok E s Blk_Map_File" "list_all blk_wf log"
      "length log \<le> MAX_MAINTENANCE_METADATA_RECORDS"
    using rep by (auto simp: blk_rep_defs)
  obtain buf where buf: "files s Blk_Map_File = Some buf" using se by (auto simp: sealed_def shaped_def)
  show ?thesis
  proof (cases "\<exists>c. blk_cache_valid E s c")
    case True
    then obtain c where c: "blk_cache_valid E s c" ..
    then have "blk_ensure_cache_fresh E s = (Ok (), s)"
      by (auto simp: blk_ensure_cache_fresh_def blk_cache_valid_def blk_file_stamp_def bind_s_def buf)
    moreover have "s = blk_map_cache_update (\<lambda>_. Some c) s"
      using c by (cases s) (simp add: blk_cache_valid_def)
    ultimately show ?thesis using rep c by metis
  next
    case False
    let ?rs = "sort_key logical_start (blk_view E log)"
    let ?c = "\<lparr>bm_stamp = buf, bm_sequence = sequence h, bm_records = ?rs,
        bm_record_index = build_record_index ?rs, bm_next_record_id = next_record_id ?rs,
        bm_log_version = block_map_log_version payload\<rparr>"
    let ?s = "blk_map_cache_update (\<lambda>_. Some ?c) s"
    have rd: "read_segment_file_bounded E Blk_Map_File KBlkMap MAX_MAINTENANCE_METADATA_BYTES s =
        (Ok (h, payload), s)"
      using read_bounded_sealed [OF se] blk_payload_length [OF pl rest(3)] by simp
    have run: "blk_ensure_cache_fresh E s = (Ok (), ?s)"
      using False blk_decode_payload_of [OF pl rest(2,3) hash]
      by (auto simp: blk_ensure_cache_fresh_def blk_cache_valid_def blk_file_stamp_def bind_s_def buf
          blk_reload_def rd set_blk_cache_def)
    have "blk_cache_valid E ?s ?c" by (simp add: blk_cache_valid_def buf)
    moreover have "blk_rep E ?s log" unfolding blk_rep_defs
      using se pl rest blk_entry_ok_sorted blk_log_version_of [OF pl]
      by (auto simp: sealed_def shaped_def append_cache_ok_def blk_cache_valid_def intro!: exI [of _ h] exI [of _ payload])
    ultimately show ?thesis using run by metis
  qed
qed

lemma blk_entry_ok_mset: "mset rs = mset rs' \<Longrightarrow> blk_entry_ok c rs = blk_entry_ok c rs'"
  by (simp add: blk_entry_ok_def)

lemma blk_encode_log_snoc: "blk_encode_log_payload (log @ [r]) = blk_encode_log_payload log @ blk_encode r"
  by (simp add: blk_encode_log_payload_def)

lemma blk_view_snoc:
  assumes "hash_order_ok E" "record_id r \<notin> record_id ` set (blk_view E log)"
  shows "mset (blk_view E (log @ [r])) = mset (blk_view E log @ [r])"
proof -
  have "record_id ` set (blk_view E log) = record_id ` set log"
    using keys_latest_values [OF assms(1)] by (simp add: blk_view_def)
  then show ?thesis using assms mset_latest_values_snoc [of E record_id r log] by (simp add: blk_view_def)
qed

lemma blk_commit_run:
  assumes se: "sealed E s Blk_Map_File h (blk_encode_log_payload log)" and k: "kind h = KBlkMap"
    and ac: "append_cache_ok E s Blk_Map_File" and wf: "list_all blk_wf log" "blk_wf r"
    and room: "length log \<le> MAX_MAINTENANCE_METADATA_RECORDS"
    and c: "blk_map_cache s = Some c" "blk_entry_ok c (blk_view E log)"
    and r: "record_id r \<noteq> - 1" "record_id r \<notin> record_id ` set (blk_view E log)"
    and E: "hash_order_ok E" "crc_ok E" "integrity32 E (blk_encode_log_payload log) \<noteq> 0"
  shows "\<exists>s'. blk_commit_record E r s = (Ok r, s') \<and> blk_rep_any E s' (log @ [r]) \<and> blk_frame s s'"
proof -
  have len: "length BLK_LOG_PREFIX + length (blk_encode_log_payload log) + length (concat [blk_encode r]) + 96 < 2 ^ 64"
    using room by (simp add: MAX_MAINTENANCE_METADATA_RECORDS_def)
  have pre: "prefix BLK_LOG_PREFIX (blk_encode_log_payload log)" by (simp add: blk_encode_log_payload_def)
  obtain h' s1 where app: "append_segment_payload E Blk_Map_File KBlkMap 2 BLK_LOG_PREFIX (blk_encode r) s = (Ok h', s1)"
    and se1: "sealed E s1 Blk_Map_File h' (blk_encode_log_payload (log @ [r]))" "kind h' = KBlkMap"
    and ac1: "append_cache_ok E s1 Blk_Map_File" and fr: "frame Blk_Map_File s s1"
    using append_sealed [OF se k ac _ _ _ len E(2), of 2] pre E(3)
    by (auto simp: append_segment_payload_def write_all_parts_def appended_payload_def blk_encode_log_snoc
        simp flip: length_0_conv)
  have c1: "blk_map_cache s1 = Some c" using fr c(1) by (auto simp: frame_def dest: segment_more_blk)
  obtain n where n: "checked_add (record_id r) 1 = Some n"
  proof (cases "checked_add (record_id r) 1")
    case None
    then have "unat (record_id r) = 2 ^ 64 - 1"
      using unat_bound_le [of "record_id r"] by (simp add: checked_add_None)
    then show ?thesis using r(1) unat_max [where 'a=64] by (simp add: word_unat_eq_iff)
  qed auto
  let ?c = "blk_insert r (c\<lparr>bm_sequence := sequence h', bm_next_record_id := max (bm_next_record_id c) n\<rparr>)"
  obtain buf where buf: "files s1 Blk_Map_File = Some buf" using se1 by (auto simp: sealed_def shaped_def)
  let ?c' = "?c\<lparr>bm_stamp := (if trust_hot_cache E then bm_stamp ?c else buf), bm_log_version := 3\<rparr>"
  let ?s = "blk_map_cache_update (\<lambda>_. Some ?c') s1"
  have run: "blk_commit_record E r s = (Ok r, ?s)"
    using app c1 n buf
    by (simp add: blk_commit_record_def blk_cache_entry_def set_blk_cache_def blk_file_stamp_def Let_def)
  have "blk_entry_ok (c\<lparr>bm_sequence := sequence h'\<rparr>) (blk_view E log)"
    using c(2) by (simp add: blk_entry_ok_def)
  from blk_insert_ok [OF this n] have "blk_entry_ok ?c (blk_view E log @ [r])" by simp
  then have ok: "blk_entry_ok ?c' (blk_view E (log @ [r]))"
    using blk_view_snoc [OF E(1) r(2)] by (simp add: blk_entry_ok_def)
  have "blk_rep_any E ?s (log @ [r])"
    unfolding blk_rep_any_def
  proof (intro conjI exI [of _ h'] exI [of _ "blk_encode_log_payload (log @ [r])"] allI impI)
    show "sealed E ?s Blk_Map_File h' (blk_encode_log_payload (log @ [r]))"
      using se1 by (simp add: sealed_def shaped_def)
    show "append_cache_ok E ?s Blk_Map_File" using ac1 by (simp add: append_cache_ok_def shaped_def)
    fix x assume "blk_cache_valid E ?s x"
    then have x: "x = ?c'" by (simp add: blk_cache_valid_def)
    show "blk_entry_ok x (blk_view E (log @ [r]))" using ok x by metis
    show "blk_encode_log_payload (log @ [r]) \<noteq> []" by simp
    show "log @ [r] = []" if "bm_log_version x \<noteq> 3" using that x by simp
  qed (use se1 wf room in \<open>simp_all add: blk_payload_of_def\<close>)
  moreover have "blk_frame s ?s" using frame_blk_frame [OF fr] by (simp add: blk_frame_def others_same_def)
  ultimately show ?thesis using run by blast
qed

lemma blk_repE:
  assumes "blk_rep E s log"
  obtains h payload where "sealed E s Blk_Map_File h payload" "kind h = KBlkMap" "blk_payload_of log payload"
    "append_cache_ok E s Blk_Map_File" "list_all blk_wf log" "length log \<le> MAX_MAINTENANCE_METADATA_RECORDS"
    "\<And>c. blk_cache_valid E s c \<Longrightarrow> blk_entry_ok c (blk_view E log) \<and>
       (bm_log_version c = 3 \<longrightarrow> payload \<noteq> []) \<and> (bm_log_version c \<noteq> 3 \<longrightarrow> log = [])"
  using assms by (auto simp: blk_rep_defs)

lemma blk_view_Nil: "hash_order_ok E \<Longrightarrow> blk_view E [] = []"
  using mset_latest_values_distinct [of E record_id "[] :: BlkMapRecord list"] by (simp add: blk_view_def)

text \<open>The rewrite of an empty file to an empty log, before the first append.\<close>

lemma blk_rewrite_empty:
  assumes rep: "blk_rep E s []" and c: "blk_cache_valid E s c" and E: "hash_order_ok E"
  shows "\<exists>c' s'. bind_s (write_segment_file E Blk_Map_File KBlkMap 2 (blk_sequence (bm_records c))
             (blk_encode_log_payload (bm_records c))) (\<lambda>_. blk_ensure_cache_fresh E) s = (Ok (), s') \<and>
           (\<exists>h. sealed E s' Blk_Map_File h (blk_encode_log_payload []) \<and> kind h = KBlkMap) \<and>
           blk_rep E s' [] \<and> blk_cache_valid E s' c' \<and> blk_frame s s'"
proof -
  have ok: "blk_entry_ok c (blk_view E [])" using rep c by (auto elim: blk_repE)
  then have nil: "bm_records c = []" by (simp add: blk_entry_ok_def blk_view_Nil [OF E])
  let ?h = "header_new E KBlkMap 2 (blk_sequence []) (blk_encode_log_payload [])"
  let ?s = "s\<lparr>files := (files s)(Tmp Blk_Map_File := None,
                 Blk_Map_File := Some (segment_headers E ?h @ blk_encode_log_payload [])),
               append_file_cache := (append_file_cache s)(Blk_Map_File := None)\<rparr>"
  have se: "sealed E ?s Blk_Map_File ?h (blk_encode_log_payload [])"
    by (rule sealed_header_new) simp_all
  have "blk_rep E ?s []"
    unfolding blk_rep_defs
    by (intro conjI exI [of _ ?h] exI [of _ "blk_encode_log_payload []"] allI impI)
      (use se ok c in \<open>auto simp: blk_payload_of_def append_cache_ok_def blk_cache_valid_def\<close>)
  from blk_fresh [OF this E] obtain c' s' where fr: "blk_ensure_cache_fresh E ?s = (Ok (), s')"
    "blk_rep E s' []" "blk_cache_valid E s' c'" "s' = blk_map_cache_update (\<lambda>_. Some c') ?s" by blast
  have "sealed E s' Blk_Map_File ?h (blk_encode_log_payload [])"
    using se fr(4) by (simp add: sealed_def shaped_def)
  moreover have "blk_frame s s'" using fr(4) by (simp add: blk_frame_def others_same_def)
  ultimately show ?thesis using fr
    by (intro exI [of _ c'] exI [of _ s']) (auto simp: nil write_segment_file_run)
qed

lemma append_blk_run:
  fixes s :: "'z blk_store_scheme"
  assumes rep: "blk_rep E s log" and inv: "blk_inv (blk_view E log)"
    and r0: "record_id r0 = 0" "logical_start r0 < logical_end r0" "blk_wf r0"
    and free: "\<not> (\<exists>x\<in>set (blk_view E log). is_active x \<and> ranges_overlap x r0)"
    and id: "next_record_id (blk_view E log) \<noteq> - 1"
    and E: "hash_order_ok E" "crc_ok E" "integrity32 E (blk_encode_log_payload log) \<noteq> 0"
  shows "\<exists>s'. let r = r0\<lparr>record_id := next_record_id (blk_view E log)\<rparr> in
     append_blk_map_record E r0 s = (Ok r, s') \<and> blk_rep_any E s' (log @ [r]) \<and> blk_frame s s'"
proof -
  let ?r = "r0\<lparr>record_id := next_record_id (blk_view E log)\<rparr>"
  obtain c s1 where f1: "blk_ensure_cache_fresh E s = (Ok (), s1)" "blk_rep E s1 log"
    "blk_cache_valid E s1 c" "s1 = blk_map_cache_update (\<lambda>_. Some c) s"
    using blk_fresh [OF rep E(1)] by blast
  obtain h payload where p1: "sealed E s1 Blk_Map_File h payload" "kind h = KBlkMap" "blk_payload_of log payload"
    "append_cache_ok E s1 Blk_Map_File" "list_all blk_wf log" "blk_entry_ok c (blk_view E log)"
    "bm_log_version c = 3 \<longrightarrow> payload \<noteq> []" "bm_log_version c \<noteq> 3 \<longrightarrow> log = []"
    using f1(2,3) by (auto elim: blk_repE)
  have room: "length log \<le> MAX_MAINTENANCE_METADATA_RECORDS" using rep by (simp add: blk_rep_def)
  have cr: "mset (bm_records c) = mset (blk_view E log)" "sorted (map logical_start (bm_records c))"
    "bm_next_record_id c = next_record_id (bm_records c)"
    using p1(6) by (simp_all add: blk_entry_ok_def)
  then have nxt: "bm_next_record_id c = next_record_id (blk_view E log)"
    by (simp add: next_record_id_mset [OF cr(1)])
  have no: "\<not> overlaps_neighbours (bm_records c) r0"
    using overlaps_neighbours_iff [OF cr(2) _ r0(2)] inv free blk_inv_mset [OF cr(1)] mset_eq_setD [OF cr(1)]
    by simp
  have fresh: "record_id ?r \<notin> record_id ` set (blk_view E log)"
    using next_record_id_fresh [OF id] by force
  have fr1: "blk_frame s s1" using f1(4) by (simp add: blk_frame_def others_same_def)
  define fix_log :: "('z blk_store_scheme, StorageError, unit) stm" where "fix_log = (if bm_log_version c \<noteq> 3
      then bind_s (write_segment_file E Blk_Map_File KBlkMap 2 (blk_sequence (bm_records c))
                     (blk_encode_log_payload (bm_records c))) (\<lambda>_. blk_ensure_cache_fresh E)
      else ret_s ())"
  have "\<exists>c2 s2 h2. fix_log s1 = (Ok (), s2) \<and> sealed E s2 Blk_Map_File h2 (blk_encode_log_payload log) \<and>
      kind h2 = KBlkMap \<and> blk_rep E s2 log \<and> blk_cache_valid E s2 c2 \<and> blk_frame s1 s2"
  proof (cases "bm_log_version c = 3")
    case True
    then have "payload = blk_encode_log_payload log" using p1(3,7) by (auto simp: blk_payload_of_def)
    then show ?thesis using True p1(1,2) f1(2,3)
      by (intro exI [of _ c] exI [of _ s1] exI [of _ h]) (simp add: fix_log_def blk_frame_def)
  next
    case False
    then have nil: "log = []" using p1(8) by simp
    have "blk_rep E s1 []" using f1(2) nil by simp
    from blk_rewrite_empty [OF this f1(3) E(1)] False nil show ?thesis by (auto simp: fix_log_def)
  qed
  then obtain c2 s2 h2 where f2: "fix_log s1 = (Ok (), s2)" "sealed E s2 Blk_Map_File h2 (blk_encode_log_payload log)"
    "kind h2 = KBlkMap" "blk_rep E s2 log" "blk_cache_valid E s2 c2" "blk_frame s1 s2" by blast
  have c2: "blk_map_cache s2 = Some c2" "blk_entry_ok c2 (blk_view E log)" "append_cache_ok E s2 Blk_Map_File"
    using f2(4,5) by (auto simp: blk_cache_valid_def elim: blk_repE)
  obtain s3 where f3: "blk_commit_record E ?r s2 = (Ok ?r, s3)" "blk_rep_any E s3 (log @ [?r])" "blk_frame s2 s3"
    using blk_commit_run [OF f2(2,3) c2(3) p1(5) _ room c2(1,2) _ fresh E] id r0(3)
    by (auto simp: blk_wf_def)
  have "append_blk_map_record E r0 s = blk_commit_record E ?r s2"
    using f1(1,3) no r0(1) nxt id f2(1) unfolding append_blk_map_record_def
    by (simp add: blk_cache_entry_def blk_cache_valid_def Let_def flip: fix_log_def)
  then show ?thesis using f3 fr1 f2(6) by (auto simp: Let_def intro: blk_frame_trans)
qed

lemma append_blk_conflict:
  assumes rep: "blk_rep E s log" and inv: "blk_inv (blk_view E log)" and ne: "logical_start r0 < logical_end r0"
    and clash: "x \<in> set (blk_view E log)" "is_active x" "ranges_overlap x r0" and hash: "hash_order_ok E"
  shows "\<exists>s'. append_blk_map_record E r0 s = (Err (Conflict ''active logical range overlap''), s') \<and>
           blk_rep E s' log \<and> blk_frame s s'"
proof -
  obtain c s1 where f1: "blk_ensure_cache_fresh E s = (Ok (), s1)" "blk_rep E s1 log"
    "blk_cache_valid E s1 c" "s1 = blk_map_cache_update (\<lambda>_. Some c) s"
    using blk_fresh [OF rep hash] by blast
  have "blk_entry_ok c (blk_view E log)" using f1(2,3) by (auto elim: blk_repE)
  then have cr: "mset (bm_records c) = mset (blk_view E log)" "sorted (map logical_start (bm_records c))"
    by (simp_all add: blk_entry_ok_def)
  have "overlaps_neighbours (bm_records c) r0"
    using overlaps_neighbours_iff [OF cr(2) _ ne] inv clash blk_inv_mset [OF cr(1)] mset_eq_setD [OF cr(1)]
    by auto
  then have "append_blk_map_record E r0 s = (Err (Conflict ''active logical range overlap''), s1)"
    using f1(1,3) by (simp add: append_blk_map_record_def blk_cache_entry_def blk_cache_valid_def)
  moreover have "blk_frame s s1" using f1(4) by (simp add: blk_frame_def others_same_def)
  ultimately show ?thesis using f1(2) by blast
qed

section \<open>Locating a block\<close>

lemma build_record_index_Some:
  assumes "build_record_index rs i = Some n"
  shows "n < length rs \<and> record_id (rs ! n) = i"
proof -
  have "(i, n) \<in> set (zip (map record_id rs) [0..<length rs])"
    using assms map_of_SomeD [of "rev (zip (map record_id rs) [0..<length rs])" i n]
    by (simp add: build_record_index_def)
  then show ?thesis by (auto simp: set_zip)
qed

lemma blk_inv_covers_unique:
  assumes "blk_inv rs" "a \<in> set rs" "b \<in> set rs" "is_active a" "is_active b" "covers n a" "covers n b"
  shows "a = b"
proof -
  have "ranges_overlap a b" using assms by (auto simp: covers_def ranges_overlap_def intro: le_less_trans)
  then have "record_id a = record_id b" using assms by (auto simp: blk_inv_def)
  moreover have "inj_on record_id (set rs)" using assms(1) by (simp add: blk_inv_def distinct_map)
  ultimately show ?thesis using assms by (auto dest: inj_onD)
qed

lemma find_unique:
  assumes "\<And>a b. a \<in> set xs \<Longrightarrow> b \<in> set xs \<Longrightarrow> P a \<Longrightarrow> P b \<Longrightarrow> a = b"
  shows "find P xs = Some x \<longleftrightarrow> x \<in> set xs \<and> P x"
proof
  assume "find P xs = Some x"
  then show "x \<in> set xs \<and> P x" by (auto simp: find_Some_iff)
next
  assume x: "x \<in> set xs \<and> P x"
  then obtain y where y: "find P xs = Some y" by (cases "find P xs") (auto simp: find_None_iff)
  then have "y \<in> set xs \<and> P y" by (auto simp: find_Some_iff)
  with assms x y show "find P xs = Some x" by metis
qed

lemma locate_in_records_iff:
  assumes ok: "blk_entry_ok c rs" and inv: "blk_inv rs"
  shows "locate_in_records c b lo hi = Some r \<longleftrightarrow>
     r \<in> set rs \<and> is_active r \<and> covers b r \<and> lo \<le> record_id r \<and> record_id r \<le> hi"
proof -
  let ?P = "\<lambda>r. is_active r \<and> lo \<le> record_id r \<and> record_id r \<le> hi \<and> covers b r"
  have set_eq: "set (bm_records c) = set rs" using ok mset_eq_setD by (auto simp: blk_entry_ok_def)
  have scan: "find ?P (bm_records c) = Some r \<longleftrightarrow> r \<in> set rs \<and> ?P r"
    using find_unique [of "bm_records c" ?P r] blk_inv_covers_unique [OF inv] set_eq by blast
  show ?thesis
  proof (cases "\<exists>i. lo = hi \<and> bm_record_index c lo = Some i \<and> i < length (bm_records c) \<and>
      is_active (bm_records c ! i) \<and> covers b (bm_records c ! i)")
    case True
    then obtain i where i: "lo = hi" "bm_record_index c lo = Some i" "i < length (bm_records c)"
      "is_active (bm_records c ! i)" "covers b (bm_records c ! i)" by blast
    let ?x = "bm_records c ! i"
    have x: "?x \<in> set rs" "record_id ?x = lo"
      using i ok build_record_index_Some [of "bm_records c" lo i] set_eq nth_mem [OF i(3)]
      by (auto simp: blk_entry_ok_def)
    have "locate_in_records c b lo hi = Some ?x" using i by (simp add: locate_in_records_def)
    then show ?thesis using x i blk_inv_covers_unique [OF inv _ x(1)] by auto
  next
    case False
    then have "locate_in_records c b lo hi = find ?P (bm_records c)"
      by (auto simp: locate_in_records_def Let_def split: option.splits)
    then show ?thesis using scan by auto
  qed
qed

lemma locate_active_run:
  assumes rep: "blk_rep E s log" and inv: "blk_inv (blk_view E log)" and hash: "hash_order_ok E"
  shows "\<exists>res s'. locate_active_record E b lo hi s = (Ok res, s') \<and> blk_rep E s' log \<and> blk_frame s s' \<and>
     (\<forall>r. res = Some r \<longleftrightarrow> r \<in> set (blk_view E log) \<and> is_active r \<and> covers b r \<and>
            lo \<le> record_id r \<and> record_id r \<le> hi)"
proof -
  obtain c s1 where f1: "blk_ensure_cache_fresh E s = (Ok (), s1)" "blk_rep E s1 log"
    "blk_cache_valid E s1 c" "s1 = blk_map_cache_update (\<lambda>_. Some c) s"
    using blk_fresh [OF rep hash] by blast
  have "blk_entry_ok c (blk_view E log)" using f1(2,3) by (auto elim: blk_repE)
  then have "\<forall>r. locate_in_records c b lo hi = Some r \<longleftrightarrow> r \<in> set (blk_view E log) \<and> is_active r \<and>
      covers b r \<and> lo \<le> record_id r \<and> record_id r \<le> hi"
    using locate_in_records_iff inv by blast
  moreover have "locate_active_record E b lo hi s = (Ok (locate_in_records c b lo hi), s1)"
    using f1(1,3) by (simp add: locate_active_record_def blk_cache_entry_def blk_cache_valid_def)
  moreover have "blk_frame s s1" using f1(4) by (simp add: blk_frame_def others_same_def)
  ultimately show ?thesis using f1(2) by blast
qed

section \<open>Marking records stale\<close>

definition stale_of :: "u64 set \<Rightarrow> BlkMapRecord \<Rightarrow> BlkMapRecord" where
  "stale_of ids r = (if record_id r \<in> ids then r\<lparr>blk_state := Stale\<rparr> else r)"

lemma replace_record_map:
  "distinct (map record_id rs) \<Longrightarrow>
     replace_record u rs = map (\<lambda>r. if record_id r = record_id u then u else r) rs"
proof (induction rs)
  case (Cons r rs)
  have "record_id r = record_id u \<Longrightarrow> map (\<lambda>r. if record_id r = record_id u then u else r) rs = rs"
    using Cons.prems by (auto intro!: map_idI) (force simp: image_iff)
  with Cons show ?case by auto
qed simp

lemma blk_view_update:
  assumes "hash_order_ok E" "mset rs = mset (blk_view E log)" "distinct (map record_id rs)"
    and "record_id u \<in> record_id ` set rs"
  shows "mset (replace_record u rs) = mset (blk_view E (log @ [u]))"
    and "distinct (map record_id (replace_record u rs))"
    and "record_id ` set (replace_record u rs) = record_id ` set rs"
proof -
  have "record_id u \<in> record_id ` set log"
    using assms(4) mset_eq_setD [OF assms(2)] keys_latest_values [OF assms(1), of record_id log]
    by (simp add: blk_view_def)
  from mset_latest_values_update [of E record_id u log, OF assms(1) this]
  show "mset (replace_record u rs) = mset (blk_view E (log @ [u]))"
    using assms(2,3) by (simp add: replace_record_map blk_view_def)
  have "map record_id (replace_record u rs) = map record_id rs"
    using assms(3) by (simp add: replace_record_map)
  then show "distinct (map record_id (replace_record u rs))"
    "record_id ` set (replace_record u rs) = record_id ` set rs"
    using assms(3) by (simp_all flip: set_map)
qed

lemma blk_view_updates:
  assumes "hash_order_ok E" "mset rs = mset (blk_view E log)" "distinct (map record_id rs)"
    and "record_id ` set ups \<subseteq> record_id ` set rs"
  shows "mset (fold replace_record ups rs) = mset (blk_view E (log @ ups))"
  using assms(2-)
proof (induction ups arbitrary: rs log)
  case (Cons u ups)
  from blk_view_update [OF assms(1) Cons.prems(1,2), of u] Cons.prems(3)
  have "mset (fold replace_record ups (replace_record u rs)) = mset (blk_view E ((log @ [u]) @ ups))"
    by (intro Cons.IH) auto
  then show ?case by simp
qed simp

lemma fold_replace_stale:
  assumes "distinct (map record_id rs)"
  shows "fold replace_record (map (\<lambda>r. r\<lparr>blk_state := Stale\<rparr>) (filter (\<lambda>r. record_id r \<in> ids) rs)) rs
    = map (stale_of ids) rs"
proof -
  have gen: "fold replace_record (map (\<lambda>r. r\<lparr>blk_state := Stale\<rparr>) (filter (\<lambda>r. record_id r \<in> ids) us)) xs
      = map (\<lambda>r. if record_id r \<in> ids \<and> r \<in> set us then r\<lparr>blk_state := Stale\<rparr> else r) xs"
    if "distinct (map record_id xs)" "set us \<subseteq> set xs" "distinct us" for us xs
    using that
  proof (induction us rule: rev_induct)
    case (snoc u us)
    have inj: "r \<in> set xs \<Longrightarrow> record_id r = record_id u \<Longrightarrow> r = u" for r
      using snoc.prems by (auto simp: distinct_map dest: inj_onD)
    let ?f = "\<lambda>r. if record_id r \<in> ids \<and> r \<in> set us then r\<lparr>blk_state := Stale\<rparr> else r"
    have IH: "fold replace_record (map (\<lambda>r. r\<lparr>blk_state := Stale\<rparr>) (filter (\<lambda>r. record_id r \<in> ids) us)) xs
        = map ?f xs" using snoc by simp
    have "record_id \<circ> ?f = record_id" by (rule ext) simp
    then have d: "distinct (map record_id (map ?f xs))" using snoc.prems(1) by simp
    show ?case
    proof (cases "record_id u \<in> ids")
      case True
      have "fold replace_record (map (\<lambda>r. r\<lparr>blk_state := Stale\<rparr>) (filter (\<lambda>r. record_id r \<in> ids) (us @ [u]))) xs
          = replace_record (u\<lparr>blk_state := Stale\<rparr>) (map ?f xs)" using True IH by simp
      also have "\<dots> = map (\<lambda>r. if record_id r \<in> ids \<and> r \<in> set (us @ [u]) then r\<lparr>blk_state := Stale\<rparr> else r) xs"
        unfolding replace_record_map [OF d] map_map
        by (rule map_cong) (use True inj in auto)
      finally show ?thesis .
    next
      case False
      then show ?thesis using IH inj by auto
    qed
  qed simp
  show ?thesis using gen [of rs rs] assms by (auto simp: stale_of_def distinct_map)
qed

lemma blk_encode_ne [simp]: "blk_encode r \<noteq> []"
  using length_blk_encode [of r] by (metis list.size(3) zero_neq_numeral)

lemma length_filter_ids:
  assumes "distinct (map record_id rs)" "ids \<subseteq> record_id ` set rs"
  shows "length (filter (\<lambda>r. record_id r \<in> ids) rs) = card ids"
proof -
  let ?xs = "filter (\<lambda>r. record_id r \<in> ids) rs"
  have "distinct (map record_id ?xs)" using assms(1) by (rule distinct_map_filter)
  then have "card (record_id ` set ?xs) = length ?xs" by (metis distinct_card length_map set_map)
  moreover have "record_id ` set ?xs = ids" using assms(2) by auto
  ultimately show ?thesis by simp
qed

lemma blk_update_cache_run:
  assumes "files s Blk_Map_File = Some buf"
  shows "blk_update_cache sq rs s = (Ok (), blk_map_cache_update (\<lambda>_. Some
     \<lparr>bm_stamp = buf, bm_sequence = sq, bm_records = rs, bm_record_index = build_record_index rs,
      bm_next_record_id = next_record_id rs, bm_log_version = 3\<rparr>) s)"
  using assms by (simp add: blk_update_cache_def blk_file_stamp_def set_blk_cache_def)

text \<open>After the cache was set to the latest records of the log that the file holds, all agrees.\<close>

lemma blk_rep_updated:
  assumes "sealed E s Blk_Map_File h (blk_encode_log_payload log)" "kind h = KBlkMap"
    and "append_cache_ok E s Blk_Map_File" "list_all blk_wf log"
    and "length log \<le> MAX_MAINTENANCE_METADATA_RECORDS"
    and rs: "mset rs = mset (blk_view E log)" "sorted (map logical_start rs)"
  shows "\<exists>s'. blk_update_cache sq rs s = (Ok (), s') \<and> blk_rep E s' log \<and> blk_frame s s'"
proof -
  obtain buf where buf: "files s Blk_Map_File = Some buf" using assms(1) by (auto simp: sealed_def shaped_def)
  let ?c = "\<lparr>bm_stamp = buf, bm_sequence = sq, bm_records = rs, bm_record_index = build_record_index rs,
      bm_next_record_id = next_record_id rs, bm_log_version = 3\<rparr>"
  let ?s = "blk_map_cache_update (\<lambda>_. Some ?c) s"
  have "sealed E ?s Blk_Map_File h (blk_encode_log_payload log)" "append_cache_ok E ?s Blk_Map_File"
    using assms by (simp_all add: sealed_def shaped_def append_cache_ok_def)
  moreover have "blk_entry_ok ?c (blk_view E log)" using rs by (simp add: blk_entry_ok_def)
  ultimately have "blk_rep E ?s log" using assms unfolding blk_rep_defs
    by (intro conjI exI [of _ h] exI [of _ "blk_encode_log_payload log"])
      (auto simp: blk_payload_of_def blk_cache_valid_def)
  moreover have "blk_frame s ?s" by (simp add: blk_frame_def others_same_def)
  ultimately show ?thesis using blk_update_cache_run [OF buf] by blast
qed

lemma mark_stale_run:
  assumes rep: "blk_rep E s log" and ids: "record_ids \<noteq> []" "set record_ids \<subseteq> record_id ` set (blk_view E log)"
    and room: "length log + card (set record_ids) \<le> MAX_MAINTENANCE_METADATA_RECORDS"
    and E: "hash_order_ok E" "crc_ok E" "integrity32 E (blk_encode_log_payload log) \<noteq> 0"
  shows "\<exists>ups s'. mark_blk_map_stale_batch E record_ids s = (Ok ups, s') \<and> blk_rep E s' (log @ ups) \<and>
     mset (blk_view E (log @ ups)) = mset (map (stale_of (set record_ids)) (blk_view E log)) \<and>
     length ups = card (set record_ids) \<and> blk_frame s s'"
proof -
  obtain c s1 where f1: "blk_ensure_cache_fresh E s = (Ok (), s1)" "blk_rep E s1 log"
    "blk_cache_valid E s1 c" "s1 = blk_map_cache_update (\<lambda>_. Some c) s"
    using blk_fresh [OF rep E(1)] by blast
  obtain h payload where p1: "sealed E s1 Blk_Map_File h payload" "kind h = KBlkMap" "blk_payload_of log payload"
    "append_cache_ok E s1 Blk_Map_File" "list_all blk_wf log" "blk_entry_ok c (blk_view E log)"
    using f1(2,3) by (auto elim: blk_repE)
  let ?rs = "bm_records c"
  have cr: "mset ?rs = mset (blk_view E log)" using p1(6) by (simp add: blk_entry_ok_def)
  have "distinct (map record_id (blk_view E log))" by (simp add: blk_view_def distinct_keys_latest_values [OF E(1)])
  then have dist: "distinct (map record_id ?rs)"
    using mset_eq_imp_distinct_iff [of "map record_id ?rs" "map record_id (blk_view E log)"] cr by simp
  define ups where "ups = map (\<lambda>r. r\<lparr>blk_state := Stale\<rparr>) (filter (\<lambda>r. record_id r \<in> set record_ids) ?rs)"
  have sub: "set record_ids \<subseteq> record_id ` set ?rs" using ids(2) mset_eq_setD [OF cr] by simp
  have len: "length ups = card (set record_ids)" using length_filter_ids [OF dist sub] by (simp add: ups_def)
  have "log \<noteq> []" using ids blk_view_Nil [OF E(1)] by auto
  then have pl: "payload = blk_encode_log_payload log" using p1(3) by (simp add: blk_payload_of_def)
  have fmt: "blk_ensure_log_format E ?rs s1 = (Ok (), s1)"
    using read_bounded_sealed [OF p1(1,2)] blk_payload_length [OF p1(3)] room pl
    by (simp add: blk_ensure_log_format_def) (simp add: blk_encode_log_payload_def)
  have wf_ups: "list_all blk_wf ups"
  proof -
    have "list_all blk_wf (blk_view E log)"
      using p1(5) by (auto simp: blk_view_def list_all_iff set_latest_values [OF E(1)] find_Some_iff)
        (metis length_rev nth_mem set_rev)
    then show ?thesis using mset_eq_setD [OF cr] by (auto simp: ups_def list_all_iff blk_wf_def)
  qed
  have "ups \<noteq> []" using len ids(1) by (metis List.finite_set card_eq_0_iff length_0_conv set_empty)
  then have ne: "concat [concat (map blk_encode ups)] \<noteq> []"
    by (cases ups) simp_all
  have size: "length BLK_LOG_PREFIX + length payload + length (concat [concat (map blk_encode ups)]) + 96 < 2 ^ 64"
    using room pl len blk.length_concat_enc [of ups] by (simp add: MAX_MAINTENANCE_METADATA_RECORDS_def)
  have pre: "prefix BLK_LOG_PREFIX payload" by (simp add: pl blk_encode_log_payload_def)
  obtain h' s2 where app: "append_segment_payload E Blk_Map_File KBlkMap 2 BLK_LOG_PREFIX (concat (map blk_encode ups)) s1 = (Ok h', s2)"
    and se2: "sealed E s2 Blk_Map_File h' (blk_encode_log_payload (log @ ups))" "kind h' = KBlkMap"
    and ac2: "append_cache_ok E s2 Blk_Map_File" and fr: "frame Blk_Map_File s1 s2"
    using append_sealed [OF p1(1,2,4) _ _ ne size E(2), of 2] pre E(3) pl
    by (auto simp: append_segment_payload_def write_all_parts_def appended_payload_def
        blk_encode_log_payload_def BLK_LOG_PREFIX_def)
  let ?new = "sort_key logical_start (fold replace_record ups ?rs)"
  have ids_ups: "record_id ` set ups \<subseteq> record_id ` set ?rs" by (auto simp: ups_def)
  have new: "mset ?new = mset (blk_view E (log @ ups))"
    using blk_view_updates [OF E(1) cr dist ids_ups] by simp
  obtain s3 where s3: "blk_update_cache (sequence h') ?new s2 = (Ok (), s3)" "blk_rep E s3 (log @ ups)" "blk_frame s2 s3"
    using blk_rep_updated [OF se2 ac2 _ _ new] p1(5) wf_ups len room by auto
  have run: "mark_blk_map_stale_batch E record_ids s = (Ok ups, s3)"
    using f1(1,3) ids(1) len fmt app s3(1)
    by (simp add: mark_blk_map_stale_batch_def load_blk_map_records_def blk_cache_entry_def
        blk_cache_valid_def Let_def ups_def)
  have "mset (blk_view E (log @ ups)) = mset (map (stale_of (set record_ids)) (blk_view E log))"
    using new fold_replace_stale [OF dist, of "set record_ids"] cr by (simp flip: ups_def)
  moreover have "blk_frame s s3"
    using f1(4) frame_blk_frame [OF fr] s3(3) by (auto simp: blk_frame_def others_same_def)
  ultimately show ?thesis using run s3(2) len by blast
qed

section \<open>The metadata budget\<close>

text \<open>A log with more records than the budget allows is refused when it is read.\<close>

lemma reload_over_budget:
  assumes rep: "blk_rep_any E s log" and over: "MAX_MAINTENANCE_METADATA_RECORDS < length log"
    and cache: "blk_map_cache s = None"
  shows "load_blk_map_records E s = (Err MetadataBudgetExceeded, s)"
proof -
  obtain h payload where p: "sealed E s Blk_Map_File h payload" "kind h = KBlkMap" "blk_payload_of log payload"
    using rep by (auto simp: blk_rep_any_def)
  have pl: "payload = blk_encode_log_payload log" using p(3) over by (auto simp: blk_payload_of_def)
  obtain buf where buf: "files s Blk_Map_File = Some buf" "length buf = 96 + length payload"
    using p(1) by (auto simp: sealed_def shaped_def length_segment_headers)
  have dec: "blk_decode_payload E payload = Err MetadataBudgetExceeded"
  proof -
    have "starts_with payload BLK_LOG_PREFIX" by (simp add: pl blk_encode_log_payload_def)
    moreover have "drop 4 payload = concat (map blk_encode log)"
      by (simp add: pl blk_encode_log_payload_def BLK_LOG_PREFIX_def)
    ultimately show ?thesis using over blk.length_concat_enc [of log] pl
      by (simp add: blk_decode_payload_def blk_decode_log_payload_def blk_record_sizes Let_def
          checked_metadata_record_count_def del: length_concat bind_r_Ok)
  qed
  have "read_segment_file_bounded E Blk_Map_File KBlkMap MAX_MAINTENANCE_METADATA_BYTES s =
      (if length buf > MAX_MAINTENANCE_METADATA_BYTES then (Err MetadataBudgetExceeded, s)
       else (Ok (h, payload), s))"
    using p(1,2) buf sealed_validate [OF p(1)]
    by (simp add: read_segment_file_bounded_def sealed_def shaped_def decode_segment_file_bytes_headers)
  then have "blk_ensure_cache_fresh E s = (Err MetadataBudgetExceeded, s)"
    using cache dec buf
    by (simp add: blk_ensure_cache_fresh_def blk_file_stamp_def blk_reload_def bind_s_def split: if_splits)
  then show ?thesis by (simp add: load_blk_map_records_def)
qed

section \<open>Properties\<close>

text \<open>A store whose block map file holds a given log and whose caches are empty.\<close>

definition sample_blk_store :: "BlkMapRecord list \<Rightarrow> blk_store" where
  "sample_blk_store log =
     \<lparr>files = (\<lambda>_. None)(Blk_Map_File := Some (segment_headers plain_externs
        (header_new plain_externs KBlkMap 2 1 (blk_encode_log_payload log)) @ blk_encode_log_payload log)),
      append_file_cache = (\<lambda>_. None), blk_map_cache = None\<rparr>"

definition sample_blk :: "u64 \<Rightarrow> u64 \<Rightarrow> u32 \<Rightarrow> BlkMapRecord" where
  "sample_blk i start len =
     \<lparr>record_id = i, logical_start = start, logical_len = len, physical_segment_id = 1, physical_offset = 1,
      filemark_count = 0, blk_state = Active, dedup_entry_id = 0, compression = CodecNone,
      compressed_len = len, payload_checksum = 5, payload_checksum_algorithm = Crc32c\<rparr>"

lemma blk_rep_any_file:
  assumes "list_all blk_wf log" "length log < 2 ^ 32" "files s Blk_Map_File = files (sample_blk_store log) Blk_Map_File"
    "append_file_cache s Blk_Map_File = None" "blk_map_cache s = None"
  shows "blk_rep_any plain_externs s log"
proof -
  have "sealed plain_externs s Blk_Map_File
      (header_new plain_externs KBlkMap 2 1 (blk_encode_log_payload log)) (blk_encode_log_payload log)"
    using assms(2,3) by (intro sealed_header_new) (simp_all add: sample_blk_store_def)
  then show ?thesis unfolding blk_rep_any_def using assms(1,4,5)
    by (intro conjI exI [of _ "header_new plain_externs KBlkMap 2 1 (blk_encode_log_payload log)"]
        exI [of _ "blk_encode_log_payload log"])
      (auto simp: blk_payload_of_def blk_cache_valid_def append_cache_ok_def)
qed

lemma sample_blk_rep_any:
  "list_all blk_wf log \<Longrightarrow> length log < 2 ^ 32 \<Longrightarrow> blk_rep_any plain_externs (sample_blk_store log) log"
  by (rule blk_rep_any_file) (simp_all add: sample_blk_store_def)

lemma sample_blk_view: "distinct (map record_id log) \<Longrightarrow> blk_view plain_externs log = log"
proof -
  assume d: "distinct (map record_id log)"
  have "map_of (map (\<lambda>r. (record_id r, r)) log) (record_id r) = Some r" if "r \<in> set log" for r
    using that d by (simp add: comp_def)
  then have "map (\<lambda>r. the (map_of (map (\<lambda>r. (record_id r, r)) log) (record_id r))) log = log"
    by (intro map_idI) simp
  then show ?thesis
    using d by (simp add: blk_view_def latest_values_def latest_by_distinct hash_values_def plain_externs_def comp_def)
qed

lemma sample_blk_simps [simp]:
  "record_id (sample_blk i a n) = i" "logical_start (sample_blk i a n) = a"
  "logical_end (sample_blk i a n) = saturating_add a (ucast n)" "is_active (sample_blk i a n)"
  "blk_wf (sample_blk i a n)" "sample_blk i a n\<lparr>record_id := j\<rparr> = sample_blk j a n"
  by (simp_all add: sample_blk_def logical_end_def is_active_def blk_wf_def)

lemma sample_blk_crc:
  "length log < 2 ^ 16 \<Longrightarrow> integrity32 plain_externs (blk_encode_log_payload log) \<noteq> 0"
  by (rule plain_integrity32_ne, simp_all) (simp add: blk_encode_log_payload_def BLK_LOG_PREFIX_def)

text \<open>
  C12: The overlap check of an append looks at the nearest active record on each
  side only; on a sorted table of disjoint records this decides whether any
  active record overlaps the new range.
\<close>

theorem overlap_check_equivalent:
  assumes "sorted (map logical_start rs)" "blk_inv rs" "logical_start r < logical_end r"
  shows "overlaps_neighbours rs r \<longleftrightarrow> (\<exists>x\<in>set rs. is_active x \<and> ranges_overlap x r)"
  using overlaps_neighbours_iff [OF assms] .

theorem overlap_check_equivalent_witness:
  "overlaps_neighbours [sample_blk 1 0 10, sample_blk 2 20 10] (sample_blk 0 5 3) \<longleftrightarrow>
     (\<exists>x\<in>set [sample_blk 1 0 10, sample_blk 2 20 10]. is_active x \<and> ranges_overlap x (sample_blk 0 5 3))"
  by (rule overlap_check_equivalent)
    (simp_all add: blk_inv_def ranges_overlap_def saturating_add_def)

lemma append_blk_step:
  assumes "blk_rep E s log" "blk_inv (blk_view E log)"
    and "record_id r0 = 0" "logical_start r0 < logical_end r0" "blk_wf r0"
    and "\<not> (\<exists>x\<in>set (blk_view E log). is_active x \<and> ranges_overlap x r0)"
    and "next_record_id (blk_view E log) \<noteq> - 1"
    and "hash_order_ok E" "crc_ok E" "integrity32 E (blk_encode_log_payload log) \<noteq> 0"
    and "r = r0\<lparr>record_id := next_record_id (blk_view E log)\<rparr>"
  shows "\<exists>s'. append_blk_map_record E r0 s = (Ok r, s') \<and> blk_frame s s' \<and>
     mset (blk_view E (log @ [r])) = add_mset r (mset (blk_view E log)) \<and> blk_inv (blk_view E (log @ [r])) \<and>
     (length log < MAX_MAINTENANCE_METADATA_RECORDS \<longrightarrow> blk_rep E s' (log @ [r]))"
proof -
  obtain s' where run: "append_blk_map_record E r0 s = (Ok r, s')" "blk_rep_any E s' (log @ [r])" "blk_frame s s'"
    using append_blk_run [OF assms(1-10)] unfolding assms(11) Let_def by blast
  have fresh: "record_id r \<notin> record_id ` set (blk_view E log)"
    using next_record_id_fresh [OF assms(7)] by (force simp: assms(11))
  have view: "mset (blk_view E (log @ [r])) = mset (blk_view E log @ [r])"
    using blk_view_snoc [OF assms(8) fresh] .
  moreover have "blk_inv (blk_view E log @ [r])"
    using blk_inv_add [OF assms(2) fresh] assms(4,6) by (simp add: assms(11) ranges_overlap_def logical_end_def)
  ultimately show ?thesis using run blk_inv_mset [OF view] by (auto simp: blk_rep_def)
qed

text \<open>
  C6: Appending a record with a free identifier and a range that overlaps no
  active record succeeds: the log grows by the record under the next free
  identifier, the file and the cache agree with the grown log, the records are
  the old ones and the new one, they stay disjoint with distinct identifiers,
  and nothing outside the block map changes.  While the log stays within the
  metadata budget it can be loaded again.
\<close>

theorem append_blk_extends:
  assumes "blk_rep E s log" "blk_inv (blk_view E log)"
    and "record_id r0 = 0" "logical_start r0 < logical_end r0" "blk_wf r0"
    and "\<not> (\<exists>x\<in>set (blk_view E log). is_active x \<and> ranges_overlap x r0)"
    and "next_record_id (blk_view E log) \<noteq> - 1"
    and "hash_order_ok E" "crc_ok E" "integrity32 E (blk_encode_log_payload log) \<noteq> 0"
    and "r = r0\<lparr>record_id := next_record_id (blk_view E log)\<rparr>"
  shows "\<exists>s'. append_blk_map_record E r0 s = (Ok r, s') \<and> blk_frame s s' \<and>
     mset (blk_view E (log @ [r])) = add_mset r (mset (blk_view E log)) \<and> blk_inv (blk_view E (log @ [r])) \<and>
     (length log < MAX_MAINTENANCE_METADATA_RECORDS \<longrightarrow> blk_rep E s' (log @ [r]))"
  using append_blk_step [OF assms] .

theorem append_blk_extends_witness:
  "\<exists>s'. append_blk_map_record plain_externs (sample_blk 0 10 5) (sample_blk_store [sample_blk 1 0 10]) =
      (Ok (sample_blk 2 10 5), s') \<and> blk_rep plain_externs s' [sample_blk 1 0 10, sample_blk 2 10 5]"
proof -
  let ?log = "[sample_blk 1 0 10]"
  have view: "blk_view plain_externs ?log = ?log" by (rule sample_blk_view) simp
  have rep: "blk_rep plain_externs (sample_blk_store ?log) ?log"
    using sample_blk_rep_any [of ?log] by (simp add: blk_rep_def MAX_MAINTENANCE_METADATA_RECORDS_def)
  have nid: "next_record_id ?log = 2"
    by (simp add: next_record_id_def next_id_def saturating_add_def)
  have "blk_inv ?log" "\<not> (\<exists>x\<in>set ?log. is_active x \<and> ranges_overlap x (sample_blk 0 10 5))"
    by (simp_all add: blk_inv_def ranges_overlap_def saturating_add_def)
  with append_blk_extends [OF rep, of "sample_blk 0 10 5"] sample_blk_crc [of ?log] plain_externs_ok show ?thesis
    by (auto simp: view nid saturating_add_def MAX_MAINTENANCE_METADATA_RECORDS_def)
qed

lemma sample_blk_rep: "list_all blk_wf log \<Longrightarrow> length log \<le> 65536 \<Longrightarrow> blk_rep plain_externs (sample_blk_store log) log"
  using sample_blk_rep_any [of log] by (simp add: blk_rep_def MAX_MAINTENANCE_METADATA_RECORDS_def)

lemma sample_blk_inv: "blk_inv [sample_blk 1 0 10, sample_blk 2 10 5]"
  by (simp add: blk_inv_def ranges_overlap_def saturating_add_def)

text \<open>
  C13: A record whose range overlaps an active record is refused with a conflict,
  and the log is as before.
\<close>

theorem append_blk_overlap_refused:
  assumes "blk_rep E s log" "blk_inv (blk_view E log)" "logical_start r < logical_end r"
    and "x \<in> set (blk_view E log)" "is_active x" "ranges_overlap x r" "hash_order_ok E"
  shows "\<exists>s'. append_blk_map_record E r s = (Err (Conflict ''active logical range overlap''), s') \<and>
     blk_rep E s' log \<and> blk_frame s s'"
  using append_blk_conflict [OF assms] .

theorem append_blk_overlap_refused_witness:
  "\<exists>s'. append_blk_map_record plain_externs (sample_blk 0 12 1)
       (sample_blk_store [sample_blk 1 0 10, sample_blk 2 10 5]) =
       (Err (Conflict ''active logical range overlap''), s') \<and>
     blk_rep plain_externs s' [sample_blk 1 0 10, sample_blk 2 10 5]"
proof -
  let ?log = "[sample_blk 1 0 10, sample_blk 2 10 5]"
  have "blk_view plain_externs ?log = ?log" by (rule sample_blk_view) simp
  with append_blk_overlap_refused [OF sample_blk_rep, of ?log "sample_blk 0 12 1" "sample_blk 2 10 5"]
  show ?thesis using sample_blk_inv plain_externs_ok by (auto simp: ranges_overlap_def saturating_add_def)
qed

text \<open>
  C14: Looking up a block within a range of record identifiers returns the active
  record that covers it, exactly when there is one; the shortcut through the
  identifier index and the scan give the same answer.
\<close>

theorem locate_active_correct:
  assumes "blk_rep E s log" "blk_inv (blk_view E log)" "hash_order_ok E"
  shows "\<exists>res s'. locate_active_record E b lo hi s = (Ok res, s') \<and> blk_rep E s' log \<and> blk_frame s s' \<and>
     (\<forall>r. res = Some r \<longleftrightarrow> r \<in> set (blk_view E log) \<and> is_active r \<and> covers b r \<and>
            lo \<le> record_id r \<and> record_id r \<le> hi)"
  using locate_active_run [OF assms] .

theorem locate_active_correct_witness:
  "\<exists>s'. locate_active_record plain_externs 12 2 2 (sample_blk_store [sample_blk 1 0 10, sample_blk 2 10 5]) =
     (Ok (Some (sample_blk 2 10 5)), s')"
proof -
  let ?log = "[sample_blk 1 0 10, sample_blk 2 10 5]"
  have view: "blk_view plain_externs ?log = ?log" by (rule sample_blk_view) simp
  with locate_active_correct [OF sample_blk_rep, of ?log 12 2 2] obtain res s' where
    "locate_active_record plain_externs 12 2 2 (sample_blk_store ?log) = (Ok res, s')"
    "\<forall>r. res = Some r \<longleftrightarrow> r \<in> set ?log \<and> is_active r \<and> covers 12 r \<and> 2 \<le> record_id r \<and> record_id r \<le> 2"
    using sample_blk_inv plain_externs_ok by auto
  then show ?thesis by (auto simp: covers_def saturating_add_def)
qed

text \<open>
  C15: Marking records stale appends one superseding record per identifier; in
  the records seen afterwards exactly those identifiers are stale and nothing
  else changed.
\<close>

theorem mark_stale_correct:
  assumes "blk_rep E s log" "record_ids \<noteq> []" "set record_ids \<subseteq> record_id ` set (blk_view E log)"
    and "length log + card (set record_ids) \<le> MAX_MAINTENANCE_METADATA_RECORDS"
    and "hash_order_ok E" "crc_ok E" "integrity32 E (blk_encode_log_payload log) \<noteq> 0"
  shows "\<exists>ups s'. mark_blk_map_stale_batch E record_ids s = (Ok ups, s') \<and> blk_rep E s' (log @ ups) \<and>
     mset (blk_view E (log @ ups)) = mset (map (stale_of (set record_ids)) (blk_view E log)) \<and> blk_frame s s'"
  using mark_stale_run [OF assms] by blast

theorem mark_stale_correct_witness:
  "\<exists>ups s'. mark_blk_map_stale_batch plain_externs [2, 2] (sample_blk_store [sample_blk 1 0 10, sample_blk 2 10 5]) =
      (Ok ups, s') \<and>
     mset (blk_view plain_externs ([sample_blk 1 0 10, sample_blk 2 10 5] @ ups)) =
       {#sample_blk 1 0 10, sample_blk 2 10 5\<lparr>blk_state := Stale\<rparr>#}"
proof -
  let ?log = "[sample_blk 1 0 10, sample_blk 2 10 5]"
  have view: "blk_view plain_externs ?log = ?log" by (rule sample_blk_view) simp
  from mark_stale_correct [OF sample_blk_rep, of ?log "[2, 2]"] sample_blk_crc [of ?log] plain_externs_ok
  show ?thesis by (auto simp: view stale_of_def MAX_MAINTENANCE_METADATA_RECORDS_def)
qed

text \<open>
  C16: The append accepts records without limit, but a log with more than
  65,536 records is refused when it is loaded without a cache.  Appending to a
  log with exactly 65,536 records succeeds; after the cache is dropped (a
  detach, or a new process) the block map can no longer be loaded.
\<close>

theorem append_past_budget_unloadable:
  fixes s :: "'z blk_store_scheme"
  assumes "blk_rep E s log" "blk_inv (blk_view E log)" "length log = MAX_MAINTENANCE_METADATA_RECORDS"
    and "record_id r0 = 0" "logical_start r0 < logical_end r0" "blk_wf r0"
    and "\<not> (\<exists>x\<in>set (blk_view E log). is_active x \<and> ranges_overlap x r0)"
    and "next_record_id (blk_view E log) \<noteq> - 1"
    and "hash_order_ok E" "crc_ok E" "integrity32 E (blk_encode_log_payload log) \<noteq> 0"
  shows "\<exists>r s' s''. append_blk_map_record E r0 s = (Ok r, s') \<and>
     discard_blk_map_cache s' = (Ok (), s'') \<and> load_blk_map_records E s'' = (Err MetadataBudgetExceeded, s'')"
proof -
  let ?r = "r0\<lparr>record_id := next_record_id (blk_view E log)\<rparr>"
  obtain s' where run: "append_blk_map_record E r0 s = (Ok ?r, s')" and rep: "blk_rep_any E s' (log @ [?r])"
    using append_blk_run [OF assms(1,2,4-11)] unfolding Let_def by blast
  let ?s = "blk_map_cache_update (\<lambda>_. None) s'"
  have "blk_rep_any E ?s (log @ [?r])"
    using rep by (auto simp: blk_rep_any_def blk_cache_valid_def sealed_def shaped_def append_cache_ok_def)
  then have "load_blk_map_records E ?s = (Err MetadataBudgetExceeded, ?s)"
    using assms(3) by (intro reload_over_budget) auto
  moreover have "discard_blk_map_cache s' = (Ok (), ?s)"
    by (simp add: discard_blk_map_cache_def set_blk_cache_def modify_s_def)
  ultimately show ?thesis using run by blast
qed

definition sample_run :: "nat \<Rightarrow> BlkMapRecord list" where
  "sample_run n = map (\<lambda>i. sample_blk (of_nat (Suc i)) (of_nat i) 1) [0..<n]"

lemma sample_run_inv:
  assumes "n \<le> 65536"
  shows "distinct (map record_id (sample_run n))" "blk_inv (sample_run n)"
    and "\<not> (\<exists>x\<in>set (sample_run n). is_active x \<and> ranges_overlap x (sample_blk 0 (of_nat n) 1))"
    and "next_record_id (sample_run n) \<noteq> - 1"
proof -
  have un: "unat (of_nat i :: u64) = i" if "i \<le> 65537" for i using that by (intro unat_of_nat_small) simp
  have le: "(of_nat i :: u64) < of_nat j \<longleftrightarrow> i < j" if "i \<le> 65537" "j \<le> 65537" for i j
    using that by (simp add: word_less_nat_alt un)
  have sat: "saturating_add (of_nat i :: u64) 1 = of_nat (Suc i)" if "i \<le> 65536" for i
    using saturating_add_of_nat [of i 1] that by (simp add: add.commute)
  have inj: "inj_on (\<lambda>i. of_nat (Suc i) :: u64) {0..<n}"
  proof (rule inj_onI)
    fix i j assume "i \<in> {0..<n}" "j \<in> {0..<n}" "(of_nat (Suc i) :: u64) = of_nat (Suc j)"
    then have "unat (of_nat (Suc i) :: u64) = unat (of_nat (Suc j) :: u64)" "i < n" "j < n" by auto
    then show "i = j" using un [of "Suc i"] un [of "Suc j"] assms by (simp del: of_nat_Suc)
  qed
  then show d: "distinct (map record_id (sample_run n))" by (simp add: sample_run_def comp_def distinct_map del: of_nat_Suc)
  show "blk_inv (sample_run n)" unfolding blk_inv_def
  proof (intro conjI ballI impI d)
    fix r assume "r \<in> set (sample_run n)"
    then show "logical_start r < logical_end r"
      using assms by (auto simp: sample_run_def sat le simp del: of_nat_Suc)
  next
    fix a b assume "a \<in> set (sample_run n)" "b \<in> set (sample_run n)"
      "is_active a \<and> is_active b \<and> record_id a \<noteq> record_id b"
    then show "\<not> ranges_overlap a b"
      using assms by (auto simp: sample_run_def ranges_overlap_def sat le less_Suc_eq simp del: of_nat_Suc)
  qed
  show "\<not> (\<exists>x\<in>set (sample_run n). is_active x \<and> ranges_overlap x (sample_blk 0 (of_nat n) 1))"
    using assms by (auto simp: sample_run_def ranges_overlap_def sat le simp del: of_nat_Suc)
  have "foldl max 0 (map record_id (sample_run n)) \<le> of_nat n"
    unfolding foldl_max_Max using assms
    by (subst Max_le_iff) (auto simp: sample_run_def word_le_nat_alt un simp del: of_nat_Suc)
  then have "unat (next_record_id (sample_run n)) \<le> 65537"
    using un [of n] assms by (simp add: next_record_id_def next_id_def unat_saturating_add word_le_nat_alt)
  then show "next_record_id (sample_run n) \<noteq> - 1" using unat_max [where 'a=64] by auto
qed

theorem append_past_budget_unloadable_witness:
  "\<exists>r s' s''. append_blk_map_record plain_externs (sample_blk 0 65536 1) (sample_blk_store (sample_run 65536)) = (Ok r, s') \<and>
     discard_blk_map_cache s' = (Ok (), s'') \<and>
     load_blk_map_records plain_externs s'' = (Err MetadataBudgetExceeded, s'')"
proof -
  let ?log = "sample_run 65536"
  have len: "length ?log = 65536" by (simp only: sample_run_def length_map length_upt)
  have wf: "list_all blk_wf ?log" unfolding sample_run_def list_all_iff by auto
  have view: "blk_view plain_externs ?log = ?log" by (rule sample_blk_view) (rule sample_run_inv, simp)
  have crc: "integrity32 plain_externs (blk_encode_log_payload ?log) \<noteq> 0"
    using len by (intro plain_integrity32_ne, simp_all) (simp add: blk_encode_log_payload_def BLK_LOG_PREFIX_def)
  have free: "\<not> (\<exists>x\<in>set ?log. is_active x \<and> ranges_overlap x (sample_blk 0 65536 1))"
    using sample_run_inv(3) [of 65536] by simp
  note inv = sample_run_inv(2,4) [of 65536]
  show ?thesis
    by (rule append_past_budget_unloadable [where log = ?log])
      (use sample_blk_rep [OF wf] len inv free crc plain_externs_ok in
        \<open>simp_all add: view MAX_MAINTENANCE_METADATA_RECORDS_def saturating_add_def\<close>)
qed

end
