(* ===== verification/Map_Lookup.thy ===== *)
theory Map_Lookup
  imports Blk_Map
begin

text \<open>
  The lookup table (\<^verbatim>\<open>storage/map_lookup.rs\<close>): for a range of logical blocks
  the identifiers of the block map records that hold it.  Records are 40 bytes
  in a log; the cache holds the latest records sorted by the first block.
\<close>

section \<open>Data and codec\<close>

record MapLookupRecord =
  lookup_id :: u64
  logical_min :: u64
  logical_max :: u64
  blk_map_ref_start :: u64
  blk_map_ref_end :: u64

definition LK_RECORD_SIZE :: nat where "LK_RECORD_SIZE = 40"

text \<open>The ASCII prefix \<^verbatim>\<open>LPV2\<close>.\<close>

definition LK_LOG_PREFIX :: bytes where "LK_LOG_PREFIX = [0x4C, 0x50, 0x56, 0x32]"

definition lk_encode :: "MapLookupRecord \<Rightarrow> bytes" where
  "lk_encode r =
     to_le_bytes (lookup_id r) @ to_le_bytes (logical_min r) @ to_le_bytes (logical_max r) @
     to_le_bytes (blk_map_ref_start r) @ to_le_bytes (blk_map_ref_end r)"

definition lk_decode :: "bytes \<Rightarrow> (StorageError, MapLookupRecord) result" where
  "lk_decode buf =
     (if length buf < LK_RECORD_SIZE then Err (Corrupt ''map lookup record too short'')
      else Ok \<lparr>lookup_id = from_le_bytes (slice 0 8 buf), logical_min = from_le_bytes (slice 8 8 buf),
               logical_max = from_le_bytes (slice 16 8 buf),
               blk_map_ref_start = from_le_bytes (slice 24 8 buf),
               blk_map_ref_end = from_le_bytes (slice 32 8 buf)\<rparr>)"

definition lk_encode_log_payload :: "MapLookupRecord list \<Rightarrow> bytes" where
  "lk_encode_log_payload rs = LK_LOG_PREFIX @ concat (map lk_encode rs)"

definition lk_decode_legacy_payload :: "bytes \<Rightarrow> (StorageError, MapLookupRecord list) result" where
  "lk_decode_legacy_payload payload =
     (if length payload < 8 then Err (Corrupt ''lookup payload too short'')
      else bind_r (checked_metadata_record_count (unat (from_le_bytes (slice 0 8 payload) :: u64))) (\<lambda>n.
        if (length payload - 8) div LK_RECORD_SIZE < n then Err (Corrupt ''lookup payload truncated'')
        else traverse lk_decode (take n (chunks LK_RECORD_SIZE (drop 8 payload)))))"

definition lk_decode_log_payload :: "externs \<Rightarrow> bytes \<Rightarrow> (StorageError, MapLookupRecord list) result" where
  "lk_decode_log_payload E payload =
     (if length payload < length LK_LOG_PREFIX then Err (Corrupt ''lookup log payload too short'')
      else let body = drop (length LK_LOG_PREFIX) payload in
        if length body mod LK_RECORD_SIZE \<noteq> 0 then Err (Corrupt ''lookup log payload length mismatch'')
        else bind_r (checked_metadata_record_count (length body div LK_RECORD_SIZE)) (\<lambda>_.
          bind_r (traverse lk_decode (chunks LK_RECORD_SIZE body)) (\<lambda>rs.
          Ok (sort_key logical_min (latest_values E lookup_id rs)))))"

definition lk_decode_payload :: "externs \<Rightarrow> bytes \<Rightarrow> (StorageError, MapLookupRecord list) result" where
  "lk_decode_payload E payload =
     (if payload = [] then Ok []
      else if starts_with payload LK_LOG_PREFIX then lk_decode_log_payload E payload
      else lk_decode_legacy_payload payload)"

section \<open>Cache and state\<close>

record CachedLookup =
  lk_stamp :: bytes
  lk_sequence :: u64
  lk_records :: "MapLookupRecord list"
  lk_next_lookup_id :: u64
  lk_is_log_format :: bool

record lookup_store = blk_store +
  lookup_cache :: "CachedLookup option"

definition next_lookup_id :: "MapLookupRecord list \<Rightarrow> u64" where
  "next_lookup_id rs = next_id lookup_id rs"

definition lk_file_stamp :: "('z lookup_store_scheme, StorageError, bytes) stm" where
  "lk_file_stamp s =
     (case files s Lookup_File of None \<Rightarrow> (Err (Io IoNotFound), s) | Some stamp \<Rightarrow> (Ok stamp, s))"

definition set_lookup_cache :: "CachedLookup option \<Rightarrow> ('z lookup_store_scheme, 'e, unit) stm" where
  "set_lookup_cache c = modify_s (lookup_cache_update (\<lambda>_. c))"

definition lk_update_cache :: "u64 \<Rightarrow> MapLookupRecord list \<Rightarrow> ('z lookup_store_scheme, StorageError, unit) stm" where
  "lk_update_cache sq rs =
     bind_s lk_file_stamp (\<lambda>stamp.
     set_lookup_cache (Some \<lparr>lk_stamp = stamp, lk_sequence = sq, lk_records = rs,
        lk_next_lookup_id = next_lookup_id rs, lk_is_log_format = True\<rparr>))"

definition discard_lookup_cache :: "('z lookup_store_scheme, StorageError, unit) stm" where
  "discard_lookup_cache = set_lookup_cache None"

definition lk_loaded :: "bytes \<Rightarrow> SegmentHeader \<Rightarrow> bytes \<Rightarrow> MapLookupRecord list \<Rightarrow> CachedLookup" where
  "lk_loaded stamp h payload rs =
     \<lparr>lk_stamp = stamp, lk_sequence = sequence h, lk_records = rs,
      lk_next_lookup_id = next_lookup_id rs, lk_is_log_format = starts_with payload LK_LOG_PREFIX\<rparr>"

definition lk_ensure_cache_fresh :: "externs \<Rightarrow> ('z lookup_store_scheme, StorageError, unit) stm" where
  "lk_ensure_cache_fresh E s =
     (if trust_hot_cache E \<and> lookup_cache s \<noteq> None then (Ok (), s)
      else bind_s lk_file_stamp (\<lambda>stamp s.
        if map_option lk_stamp (lookup_cache s) = Some stamp then (Ok (), s)
        else bind_s (read_segment_file_bounded E Lookup_File KLookup MAX_MAINTENANCE_METADATA_BYTES)
               (\<lambda>(h, payload).
             bind_s (lift_s (lk_decode_payload E payload)) (\<lambda>rs.
             set_lookup_cache (Some (lk_loaded stamp h payload rs)))) s) s)"

definition lk_cache_entry :: "('z lookup_store_scheme, StorageError, CachedLookup) stm" where
  "lk_cache_entry s =
     (case lookup_cache s of
        None \<Rightarrow> (Err (NotFound ''lookup cache not initialized''), s)
      | Some c \<Rightarrow> (Ok c, s))"

section \<open>Operations\<close>

definition load_lookup_records ::
  "externs \<Rightarrow> ('z lookup_store_scheme, StorageError, u64 \<times> MapLookupRecord list) stm" where
  "load_lookup_records E =
     bind_s (lk_ensure_cache_fresh E) (\<lambda>_.
     bind_s lk_cache_entry (\<lambda>c. ret_s (lk_sequence c, lk_records c)))"

definition lk_insert :: "MapLookupRecord \<Rightarrow> MapLookupRecord list \<Rightarrow> MapLookupRecord list" where
  "lk_insert r rs = insert_by_key logical_min r rs"

definition lk_commit_record ::
  "externs \<Rightarrow> MapLookupRecord \<Rightarrow> ('z lookup_store_scheme, StorageError, MapLookupRecord) stm" where
  "lk_commit_record E r =
     bind_s (append_segment_payload E Lookup_File KLookup 3 LK_LOG_PREFIX (lk_encode r)) (\<lambda>h.
     bind_s lk_cache_entry (\<lambda>c.
     let c = c\<lparr>lk_sequence := sequence h\<rparr> in
     bind_s (set_lookup_cache (Some c)) (\<lambda>_.
     bind_s (lift_s (ok_or (checked_add (lookup_id r) 1) (Conflict ''lookup ID space is exhausted''))) (\<lambda>next_id.
     let c = c\<lparr>lk_next_lookup_id := max (lk_next_lookup_id c) next_id,
               lk_records := lk_insert r (lk_records c)\<rparr> in
     bind_s (set_lookup_cache (Some c)) (\<lambda>_.
     bind_s (if trust_hot_cache E then ret_s (lk_stamp c) else lk_file_stamp) (\<lambda>stamp.
     bind_s (set_lookup_cache (Some (c\<lparr>lk_stamp := stamp, lk_is_log_format := True\<rparr>))) (\<lambda>_.
     ret_s r)))))))"

definition append_lookup_record ::
  "externs \<Rightarrow> MapLookupRecord \<Rightarrow> ('z lookup_store_scheme, StorageError, MapLookupRecord) stm" where
  "append_lookup_record E record0 =
     bind_s (lk_ensure_cache_fresh E) (\<lambda>_.
     bind_s lk_cache_entry (\<lambda>c.
     if lookup_id record0 = 0 \<and> lk_next_lookup_id c = - 1
     then err_s (Conflict ''lookup ID space is exhausted'')
     else
       let r = (if lookup_id record0 = 0 then record0\<lparr>lookup_id := lk_next_lookup_id c\<rparr> else record0) in
       bind_s (if \<not> lk_is_log_format c
               then bind_s (write_segment_file E Lookup_File KLookup 3 (of_nat (length (lk_records c)))
                              (lk_encode_log_payload (lk_records c))) (\<lambda>_. lk_ensure_cache_fresh E)
               else ret_s ()) (\<lambda>_.
       lk_commit_record E r)))"

definition locate_lookup :: "MapLookupRecord list \<Rightarrow> u64 \<Rightarrow> MapLookupRecord option" where
  "locate_lookup rs b =
     (let i = partition_point (\<lambda>r. logical_min r \<le> b) rs in
      if i = 0 then None
      else if b \<le> logical_max (rs ! (i - 1)) then Some (rs ! (i - 1)) else None)"

definition locate_logical_block ::
  "externs \<Rightarrow> u64 \<Rightarrow> ('z lookup_store_scheme, StorageError, MapLookupRecord option) stm" where
  "locate_logical_block E b =
     bind_s (lk_ensure_cache_fresh E) (\<lambda>_.
     bind_s lk_cache_entry (\<lambda>c. ret_s (locate_lookup (lk_records c) b)))"

definition persist_lookup_records ::
  "externs \<Rightarrow> MapLookupRecord list \<Rightarrow> ('z lookup_store_scheme, StorageError, unit) stm" where
  "persist_lookup_records E rs =
     bind_s (write_segment_file E Lookup_File KLookup 3 (of_nat (length rs)) (lk_encode_log_payload rs)) (\<lambda>_.
     lk_update_cache (of_nat (length rs)) rs)"

fun rebuilt_lookup :: "u64 \<Rightarrow> BlkMapRecord list \<Rightarrow> (StorageError, MapLookupRecord list) result" where
  "rebuilt_lookup i [] = Ok []"
| "rebuilt_lookup i (r # rs) =
     (if logical_len r = 0 then Err (Corrupt ''active blk map record has zero logical length'')
      else bind_r (ok_or (checked_add (logical_start r) (ucast (logical_len r) - 1))
                     (Corrupt ''logical range overflow'')) (\<lambda>last_block.
        bind_r (rebuilt_lookup (i + 1) rs) (\<lambda>rest.
        Ok (\<lparr>lookup_id = i, logical_min = logical_start r, logical_max = last_block,
             blk_map_ref_start = record_id r, blk_map_ref_end = record_id r\<rparr> # rest))))"

definition rebuild_lookup_from_blk_map :: "externs \<Rightarrow> ('z lookup_store_scheme, StorageError, nat) stm" where
  "rebuild_lookup_from_blk_map E =
     bind_s (load_blk_map_records E) (\<lambda>(_, rs).
     bind_s (lift_s (rebuilt_lookup 1 (filter is_active rs))) (\<lambda>rebuilt.
     bind_s (persist_lookup_records E rebuilt) (\<lambda>_.
     ret_s (length rebuilt))))"

section \<open>The table and its file\<close>

lemma length_lk_encode [simp]: "length (lk_encode r) = 40"
  by (simp add: lk_encode_def)

lemma lk_decode_encode [codec]: "lk_decode (lk_encode r) = Ok r"
  by (simp add: lk_decode_def lk_encode_def LK_RECORD_SIZE_def)

definition lk_view :: "externs \<Rightarrow> MapLookupRecord list \<Rightarrow> MapLookupRecord list" where
  "lk_view E log = latest_values E lookup_id log"

definition lk_entry_ok :: "externs \<Rightarrow> CachedLookup \<Rightarrow> MapLookupRecord list \<Rightarrow> bytes \<Rightarrow> bool" where
  "lk_entry_ok E c log payload \<longleftrightarrow>
     mset (lk_records c) = mset (lk_view E log) \<and> sorted (map logical_min (lk_records c)) \<and>
     lk_next_lookup_id c = next_lookup_id (lk_records c) \<and>
     (lk_is_log_format c \<longrightarrow> payload \<noteq> []) \<and> (\<not> lk_is_log_format c \<longrightarrow> log = [])"

lemma length_LK_LOG_PREFIX [simp]: "length LK_LOG_PREFIX = 4"
  by (simp add: LK_LOG_PREFIX_def)

lemma LK_LOG_PREFIX_ne [simp]: "LK_LOG_PREFIX \<noteq> []"
  by (simp add: LK_LOG_PREFIX_def)

lemma segment_more_lookup:
  "segment_store.more s' = segment_store.more s \<Longrightarrow>
     blk_map_cache s' = blk_map_cache s \<and> lookup_cache s' = lookup_cache s \<and>
     lookup_store.more s' = lookup_store.more s"
  by (cases s, cases s') simp

lemma lk_encode_log_payload_eq: "lk_encode_log_payload = log_payload LK_LOG_PREFIX lk_encode"
  by (rule ext) (simp add: lk_encode_log_payload_def log_payload_def)

interpretation lkc: record_codec lk_encode lk_decode 40 "\<lambda>_. True"
  by unfold_locales (simp_all add: lk_decode_encode)

lemma lk_view_Nil: "hash_order_ok E \<Longrightarrow> lk_view E [] = []"
  using mset_latest_values_distinct [of E lookup_id "[] :: MapLookupRecord list"] by (simp add: lk_view_def)

lemma lk_decode_log:
  assumes "length log \<le> MAX_MAINTENANCE_METADATA_RECORDS"
  shows "lk_decode_payload E (log_payload LK_LOG_PREFIX lk_encode log) = Ok (sort_key logical_min (lk_view E log))"
  using assms lkc.decode_all [of log] lkc.length_concat_enc [of log]
  by (simp add: lk_decode_payload_def lk_decode_log_payload_def log_payload_def lk_view_def LK_RECORD_SIZE_def
      Let_def checked_metadata_record_count_def list.pred_True del: length_concat bind_r_Ok)

interpretation lk: log_table lk_encode lk_decode 40 "\<lambda>_. True" Lookup_File KLookup LK_LOG_PREFIX lk_decode_payload
  lookup_cache lookup_cache_update lk_stamp lk_loaded lk_entry_ok lk_ensure_cache_fresh
proof unfold_locales
  fix E log payload
  assume E: "hash_order_ok E" and n: "length log \<le> MAX_MAINTENANCE_METADATA_RECORDS"
    and p: "payload_of LK_LOG_PREFIX lk_encode log payload"
  have "lk_decode_payload E payload = Ok (sort_key logical_min (lk_view E log))"
    using p lk_decode_log [OF n] by (auto simp: payload_of_def lk_decode_payload_def lk_view_Nil [OF E])
  moreover have "starts_with payload LK_LOG_PREFIX \<longleftrightarrow> payload \<noteq> []"
    using p by (auto simp: payload_of_def log_payload_def)
  ultimately show "\<exists>rs. lk_decode_payload E payload = Ok rs \<and>
      (\<forall>st h. lk_entry_ok E (lk_loaded st h payload rs) log payload)"
    using p by (auto simp: lk_entry_ok_def lk_loaded_def payload_of_def log_payload_def)
qed (auto dest: segment_more_lookup simp: LK_LOG_PREFIX_def lk_entry_ok_def lk_loaded_def lk_ensure_cache_fresh_def lk_file_stamp_def
    set_lookup_cache_def bind_s_def log_payload_def split: option.splits)

abbreviation lk_rep_any :: "externs \<Rightarrow> 'z lookup_store_scheme \<Rightarrow> MapLookupRecord list \<Rightarrow> bool" where
  "lk_rep_any E \<equiv> table_rep_any E Lookup_File KLookup LK_LOG_PREFIX lk_encode (\<lambda>_. True) lookup_cache lk_stamp lk_entry_ok"

abbreviation lk_rep :: "externs \<Rightarrow> 'z lookup_store_scheme \<Rightarrow> MapLookupRecord list \<Rightarrow> bool" where
  "lk_rep E \<equiv> table_rep E Lookup_File KLookup LK_LOG_PREFIX lk_encode (\<lambda>_. True) lookup_cache lk_stamp lk_entry_ok"

text \<open>What no operation of the table touches: other files, the block map's cache, the rest of the state.\<close>

definition lookup_frame :: "'z lookup_store_scheme \<Rightarrow> 'z lookup_store_scheme \<Rightarrow> bool" where
  "lookup_frame s s' \<longleftrightarrow> others_same Lookup_File s s' \<and> blk_map_cache s' = blk_map_cache s \<and>
     lookup_store.more s' = lookup_store.more s"

lemma lookup_frame_trans: "lookup_frame s s' \<Longrightarrow> lookup_frame s' s'' \<Longrightarrow> lookup_frame s s''"
  by (auto simp: lookup_frame_def intro: others_same_trans)

lemma lookup_frame_upd [simp]: "lookup_frame s (lookup_cache_update g s') = lookup_frame s s'"
  by (simp add: lookup_frame_def others_same_def)

lemma frame_lookup_frame: "frame Lookup_File s s' \<Longrightarrow> lookup_frame s s'"
  by (auto simp: frame_def lookup_frame_def dest: segment_more_lookup)

lemma lookup_frame_refl [simp]: "lookup_frame s s"
  by (simp add: lookup_frame_def)

lemma lk_view_snoc:
  assumes "hash_order_ok E" "lookup_id r \<notin> lookup_id ` set (lk_view E log)"
  shows "mset (lk_view E (log @ [r])) = add_mset r (mset (lk_view E log))"
  using assms mset_latest_values_snoc [of E lookup_id r log] keys_latest_values [OF assms(1), of lookup_id log]
  by (simp add: lk_view_def)

lemma lk_insert_ok:
  assumes c: "lk_entry_ok E c log p" and r: "lookup_id r \<notin> lookup_id ` set (lk_view E log)" "lookup_id r \<noteq> - 1"
    and E: "hash_order_ok E"
  shows "lk_entry_ok E (c\<lparr>lk_sequence := sq, lk_next_lookup_id := max (lk_next_lookup_id c) (lookup_id r + 1),
     lk_records := lk_insert r (lk_records c), lk_stamp := st, lk_is_log_format := True\<rparr>) (log @ [r])
     (log_payload LK_LOG_PREFIX lk_encode (log @ [r]))"
proof -
  have ms: "mset (lk_insert r (lk_records c)) = mset (lk_records c @ [r])"
    by (simp add: lk_insert_def mset_insert_by_key)
  have "next_lookup_id (lk_insert r (lk_records c)) = max (next_lookup_id (lk_records c)) (lookup_id r + 1)"
    unfolding next_lookup_id_def
    by (simp add: next_id_mset [OF ms] next_id_snoc [of lookup_id r, OF checked_succ_Some [OF r(2)]])
  then show ?thesis using c ms lk_view_snoc [OF E r(1)]
    by (simp add: lk_entry_ok_def lk_insert_def sorted_insert_by_key)
qed

lemma lk_commit_run:
  assumes p: "log_sealed E s Lookup_File KLookup (log_payload LK_LOG_PREFIX lk_encode log)"
    and room: "length log \<le> MAX_MAINTENANCE_METADATA_RECORDS"
    and c: "lookup_cache s = Some c" "lk_entry_ok E c log p0"
    and r: "lookup_id r \<noteq> - 1" "lookup_id r \<notin> lookup_id ` set (lk_view E log)"
    and E: "hash_order_ok E" "crc_ok E" "integrity32 E (log_payload LK_LOG_PREFIX lk_encode log) \<noteq> 0"
  shows "\<exists>s'. lk_commit_record E r s = (Ok r, s') \<and> lk_rep_any E s' (log @ [r]) \<and> lookup_frame s s'"
proof -
  have "\<exists>h s1. append_segment_payload E Lookup_File KLookup 3 LK_LOG_PREFIX (concat (map lk_encode [r])) s = (Ok h, s1) \<and>
     log_sealed E s1 Lookup_File KLookup (log_payload LK_LOG_PREFIX lk_encode (log @ [r])) \<and> frame Lookup_File s s1 \<and>
     lookup_cache s1 = lookup_cache s"
    by (rule lk.append_run [OF p])
      (use room E in \<open>simp_all add: payload_of_def MAX_MAINTENANCE_METADATA_RECORDS_def\<close>)
  then obtain h s1 where app: "append_segment_payload E Lookup_File KLookup 3 LK_LOG_PREFIX (lk_encode r) s = (Ok h, s1)"
    and s1: "log_sealed E s1 Lookup_File KLookup (log_payload LK_LOG_PREFIX lk_encode (log @ [r]))"
      "frame Lookup_File s s1" "lookup_cache s1 = Some c"
    using c(1) by auto
  obtain buf where buf: "files s1 Lookup_File = Some buf" using s1(1) by (auto simp: log_sealed_def sealed_def shaped_def)
  let ?c = "c\<lparr>lk_sequence := sequence h, lk_next_lookup_id := max (lk_next_lookup_id c) (lookup_id r + 1),
     lk_records := lk_insert r (lk_records c), lk_stamp := (if trust_hot_cache E then lk_stamp c else buf),
     lk_is_log_format := True\<rparr>"
  have "lk_commit_record E r s = (Ok r, lookup_cache_update (\<lambda>_. Some ?c) s1)"
    using app s1(3) buf
    by (simp add: lk_commit_record_def lk_cache_entry_def set_lookup_cache_def lk_file_stamp_def Let_def
        checked_succ_Some [OF r(1)])
  moreover have "lk_rep_any E (lookup_cache_update (\<lambda>_. Some ?c) s1) (log @ [r])"
    by (rule lk.rep_any_set [OF s1(1) lk_insert_ok [OF c(2) r(2,1) E(1)]]) (simp add: list.pred_True)
  ultimately show ?thesis using frame_lookup_frame [OF s1(2)] by (metis lookup_frame_upd)
qed

lemma append_lookup_run:
  fixes s :: "'z lookup_store_scheme"
  assumes rep: "lk_rep E s log" and r0: "lookup_id r0 = 0"
    and id: "next_lookup_id (lk_view E log) \<noteq> - 1"
    and E: "hash_order_ok E" "crc_ok E" "integrity32 E (log_payload LK_LOG_PREFIX lk_encode log) \<noteq> 0"
  shows "\<exists>s'. let r = r0\<lparr>lookup_id := next_lookup_id (lk_view E log)\<rparr> in
     append_lookup_record E r0 s = (Ok r, s') \<and> lk_rep_any E s' (log @ [r]) \<and> lookup_frame s s'"
proof -
  let ?r = "r0\<lparr>lookup_id := next_lookup_id (lk_view E log)\<rparr>"
  let ?lp = "log_payload LK_LOG_PREFIX lk_encode"
  obtain c payload where f1: "lk_ensure_cache_fresh E s = (Ok (), lookup_cache_update (\<lambda>_. Some c) s)"
    "lk_rep E (lookup_cache_update (\<lambda>_. Some c) s) log" "lk_entry_ok E c log payload"
    "cache_valid E Lookup_File lookup_cache lk_stamp (lookup_cache_update (\<lambda>_. Some c) s) c"
    "log_sealed E s Lookup_File KLookup payload" "payload_of LK_LOG_PREFIX lk_encode log payload"
    using lk.fresh_run [OF rep E(1)] by blast
  let ?s1 = "lookup_cache_update (\<lambda>_. Some c) s"
  have room: "length log \<le> MAX_MAINTENANCE_METADATA_RECORDS" using rep by (simp add: table_rep_def)
  have nxt: "lk_next_lookup_id c = next_lookup_id (lk_view E log)"
    using f1(3) next_id_mset [of "lk_records c" "lk_view E log"] by (simp add: lk_entry_ok_def next_lookup_id_def)
  have fresh: "lookup_id ?r \<notin> lookup_id ` set (lk_view E log)"
    using next_id_fresh [of lookup_id "lk_view E log"] id by (force simp: next_lookup_id_def)
  define fix_log :: "('z lookup_store_scheme, StorageError, unit) stm" where "fix_log = (if \<not> lk_is_log_format c
      then bind_s (write_segment_file E Lookup_File KLookup 3 (of_nat (length (lk_records c)))
                     (lk_encode_log_payload (lk_records c))) (\<lambda>_. lk_ensure_cache_fresh E)
      else ret_s ())"
  have "\<exists>c2 s2 p2. fix_log ?s1 = (Ok (), s2) \<and> log_sealed E s2 Lookup_File KLookup (?lp log) \<and>
      lookup_cache s2 = Some c2 \<and> lk_entry_ok E c2 log p2 \<and> lookup_frame ?s1 s2"
  proof (cases "lk_is_log_format c")
    case True
    then have "payload = ?lp log" using f1(3,6) by (auto simp: payload_of_def lk_entry_ok_def)
    then have "log_sealed E ?s1 Lookup_File KLookup (?lp log)" using f1(5) log_sealed_cong [of ?s1 s] by simp
    then show ?thesis using True f1(3) by (auto simp: fix_log_def)
  next
    case False
    then have nil: "log = []" "lk_records c = []" using f1(3) by (auto simp: lk_entry_ok_def lk_view_Nil [OF E(1)])
    have "lk_rep E ?s1 []" using f1(2) nil by simp
    from lk.rewrite_empty_run [OF this f1(4) E(1), of 3 0] obtain s2 c2 where
      "bind_s (write_segment_file E Lookup_File KLookup 3 0 (?lp [])) (\<lambda>_. lk_ensure_cache_fresh E) ?s1 =
         (Ok (), lookup_cache_update (\<lambda>_. Some c2) s2)"
      "log_sealed E (lookup_cache_update (\<lambda>_. Some c2) s2) Lookup_File KLookup (?lp [])"
      "lk_entry_ok E c2 [] (?lp [])" "frame Lookup_File ?s1 s2" by blast
    then show ?thesis using False nil frame_lookup_frame [of ?s1 s2]
      by (intro exI [of _ c2] exI [of _ "lookup_cache_update (\<lambda>_. Some c2) s2"] exI [of _ "?lp []"])
        (simp add: fix_log_def lk_encode_log_payload_eq)
  qed
  then obtain c2 s2 p2 where f2: "fix_log ?s1 = (Ok (), s2)" "log_sealed E s2 Lookup_File KLookup (?lp log)"
    "lookup_cache s2 = Some c2" "lk_entry_ok E c2 log p2" "lookup_frame ?s1 s2" by blast
  obtain s3 where f3: "lk_commit_record E ?r s2 = (Ok ?r, s3)" "lk_rep_any E s3 (log @ [?r])" "lookup_frame s2 s3"
    using lk_commit_run [OF f2(2) room f2(3,4) _ fresh E] id by auto
  have "append_lookup_record E r0 s = lk_commit_record E ?r s2"
    using f1(1) r0 nxt id f2(1) unfolding append_lookup_record_def
    by (simp add: lk_cache_entry_def Let_def flip: fix_log_def)
  moreover have "lookup_frame s s2" using f2(5) by (simp add: lookup_frame_def others_same_def)
  ultimately show ?thesis using f3 by (auto simp: Let_def intro: lookup_frame_trans)
qed

section \<open>Locating a block\<close>

lemma append_lookup_step:
  assumes rep: "lk_rep E s log" and r0: "lookup_id r0 = 0" and id: "next_lookup_id (lk_view E log) \<noteq> - 1"
    and E: "hash_order_ok E" "crc_ok E" "integrity32 E (log_payload LK_LOG_PREFIX lk_encode log) \<noteq> 0"
    and room: "length log < MAX_MAINTENANCE_METADATA_RECORDS"
    and r: "r = r0\<lparr>lookup_id := next_lookup_id (lk_view E log)\<rparr>"
  shows "\<exists>s'. append_lookup_record E r0 s = (Ok r, s') \<and> lk_rep E s' (log @ [r]) \<and> lookup_frame s s' \<and>
     mset (lk_view E (log @ [r])) = add_mset r (mset (lk_view E log))"
proof -
  obtain s' where "append_lookup_record E r0 s = (Ok r, s')" "lk_rep_any E s' (log @ [r])" "lookup_frame s s'"
    using append_lookup_run [OF rep r0 id E] unfolding r Let_def by blast
  moreover have "lookup_id r \<notin> lookup_id ` set (lk_view E log)"
    using next_id_fresh [of lookup_id "lk_view E log"] id r by (force simp: next_lookup_id_def)
  ultimately show ?thesis using lk_view_snoc [OF E(1)] room by (auto simp: table_rep_def)
qed

definition lk_covers :: "u64 \<Rightarrow> MapLookupRecord \<Rightarrow> bool" where
  "lk_covers b r \<longleftrightarrow> logical_min r \<le> b \<and> b \<le> logical_max r"

definition lk_inv :: "MapLookupRecord list \<Rightarrow> bool" where
  "lk_inv rs \<longleftrightarrow> (\<forall>a\<in>set rs. logical_min a \<le> logical_max a \<and>
     (\<forall>b\<in>set rs. a \<noteq> b \<longrightarrow> logical_max a < logical_min b \<or> logical_max b < logical_min a))"

text \<open>On sorted disjoint ranges the binary search finds the one range that holds the block.\<close>

lemma locate_lookup_iff:
  assumes sorted: "sorted (map logical_min rs)" and inv: "lk_inv rs"
  shows "locate_lookup rs b = Some r \<longleftrightarrow> r \<in> set rs \<and> lk_covers b r"
proof -
  let ?P = "\<lambda>r. logical_min r \<le> b"
  have tw: "takeWhile ?P rs = filter ?P rs"
    by (rule takeWhile_sorted_key [OF sorted]) simp
  let ?xs = "filter ?P rs"
  have i: "partition_point ?P rs = length ?xs" by (simp add: partition_point_def tw)
  have lastx: "rs ! (length ?xs - 1) = last ?xs" if "?xs \<noteq> []"
    using that takeWhile_nth [of "length ?xs - 1" ?P rs] by (simp add: tw last_conv_nth)
  have eq: "locate_lookup rs b = (if ?xs = [] then None else if b \<le> logical_max (last ?xs) then Some (last ?xs) else None)"
    using lastx by (simp add: locate_lookup_def i Let_def)
  have srt: "sorted (map logical_min ?xs)" using sorted by (rule sorted_filter)
  have "last ?xs = x" if x: "x \<in> set rs" "lk_covers b x" for x
  proof (rule ccontr)
    assume ne: "last ?xs \<noteq> x"
    have xin: "x \<in> set ?xs" using x by (simp add: lk_covers_def)
    then have l: "last ?xs \<in> set rs" "logical_min (last ?xs) \<le> b"
      using last_in_set [of ?xs] by fastforce+
    have "logical_min x \<le> logical_min (last ?xs)" using sorted_le_last [OF srt xin] .
    moreover have "logical_max x < logical_min (last ?xs) \<or> logical_max (last ?xs) < logical_min x"
      "logical_min (last ?xs) \<le> logical_max (last ?xs)"
      using inv x(1) l(1) ne by (auto simp: lk_inv_def)
    ultimately show False using x(2) l(2) by (auto simp: lk_covers_def)
  qed
  moreover have "last ?xs \<in> set rs \<and> logical_min (last ?xs) \<le> b" if "?xs \<noteq> []"
    using last_in_set [OF that] by auto
  moreover have "?xs \<noteq> []" if "r \<in> set rs" "lk_covers b r" using that by (auto simp: lk_covers_def filter_empty_conv)
  ultimately show ?thesis unfolding eq lk_covers_def by (auto split: if_splits)
qed

lemma lk_inv_mset: "mset rs = mset rs' \<Longrightarrow> lk_inv rs = lk_inv rs'"
  by (drule mset_eq_setD) (simp add: lk_inv_def)

lemma locate_logical_run:
  assumes rep: "lk_rep E s log" and inv: "lk_inv (lk_view E log)" and hash: "hash_order_ok E"
  shows "\<exists>res c. locate_logical_block E b s = (Ok res, lookup_cache_update (\<lambda>_. Some c) s) \<and>
     (\<forall>r. res = Some r \<longleftrightarrow> r \<in> set (lk_view E log) \<and> lk_covers b r) \<and>
     lk_rep E (lookup_cache_update (\<lambda>_. Some c) s) log"
proof -
  obtain c payload where f: "lk_ensure_cache_fresh E s = (Ok (), lookup_cache_update (\<lambda>_. Some c) s)"
    "lk_rep E (lookup_cache_update (\<lambda>_. Some c) s) log" "lk_entry_ok E c log payload"
    using lk.fresh_run [OF rep hash] by blast
  have c: "mset (lk_records c) = mset (lk_view E log)" "sorted (map logical_min (lk_records c))"
    using f(3) by (simp_all add: lk_entry_ok_def)
  have "locate_logical_block E b s = (Ok (locate_lookup (lk_records c) b), lookup_cache_update (\<lambda>_. Some c) s)"
    using f(1) by (simp add: locate_logical_block_def lk_cache_entry_def)
  moreover have "\<forall>r. locate_lookup (lk_records c) b = Some r \<longleftrightarrow> r \<in> set (lk_view E log) \<and> lk_covers b r"
    using locate_lookup_iff [OF c(2)] inv lk_inv_mset [OF c(1)] mset_eq_setD [OF c(1)] by simp
  ultimately show ?thesis using f(2) by blast
qed

section \<open>Rebuilding the table from the block map\<close>

definition lookup_of :: "u64 \<Rightarrow> BlkMapRecord \<Rightarrow> MapLookupRecord" where
  "lookup_of i r = \<lparr>lookup_id = i, logical_min = logical_start r,
     logical_max = logical_start r + (ucast (logical_len r) - 1),
     blk_map_ref_start = record_id r, blk_map_ref_end = record_id r\<rparr>"

text \<open>A range that stays below the end of the block numbers.\<close>

definition blk_fits :: "BlkMapRecord \<Rightarrow> bool" where
  "blk_fits r \<longleftrightarrow> 0 < logical_len r \<and> unat (logical_start r) + unat (logical_len r) < 2 ^ 64"

lemma blk_fits_range:
  assumes "blk_fits r"
  shows "checked_add (logical_start r) (ucast (logical_len r) - 1) = Some (logical_start r + (ucast (logical_len r) - 1))"
    "lk_covers b (lookup_of i r) \<longleftrightarrow> covers b r"
proof -
  let ?n = "ucast (logical_len r) :: u64"
  have n: "unat ?n = unat (logical_len r)" by simp
  have pos: "0 < unat ?n" using assms n by (simp add: blk_fits_def word_less_nat_alt)
  have n1: "unat (?n - 1) = unat ?n - 1" using pos by (simp add: unat_sub_if')
  have sum: "unat (logical_start r) + unat ?n < 2 ^ 64" using assms n by (simp add: blk_fits_def)
  have add: "unat (logical_start r + (?n - 1)) = unat (logical_start r) + (unat ?n - 1)"
    using sum pos n1 by (simp add: unat_word_ariths)
  show "checked_add (logical_start r) (?n - 1) = Some (logical_start r + (?n - 1))"
    using sum n1 by (simp add: checked_add_def)
  have "unat (logical_end r) = unat (logical_start r) + unat ?n"
    using sum by (simp add: logical_end_def unat_saturating_add)
  then show "lk_covers b (lookup_of i r) \<longleftrightarrow> covers b r"
    using add pos by (auto simp: lk_covers_def covers_def lookup_of_def word_le_nat_alt word_less_nat_alt)
qed

text \<open>The table points at the active records of the block map, one entry for each.\<close>

definition lookup_matches :: "MapLookupRecord list \<Rightarrow> BlkMapRecord list \<Rightarrow> bool" where
  "lookup_matches ls rs \<longleftrightarrow>
     (\<forall>l\<in>set ls. \<exists>r\<in>set rs. is_active r \<and> l = lookup_of (lookup_id l) r) \<and>
     (\<forall>r\<in>set rs. is_active r \<longrightarrow> (\<exists>i. lookup_of i r \<in> set ls)) \<and>
     inj_on blk_map_ref_start (set ls)"

lemma lookup_matches_mset:
  "mset ls = mset ls' \<Longrightarrow> mset rs = mset rs' \<Longrightarrow> lookup_matches ls rs = lookup_matches ls' rs'"
  by (drule mset_eq_setD)+ (simp add: lookup_matches_def)

lemma lookup_of_sel [simp]:
  "lookup_id (lookup_of i r) = i" "logical_min (lookup_of i r) = logical_start r"
  "blk_map_ref_start (lookup_of i r) = record_id r" "blk_map_ref_end (lookup_of i r) = record_id r"
  by (simp_all add: lookup_of_def)

lemma lookup_max_less_iff:
  assumes "blk_fits r"
  shows "logical_max (lookup_of i r) < b \<longleftrightarrow> logical_end r \<le> b"
    "logical_min (lookup_of i r) \<le> logical_max (lookup_of i r)"
proof -
  have "unat (logical_start r + (ucast (logical_len r) - 1)) = unat (logical_start r) + (unat (logical_len r) - 1)"
    "unat (logical_end r) = unat (logical_start r) + unat (logical_len r)" "0 < unat (logical_len r)"
    using assms blk_fits_range(1) [OF assms]
    by (auto simp: blk_fits_def checked_add_Some logical_end_def unat_saturating_add unat_sub_if' word_less_nat_alt)
  then show "logical_max (lookup_of i r) < b \<longleftrightarrow> logical_end r \<le> b"
    "logical_min (lookup_of i r) \<le> logical_max (lookup_of i r)"
    by (auto simp: lookup_of_def word_le_nat_alt word_less_nat_alt)
qed

lemma lookup_matches_inv:
  assumes inv: "blk_inv rs" and fits: "\<forall>r\<in>set rs. is_active r \<longrightarrow> blk_fits r" and m: "lookup_matches ls rs"
  shows "lk_inv ls"
  unfolding lk_inv_def
proof (intro ballI conjI impI)
  fix a assume "a \<in> set ls"
  then obtain r where r: "r \<in> set rs" "is_active r" "a = lookup_of (lookup_id a) r" "blk_fits r"
    using m fits by (force simp: lookup_matches_def)
  show "logical_min a \<le> logical_max a" using lookup_max_less_iff(2) [OF r(4)] r(3) by metis
  fix b assume b: "b \<in> set ls" "a \<noteq> b"
  then obtain q where q: "q \<in> set rs" "is_active q" "b = lookup_of (lookup_id b) q" "blk_fits q"
    using m fits by (force simp: lookup_matches_def)
  have "blk_map_ref_start a \<noteq> blk_map_ref_start b"
    using m \<open>a \<in> set ls\<close> b by (auto simp: lookup_matches_def inj_on_def)
  then have "record_id r \<noteq> record_id q" using r(3) q(3) by (metis lookup_of_sel(3))
  then have "\<not> ranges_overlap r q" using inv r q by (auto simp: blk_inv_def)
  then have "logical_end q \<le> logical_start r \<or> logical_end r \<le> logical_start q"
    by (auto simp: ranges_overlap_def)
  then show "logical_max a < logical_min b \<or> logical_max b < logical_min a"
    using lookup_max_less_iff(1) [OF r(4)] lookup_max_less_iff(1) [OF q(4)] r(3) q(3) by (metis lookup_of_sel(2))
qed

lemma rebuilt_lookup_Ok:
  "\<forall>r\<in>set rs. blk_fits r \<Longrightarrow>
     rebuilt_lookup i rs = Ok (map2 lookup_of (map (\<lambda>k. i + of_nat k) [0..<length rs]) rs)"
proof (induction rs arbitrary: i)
  case (Cons r rs)
  have "map (\<lambda>k. i + of_nat k) [0..<length (r # rs)] = i # map (\<lambda>k. (i + 1) + of_nat k) [0..<length rs]"
    by (simp add: upt_conv_Cons map_Suc_upt [symmetric] add.assoc comp_def del: upt_Suc)
  moreover have "logical_len r \<noteq> 0" using Cons.prems by (auto simp: blk_fits_def)
  ultimately show ?case using Cons blk_fits_range(1) [of r]
    by (simp add: lookup_of_def)
qed simp

lemma rebuilt_matches:
  assumes inv: "blk_inv rs" and n: "length rs < 2 ^ 64"
    and ls: "ls = map2 lookup_of (map (\<lambda>k. i + of_nat k) [0..<length (filter is_active rs)]) (filter is_active rs)"
  shows "lookup_matches ls rs" "distinct (map lookup_id ls)" "map logical_min ls = map logical_start (filter is_active rs)"
    "length ls = length (filter is_active rs)"
proof -
  let ?as = "filter is_active rs" and ?ids = "map (\<lambda>k. i + of_nat k) [0..<length (filter is_active rs)]"
  have nth: "length ls = length ?as" "\<And>k. k < length ?as \<Longrightarrow> ls ! k = lookup_of (i + of_nat k) (?as ! k)"
    by (simp_all add: ls)
  show "length ls = length ?as" by (rule nth(1))
  show "map logical_min ls = map logical_start ?as" by (rule nth_equalityI) (simp_all add: nth)
  have "map lookup_id ls = ?ids" by (rule nth_equalityI) (simp_all add: nth)
  moreover have "length ?as < 2 ^ 64" using le_less_trans [OF length_filter_le n] .
  then have "distinct ?ids"
    by (auto simp: distinct_map inj_on_def word_of_nat_eq_iff take_bit_eq_mod)
  ultimately show "distinct (map lookup_id ls)" by simp
  have "distinct (map record_id ?as)" using inv by (simp add: blk_inv_def distinct_map_filter)
  moreover have "map blk_map_ref_start ls = map record_id ?as" by (rule nth_equalityI) (simp_all add: nth)
  ultimately have "distinct (map blk_map_ref_start ls)" by simp
  then have "inj_on blk_map_ref_start (set ls)" by (simp add: distinct_map)
  moreover have "\<exists>r\<in>set rs. is_active r \<and> l = lookup_of (lookup_id l) r" if l: "l \<in> set ls" for l
  proof -
    obtain k where k: "k < length ls" "l = ls ! k" using l by (metis in_set_conv_nth)
    then have "?as ! k \<in> set ?as" using nth(1) by (intro nth_mem) simp
    then show ?thesis using k nth by auto
  qed
  moreover have "\<exists>j. lookup_of j r \<in> set ls" if r: "r \<in> set rs" "is_active r" for r
  proof -
    have "r \<in> set ?as" using r by simp
    then obtain k where "k < length ?as" "r = ?as ! k" by (metis in_set_conv_nth)
    then show ?thesis using nth by (metis nth_mem)
  qed
  ultimately show "lookup_matches ls rs" by (auto simp: lookup_matches_def)
qed

lemma blk_rep_local:
  "files s' Blk_Map_File = files s Blk_Map_File \<Longrightarrow>
     append_file_cache s' Blk_Map_File = append_file_cache s Blk_Map_File \<Longrightarrow>
     blk_map_cache s' = blk_map_cache s \<Longrightarrow>
     blk_rep_any E s' log = blk_rep_any E s log \<and> blk_rep E s' log = blk_rep E s log"
  using append_cache_ok_local [of s' Blk_Map_File s E]
  by (simp add: blk_rep_defs sealed_def shaped_def blk_cache_valid_def)

lemma lookup_frame_blk_rep:
  "lookup_frame s s' \<Longrightarrow> blk_rep_any E s' log = blk_rep_any E s log \<and> blk_rep E s' log = blk_rep E s log"
  by (rule blk_rep_local) (simp_all add: lookup_frame_def others_same_def)

lemma blk_frame_lk_rep:
  assumes "blk_frame s s'"
  shows "lk_rep_any E s' log = lk_rep_any E s log \<and> lk_rep E s' log = lk_rep E s log"
proof -
  have "lookup_cache s' = lookup_cache s" using assms by (cases s, cases s') (simp add: blk_frame_def)
  then show ?thesis using assms by (intro lk.rep_local) (simp_all add: blk_frame_def others_same_def)
qed

lemma persist_lookup_run:
  assumes rs: "length rs \<le> MAX_MAINTENANCE_METADATA_RECORDS" "distinct (map lookup_id rs)"
    "sorted (map logical_min rs)" and E: "hash_order_ok E"
  shows "\<exists>s'. persist_lookup_records E rs s = (Ok (), s') \<and> lk_rep E s' rs \<and> lookup_frame s s'"
proof -
  have pl: "length (lk_encode_log_payload rs) + 96 < 2 ^ 64"
    using rs(1) lk.length_log_payload [of rs]
    by (simp add: lk_encode_log_payload_eq MAX_MAINTENANCE_METADATA_RECORDS_def)
  obtain s1 where w: "write_segment_file E Lookup_File KLookup 3 (of_nat (length rs)) (lk_encode_log_payload rs) s = (Ok (), s1)"
    "log_sealed E s1 Lookup_File KLookup (lk_encode_log_payload rs)" "frame Lookup_File s s1"
    using write_log_sealed [OF pl] by (metis (no_types) surj_pair)
  obtain buf where buf: "files s1 Lookup_File = Some buf" using w(2) by (auto simp: log_sealed_def sealed_def shaped_def)
  let ?c = "\<lparr>lk_stamp = buf, lk_sequence = of_nat (length rs), lk_records = rs,
        lk_next_lookup_id = next_lookup_id rs, lk_is_log_format = True\<rparr>"
  have "persist_lookup_records E rs s = (Ok (), lookup_cache_update (\<lambda>_. Some ?c) s1)"
    using w(1) buf by (simp add: persist_lookup_records_def lk_update_cache_def lk_file_stamp_def set_lookup_cache_def)
  moreover have "lk_entry_ok E ?c rs (log_payload LK_LOG_PREFIX lk_encode rs)"
    using rs mset_latest_values_distinct [OF E rs(2)] by (simp add: lk_entry_ok_def lk_view_def)
  then have "lk_rep E (lookup_cache_update (\<lambda>_. Some ?c) s1) rs"
    using lk.rep_any_set [of E s1 rs ?c] w(2) rs(1) by (simp add: table_rep_def lk_encode_log_payload_eq list.pred_True)
  ultimately show ?thesis using frame_lookup_frame [OF w(3)] by (metis lookup_frame_upd)
qed

lemma blk_view_length: "length (blk_view E log) \<le> length log" if "hash_order_ok E"
proof -
  have "length (blk_view E log) = card (record_id ` set (blk_view E log))"
    using distinct_keys_latest_values [OF that, of record_id log]
    by (metis blk_view_def distinct_card length_map set_map)
  also have "\<dots> = card (record_id ` set log)" by (simp add: blk_view_def keys_latest_values [OF that])
  also have "\<dots> \<le> length log" by (metis card_image_le card_length finite_set order_trans)
  finally show ?thesis .
qed

lemma rebuild_lookup_run:
  assumes rep: "blk_rep E s log" and inv: "blk_inv (blk_view E log)"
    and fits: "\<forall>r\<in>set (blk_view E log). is_active r \<longrightarrow> blk_fits r" and E: "hash_order_ok E"
  shows "\<exists>ls s'. rebuild_lookup_from_blk_map E s = (Ok (length ls), s') \<and> blk_rep E s' log \<and> lk_rep E s' ls \<and>
     lookup_matches ls (blk_view E log) \<and> distinct (map lookup_id ls) \<and>
     length ls = length (filter is_active (blk_view E log)) \<and>
     (\<exists>s1 c. s1 = blk_map_cache_update (\<lambda>_. Some c) s \<and> lookup_frame s1 s')"
proof -
  obtain c s1 where f1: "blk_ensure_cache_fresh E s = (Ok (), s1)" "blk_rep E s1 log"
    "blk_cache_valid E s1 c" "s1 = blk_map_cache_update (\<lambda>_. Some c) s"
    using blk_fresh [OF rep E] by blast
  have "blk_entry_ok c (blk_view E log)" using f1(2,3) by (auto elim: blk_repE)
  then have c: "mset (bm_records c) = mset (blk_view E log)" "sorted (map logical_start (bm_records c))"
    by (simp_all add: blk_entry_ok_def)
  let ?as = "filter is_active (bm_records c)"
  define ls where "ls = map2 lookup_of (map (\<lambda>k. 1 + of_nat k) [0..<length ?as]) ?as"
  have n: "length (bm_records c) \<le> MAX_MAINTENANCE_METADATA_RECORDS"
    using mset_eq_length [OF c(1)] blk_view_length [OF E, of log] rep by (simp add: blk_rep_def)
  have inv': "blk_inv (bm_records c)" using inv blk_inv_mset [OF c(1)] by simp
  have n64: "length (bm_records c) < 2 ^ 64" using n by (simp add: MAX_MAINTENANCE_METADATA_RECORDS_def)
  note ls = rebuilt_matches [OF inv' n64 ls_def]
  have "rebuilt_lookup 1 ?as = Ok ls" unfolding ls_def
    using fits mset_eq_setD [OF c(1)] by (intro rebuilt_lookup_Ok) auto
  moreover have "sorted (map logical_min ls)" using c(2) by (simp add: ls(3) sorted_filter)
  then obtain s2 where s2: "persist_lookup_records E ls s1 = (Ok (), s2)" "lk_rep E s2 ls" "lookup_frame s1 s2"
    using persist_lookup_run [OF _ ls(2) _ E, of s1] n ls(4) le_trans [OF length_filter_le n, of is_active] by auto
  ultimately have "rebuild_lookup_from_blk_map E s = (Ok (length ls), s2)"
    using f1(1,3) by (simp add: rebuild_lookup_from_blk_map_def load_blk_map_records_def blk_cache_entry_def
        blk_cache_valid_def)
  moreover have "mset ?as = mset (filter is_active (blk_view E log))" using c(1) by simp
  then have "length ls = length (filter is_active (blk_view E log))" using ls(4) mset_eq_length by metis
  moreover have "lookup_matches ls (blk_view E log)" using ls(1) lookup_matches_mset [OF refl c(1)] by simp
  ultimately show ?thesis using s2 lookup_frame_blk_rep [OF s2(3)] f1(2,4) ls(2) by blast
qed

section \<open>Properties\<close>

definition sample_lookup_store :: "BlkMapRecord list \<Rightarrow> lookup_store" where
  "sample_lookup_store log =
     \<lparr>files = files (sample_blk_store log), append_file_cache = (\<lambda>_. None), blk_map_cache = None, lookup_cache = None\<rparr>"

lemma sample_lookup_rep:
  "list_all blk_wf log \<Longrightarrow> length log \<le> 65536 \<Longrightarrow> blk_rep plain_externs (sample_lookup_store log) log"
  using blk_rep_any_file [of log "sample_lookup_store log"]
  by (simp add: blk_rep_def sample_lookup_store_def MAX_MAINTENANCE_METADATA_RECORDS_def)

text \<open>
  C22: After the lookup table has been rebuilt from the block map, a search for
  a block finds an entry exactly when some active record covers the block, and
  the entry names that record; the block map is unchanged.
\<close>

theorem rebuild_lookup_correct:
  assumes "blk_rep E s log" "blk_inv (blk_view E log)"
    and "\<forall>r\<in>set (blk_view E log). is_active r \<longrightarrow> blk_fits r" "hash_order_ok E"
  shows "\<exists>n s'. rebuild_lookup_from_blk_map E s = (Ok n, s') \<and> blk_rep E s' log \<and>
     n = length (filter is_active (blk_view E log)) \<and>
     (\<forall>b. \<exists>res s''. locate_logical_block E b s' = (Ok res, s'') \<and>
        (case res of
           None \<Rightarrow> \<not> (\<exists>r\<in>set (blk_view E log). is_active r \<and> covers b r)
         | Some l \<Rightarrow> \<exists>r\<in>set (blk_view E log). is_active r \<and> covers b r \<and>
             blk_map_ref_start l = record_id r \<and> blk_map_ref_end l = record_id r))"
proof -
  obtain ls s' where r: "rebuild_lookup_from_blk_map E s = (Ok (length ls), s')" "blk_rep E s' log" "lk_rep E s' ls"
    "lookup_matches ls (blk_view E log)" "distinct (map lookup_id ls)"
    "length ls = length (filter is_active (blk_view E log))"
    using rebuild_lookup_run [OF assms] by blast
  have view: "mset (lk_view E ls) = mset ls"
    using mset_latest_values_distinct [OF assms(4) r(5)] by (simp add: lk_view_def)
  have m: "lookup_matches (lk_view E ls) (blk_view E log)" using r(4) lookup_matches_mset [OF view refl] by simp
  note inv = lookup_matches_inv [OF assms(2,3) m]
  have "\<exists>res s''. locate_logical_block E b s' = (Ok res, s'') \<and>
        (case res of
           None \<Rightarrow> \<not> (\<exists>r\<in>set (blk_view E log). is_active r \<and> covers b r)
         | Some l \<Rightarrow> \<exists>r\<in>set (blk_view E log). is_active r \<and> covers b r \<and>
             blk_map_ref_start l = record_id r \<and> blk_map_ref_end l = record_id r)" for b
  proof -
    obtain res s'' where l: "locate_logical_block E b s' = (Ok res, s'')"
      "\<forall>l. res = Some l \<longleftrightarrow> l \<in> set (lk_view E ls) \<and> lk_covers b l"
      using locate_logical_run [OF r(3) inv assms(4), of b] by blast
    have "is_active r \<Longrightarrow> r \<in> set (blk_view E log) \<Longrightarrow> lk_covers b (lookup_of i r) \<longleftrightarrow> covers b r" for r i
      using blk_fits_range(2) assms(3) by blast
    then show ?thesis using l m unfolding lookup_matches_def
      by (intro exI [of _ res] exI [of _ s'']) (auto split: option.splits, (metis lookup_of_sel)+)
  qed
  then show ?thesis using r(1,2,6) by blast
qed

theorem rebuild_lookup_correct_witness:
  "\<exists>s' s'' l. rebuild_lookup_from_blk_map plain_externs (sample_lookup_store [sample_blk 1 0 10, sample_blk 2 10 5]) =
     (Ok 2, s') \<and> locate_logical_block plain_externs 12 s' = (Ok (Some l), s'') \<and> blk_map_ref_start l = 2"
proof -
  let ?log = "[sample_blk 1 0 10, sample_blk 2 10 5]"
  have view: "blk_view plain_externs ?log = ?log" by (rule sample_blk_view) simp
  have fits: "\<forall>r\<in>set (blk_view plain_externs ?log). is_active r \<longrightarrow> blk_fits r"
    by (simp add: view blk_fits_def) (simp add: sample_blk_def)
  have "blk_inv (blk_view plain_externs ?log)" using sample_blk_inv by (simp add: view)
  from rebuild_lookup_correct [OF sample_lookup_rep this fits plain_externs_ok(7), unfolded view] obtain s' where
    s': "rebuild_lookup_from_blk_map plain_externs (sample_lookup_store ?log) = (Ok (length (filter is_active ?log)), s')"
    "\<forall>b. \<exists>res s''. locate_logical_block plain_externs b s' = (Ok res, s'') \<and>
       (case res of None \<Rightarrow> \<not> (\<exists>r\<in>set ?log. is_active r \<and> covers b r)
         | Some l \<Rightarrow> \<exists>r\<in>set ?log. is_active r \<and> covers b r \<and>
             blk_map_ref_start l = record_id r \<and> blk_map_ref_end l = record_id r)"
    by auto
  obtain res s'' where l: "locate_logical_block plain_externs 12 s' = (Ok res, s'')"
    "case res of None \<Rightarrow> \<not> (\<exists>r\<in>set ?log. is_active r \<and> covers 12 r)
         | Some l \<Rightarrow> \<exists>r\<in>set ?log. is_active r \<and> covers 12 r \<and>
             blk_map_ref_start l = record_id r \<and> blk_map_ref_end l = record_id r"
    using s'(2) by blast
  then show ?thesis using s'(1) by (cases res) (auto simp: covers_def saturating_add_def)
qed

end
