(* ===== verification/Dedup.thy ===== *)
theory Dedup
  imports Map_Lookup
begin

text \<open>
  The deduplication index (\<^verbatim>\<open>storage/dedup.rs\<close>): which stored blob holds a
  payload with a given fingerprint, checksum and length, and how many block
  map records refer to it.  Entries are 52 bytes in a log; the cache holds the
  latest entries sorted by identifier with indexes by identity, fingerprint
  and identifier.
\<close>

section \<open>Data and codec\<close>

record DedupIndexEntry =
  entry_id :: u64
  fingerprint_hi :: u64
  fingerprint_lo :: u64
  de_payload_checksum :: u32
  de_logical_len :: u32
  stored_blob_id :: u64
  stored_len :: u32
  de_compression :: CompressionCodec
  identity_version :: u8
  ref_count :: u32

definition DEDUP_RECORD_SIZE :: nat where "DEDUP_RECORD_SIZE = 52"

text \<open>The ASCII prefix \<^verbatim>\<open>DDV2\<close>.\<close>

definition DD_LOG_PREFIX :: bytes where "DD_LOG_PREFIX = [0x44, 0x44, 0x56, 0x32]"

definition DEDUP_IDENTITY_BLAKE3_128 :: u8 where "DEDUP_IDENTITY_BLAKE3_128 = 1"

definition dd_encode :: "DedupIndexEntry \<Rightarrow> bytes" where
  "dd_encode e =
     to_le_bytes (entry_id e) @ to_le_bytes (fingerprint_hi e) @ to_le_bytes (fingerprint_lo e) @
     to_le_bytes (de_payload_checksum e) @ to_le_bytes (de_logical_len e) @
     to_le_bytes (stored_blob_id e) @ to_le_bytes (stored_len e) @ [codec_to_u8 (de_compression e)] @
     [identity_version e] @ [0, 0] @ to_le_bytes (ref_count e)"

definition dd_decode :: "bytes \<Rightarrow> (StorageError, DedupIndexEntry) result" where
  "dd_decode buf =
     (if length buf < DEDUP_RECORD_SIZE then Err (Corrupt ''dedup record too short'')
      else bind_r (codec_from_u8 (byte_at 44 buf)) (\<lambda>c.
        Ok \<lparr>entry_id = from_le_bytes (slice 0 8 buf), fingerprint_hi = from_le_bytes (slice 8 8 buf),
            fingerprint_lo = from_le_bytes (slice 16 8 buf),
            de_payload_checksum = from_le_bytes (slice 24 4 buf),
            de_logical_len = from_le_bytes (slice 28 4 buf),
            stored_blob_id = from_le_bytes (slice 32 8 buf), stored_len = from_le_bytes (slice 40 4 buf),
            de_compression = c, identity_version = byte_at 45 buf,
            ref_count = from_le_bytes (slice 48 4 buf)\<rparr>))"

definition dd_encode_log_payload :: "DedupIndexEntry list \<Rightarrow> bytes" where
  "dd_encode_log_payload es = DD_LOG_PREFIX @ concat (map dd_encode es)"

definition dd_decode_legacy_payload :: "bytes \<Rightarrow> (StorageError, DedupIndexEntry list) result" where
  "dd_decode_legacy_payload payload =
     (if length payload < 8 then Err (Corrupt ''dedup payload too short'')
      else bind_r (checked_metadata_record_count (unat (from_le_bytes (slice 0 8 payload) :: u64))) (\<lambda>n.
        if (length payload - 8) div DEDUP_RECORD_SIZE < n then Err (Corrupt ''dedup payload truncated'')
        else traverse dd_decode (take n (chunks DEDUP_RECORD_SIZE (drop 8 payload)))))"

definition dd_decode_log_payload :: "externs \<Rightarrow> bytes \<Rightarrow> (StorageError, DedupIndexEntry list) result" where
  "dd_decode_log_payload E payload =
     (if length payload < length DD_LOG_PREFIX then Err (Corrupt ''dedup log payload too short'')
      else let body = drop (length DD_LOG_PREFIX) payload in
        if length body mod DEDUP_RECORD_SIZE \<noteq> 0 then Err (Corrupt ''dedup log payload length mismatch'')
        else bind_r (checked_metadata_record_count (length body div DEDUP_RECORD_SIZE)) (\<lambda>_.
          bind_r (traverse dd_decode (chunks DEDUP_RECORD_SIZE body)) (\<lambda>es.
          Ok (sort_key entry_id (latest_values E entry_id es)))))"

definition dd_decode_payload :: "externs \<Rightarrow> bytes \<Rightarrow> (StorageError, DedupIndexEntry list) result" where
  "dd_decode_payload E payload =
     (if payload = [] then Ok []
      else if starts_with payload DD_LOG_PREFIX then dd_decode_log_payload E payload
      else dd_decode_legacy_payload payload)"

section \<open>Cache and state\<close>

datatype DedupLookup = Hit DedupIndexEntry | Collision | Miss

datatype DedupUpsertResult =
    UpsertHit DedupIndexEntry
  | Inserted DedupIndexEntry
  | CollisionInserted DedupIndexEntry

type_synonym DedupIdentityKey = "u64 \<times> u64 \<times> u32 \<times> u32"
type_synonym DedupFingerprintKey = "u64 \<times> u64"

definition identity_key_for :: "DedupIndexEntry \<Rightarrow> DedupIdentityKey" where
  "identity_key_for e = (fingerprint_hi e, fingerprint_lo e, de_payload_checksum e, de_logical_len e)"

definition fingerprint_key_for :: "DedupIndexEntry \<Rightarrow> DedupFingerprintKey" where
  "fingerprint_key_for e = (fingerprint_hi e, fingerprint_lo e)"

record CachedDedup =
  dd_stamp :: bytes
  dd_sequence :: u64
  dd_entries :: "DedupIndexEntry list"
  dd_identity_index :: "DedupIdentityKey \<Rightarrow> nat option"
  dd_fingerprint_index :: "DedupFingerprintKey \<Rightarrow> unit option"
  dd_id_index :: "u64 \<Rightarrow> nat option"
  dd_next_entry_id :: u64
  dd_log_format :: bool

record dedup_store = lookup_store +
  dedup_cache :: "CachedDedup option"

text \<open>Inserting the positions of the entries one after the other: the last position of a key stays.\<close>

definition index_by :: "('r \<Rightarrow> 'k) \<Rightarrow> 'r list \<Rightarrow> 'k \<Rightarrow> nat option" where
  "index_by key rs = map_of (rev (zip (map key rs) [0..<length rs]))"

definition build_cached_dedup :: "bytes \<Rightarrow> u64 \<Rightarrow> DedupIndexEntry list \<Rightarrow> bool \<Rightarrow> CachedDedup" where
  "build_cached_dedup stamp sq es fmt =
     \<lparr>dd_stamp = stamp, dd_sequence = sq, dd_entries = es,
      dd_identity_index = index_by identity_key_for es,
      dd_fingerprint_index = map_of (rev (map (\<lambda>e. (fingerprint_key_for e, ())) es)),
      dd_id_index = index_by entry_id es, dd_next_entry_id = next_id entry_id es, dd_log_format = fmt\<rparr>"

definition dd_file_stamp :: "('z dedup_store_scheme, StorageError, bytes) stm" where
  "dd_file_stamp s =
     (case files s Dedup_File of None \<Rightarrow> (Err (Io IoNotFound), s) | Some stamp \<Rightarrow> (Ok stamp, s))"

definition set_dedup_cache :: "CachedDedup option \<Rightarrow> ('z dedup_store_scheme, 'e, unit) stm" where
  "set_dedup_cache c = modify_s (dedup_cache_update (\<lambda>_. c))"

definition dd_loaded :: "bytes \<Rightarrow> SegmentHeader \<Rightarrow> bytes \<Rightarrow> DedupIndexEntry list \<Rightarrow> CachedDedup" where
  "dd_loaded stamp h payload es = build_cached_dedup stamp (sequence h) es (starts_with payload DD_LOG_PREFIX)"

definition dd_ensure_cache_fresh :: "externs \<Rightarrow> ('z dedup_store_scheme, StorageError, unit) stm" where
  "dd_ensure_cache_fresh E s =
     (if trust_hot_cache E \<and> dedup_cache s \<noteq> None then (Ok (), s)
      else bind_s dd_file_stamp (\<lambda>stamp s.
        if map_option dd_stamp (dedup_cache s) = Some stamp then (Ok (), s)
        else bind_s (read_segment_file_bounded E Dedup_File KDedup MAX_MAINTENANCE_METADATA_BYTES)
               (\<lambda>(h, payload).
             bind_s (lift_s (dd_decode_payload E payload)) (\<lambda>es.
             set_dedup_cache (Some (dd_loaded stamp h payload es)))) s) s)"

definition dd_cache_entry :: "('z dedup_store_scheme, StorageError, CachedDedup) stm" where
  "dd_cache_entry s =
     (case dedup_cache s of
        None \<Rightarrow> (Err (NotFound ''dedup cache not initialized''), s)
      | Some c \<Rightarrow> (Ok c, s))"

definition dd_update_cache :: "u64 \<Rightarrow> DedupIndexEntry list \<Rightarrow> ('z dedup_store_scheme, StorageError, unit) stm" where
  "dd_update_cache sq0 es =
     bind_s dd_file_stamp (\<lambda>stamp s.
     let sq = (if sq0 = 0 then (case dedup_cache s of None \<Rightarrow> 0 | Some c \<Rightarrow> dd_sequence c) else sq0) in
     set_dedup_cache (Some (build_cached_dedup stamp sq es True)) s)"

definition discard_dedup_cache :: "('z dedup_store_scheme, StorageError, unit) stm" where
  "discard_dedup_cache = set_dedup_cache None"

definition dedup_cache_ready :: "'z dedup_store_scheme \<Rightarrow> bool" where
  "dedup_cache_ready s = (dedup_cache s \<noteq> None)"

section \<open>Operations\<close>

definition fingerprint128 :: "externs \<Rightarrow> bytes \<Rightarrow> u64 \<times> u64" where
  "fingerprint128 E payload =
     (from_be_bytes (slice 0 8 (blake3_hash E payload)), from_be_bytes (slice 8 8 (blake3_hash E payload)))"

definition load_dedup_index ::
  "externs \<Rightarrow> ('z dedup_store_scheme, StorageError, u64 \<times> DedupIndexEntry list) stm" where
  "load_dedup_index E =
     bind_s (dd_ensure_cache_fresh E) (\<lambda>_.
     bind_s dd_cache_entry (\<lambda>c. ret_s (dd_sequence c, dd_entries c)))"

definition persist_dedup_entries ::
  "externs \<Rightarrow> DedupIndexEntry list \<Rightarrow> ('z dedup_store_scheme, StorageError, unit) stm" where
  "persist_dedup_entries E es =
     bind_s (write_segment_file E Dedup_File KDedup 5 (of_nat (length es)) (dd_encode_log_payload es)) (\<lambda>_.
     dd_update_cache (of_nat (length es)) es)"

definition dd_ensure_log_format ::
  "externs \<Rightarrow> DedupIndexEntry list \<Rightarrow> ('z dedup_store_scheme, StorageError, unit) stm" where
  "dd_ensure_log_format E es =
     bind_s (read_segment_file_bounded E Dedup_File KDedup MAX_MAINTENANCE_METADATA_BYTES) (\<lambda>(_, payload).
     if starts_with payload DD_LOG_PREFIX then ret_s () else persist_dedup_entries E es)"

definition dd_ensure_log_format_cached :: "externs \<Rightarrow> ('z dedup_store_scheme, StorageError, unit) stm" where
  "dd_ensure_log_format_cached E =
     bind_s dd_cache_entry (\<lambda>c.
     if dd_log_format c \<or> dd_entries c = [] then ret_s () else persist_dedup_entries E (dd_entries c))"

definition lookup_entry_by_id :: "externs \<Rightarrow> u64 \<Rightarrow> ('z dedup_store_scheme, StorageError, DedupIndexEntry) stm" where
  "lookup_entry_by_id E i =
     bind_s (dd_ensure_cache_fresh E) (\<lambda>_.
     bind_s dd_cache_entry (\<lambda>c.
     case dd_id_index c i of
       Some k \<Rightarrow> if k < length (dd_entries c) then ret_s (dd_entries c ! k)
                 else err_s (NotFound ''dedup entry not found'')
     | None \<Rightarrow> err_s (NotFound ''dedup entry not found'')))"

text \<open>\<^verbatim>\<open>cached.entries[index]\<close>: a position outside the entries is a panic.\<close>

definition dd_entry_at :: "CachedDedup \<Rightarrow> nat \<Rightarrow> ('z dedup_store_scheme, StorageError, DedupIndexEntry) stm" where
  "dd_entry_at c k =
     (if k < length (dd_entries c) then ret_s (dd_entries c ! k) else err_s (Internal ''index out of bounds''))"

definition lookup_identity ::
  "externs \<Rightarrow> DedupIdentityKey \<Rightarrow> ('z dedup_store_scheme, StorageError, DedupLookup) stm" where
  "lookup_identity E key =
     bind_s (dd_ensure_cache_fresh E) (\<lambda>_.
     bind_s dd_cache_entry (\<lambda>c.
     case dd_identity_index c key of
       Some k \<Rightarrow> bind_s (dd_entry_at c k) (\<lambda>e. ret_s (Hit e))
     | None \<Rightarrow>
         ret_s (if dd_fingerprint_index c (fst key, fst (snd key)) \<noteq> None then Collision else Miss)))"

text \<open>The end of every change: the header's sequence and the stamp of the file the cache now agrees with.\<close>

definition dd_commit ::
  "externs \<Rightarrow> SegmentHeader \<Rightarrow> CachedDedup \<Rightarrow> 'a \<Rightarrow> ('z dedup_store_scheme, StorageError, 'a) stm" where
  "dd_commit E h c result =
     bind_s (set_dedup_cache (Some (c\<lparr>dd_sequence := sequence h\<rparr>))) (\<lambda>_.
     bind_s (if trust_hot_cache E then ret_s (dd_stamp c) else dd_file_stamp) (\<lambda>stamp.
     bind_s (set_dedup_cache (Some (c\<lparr>dd_sequence := sequence h, dd_stamp := stamp, dd_log_format := True\<rparr>))) (\<lambda>_.
     ret_s result)))"

text \<open>
  A new entry: the next identifier, the append to the file, the entry at the
  end of the cached entries and its position in the indexes.
\<close>

definition dd_insert_entry ::
  "externs \<Rightarrow> CachedDedup \<Rightarrow> DedupIndexEntry \<Rightarrow> ('z dedup_store_scheme, StorageError, DedupIndexEntry) stm" where
  "dd_insert_entry E c entry =
     (if dd_next_entry_id c = - 1 then err_s (Conflict ''dedup entry ID space is exhausted'')
      else
        let e = entry\<lparr>entry_id := dd_next_entry_id c\<rparr> in
        bind_s (append_segment_payload E Dedup_File KDedup 5 DD_LOG_PREFIX (dd_encode e)) (\<lambda>h.
        let k = length (dd_entries c);
            c1 = c\<lparr>dd_entries := dd_entries c @ [e],
                   dd_identity_index := (dd_identity_index c)(identity_key_for e \<mapsto> k),
                   dd_fingerprint_index := (dd_fingerprint_index c)(fingerprint_key_for e \<mapsto> ()),
                   dd_id_index := (dd_id_index c)(entry_id e \<mapsto> k)\<rparr> in
        bind_s (set_dedup_cache (Some c1)) (\<lambda>_.
        bind_s (lift_s (ok_or (checked_add (dd_next_entry_id c) 1)
                          (Conflict ''dedup entry ID space is exhausted''))) (\<lambda>n.
        dd_commit E h (c1\<lparr>dd_next_entry_id := n\<rparr>) e))))"

definition upsert_dedup_entry ::
  "externs \<Rightarrow> DedupIndexEntry \<Rightarrow> ('z dedup_store_scheme, StorageError, DedupUpsertResult) stm" where
  "upsert_dedup_entry E entry =
     bind_s (dd_ensure_cache_fresh E) (\<lambda>_.
     bind_s (dd_ensure_log_format_cached E) (\<lambda>_.
     bind_s dd_cache_entry (\<lambda>c.
     case dd_identity_index c (identity_key_for entry) of
       Some k \<Rightarrow>
         bind_s (dd_entry_at c k) (\<lambda>found.
         bind_s (lift_s (ok_or (checked_add (ref_count found) 1) (Conflict ''dedup refcount overflow''))) (\<lambda>n.
         let hit = found\<lparr>ref_count := n\<rparr>;
             hit = (if identity_version hit = 0 \<and> identity_version entry \<noteq> 0
                    then hit\<lparr>identity_version := identity_version entry\<rparr> else hit) in
         bind_s (append_segment_payload E Dedup_File KDedup 5 DD_LOG_PREFIX (dd_encode hit)) (\<lambda>h.
         dd_commit E h (c\<lparr>dd_entries := (dd_entries c)[k := hit]\<rparr>) (UpsertHit hit))))
     | None \<Rightarrow>
         let saw_collision = (dd_fingerprint_index c (fingerprint_key_for entry) \<noteq> None) in
         bind_s (dd_insert_entry E c entry) (\<lambda>e.
         ret_s (if saw_collision then CollisionInserted e else Inserted e)))))"

definition insert_dedup_collision_entry ::
  "externs \<Rightarrow> DedupIndexEntry \<Rightarrow> ('z dedup_store_scheme, StorageError, DedupIndexEntry) stm" where
  "insert_dedup_collision_entry E entry =
     bind_s (dd_ensure_cache_fresh E) (\<lambda>_.
     bind_s (dd_ensure_log_format_cached E) (\<lambda>_.
     bind_s dd_cache_entry (\<lambda>c. dd_insert_entry E c entry)))"

text \<open>
  The counters are decremented in the cached entries one identifier at a
  time; an identifier that fails leaves the earlier ones decremented.
\<close>

fun dec_refs ::
  "(u64 \<Rightarrow> nat option) \<Rightarrow> u64 list \<Rightarrow> DedupIndexEntry list \<Rightarrow>
   (StorageError, DedupIndexEntry list) result \<times> DedupIndexEntry list" where
  "dec_refs idx [] es = (Ok [], es)"
| "dec_refs idx (i # is) es =
     (case idx i of
        None \<Rightarrow> (Err (NotFound ''dedup entry not found''), es)
      | Some k \<Rightarrow>
          if \<not> k < length es then (Err (Internal ''index out of bounds''), es)
          else if ref_count (es ! k) = 0 then (Err (Conflict ''dedup refcount underflow''), es)
          else
            let e = (es ! k)\<lparr>ref_count := ref_count (es ! k) - 1\<rparr> in
            (case dec_refs idx is (es[k := e]) of
               (Ok updated, es') \<Rightarrow> (Ok (e # updated), es')
             | (Err err, es') \<Rightarrow> (Err err, es')))"

definition decrement_ref_counts ::
  "externs \<Rightarrow> u64 list \<Rightarrow> ('z dedup_store_scheme, StorageError, DedupIndexEntry list) stm" where
  "decrement_ref_counts E entry_ids =
     (if entry_ids = [] then ret_s []
      else
        bind_s (dd_ensure_cache_fresh E) (\<lambda>_.
        bind_s (dd_ensure_log_format_cached E) (\<lambda>_.
        bind_s dd_cache_entry (\<lambda>c.
        let (updated, es) = dec_refs (dd_id_index c) entry_ids (dd_entries c); c1 = c\<lparr>dd_entries := es\<rparr> in
        bind_s (set_dedup_cache (Some c1)) (\<lambda>_.
        bind_s (lift_s updated) (\<lambda>updated.
        bind_s (append_segment_payload E Dedup_File KDedup 5 DD_LOG_PREFIX (concat (map dd_encode updated))) (\<lambda>h.
        dd_commit E h c1 updated)))))))"

definition decrement_ref_count ::
  "externs \<Rightarrow> u64 \<Rightarrow> ('z dedup_store_scheme, StorageError, DedupIndexEntry) stm" where
  "decrement_ref_count E i =
     bind_s (decrement_ref_counts E [i]) (\<lambda>updated.
     if updated = [] then err_s (NotFound ''dedup entry not found'') else ret_s (last updated))"

fun count_refs :: "(u64 \<Rightarrow> u32) \<Rightarrow> u64 list \<Rightarrow> (StorageError, u64 \<Rightarrow> u32) result" where
  "count_refs refs [] = Ok refs"
| "count_refs refs (i # is) =
     bind_r (ok_or (checked_add (refs i) 1) (Conflict ''dedup refcount overflow'')) (\<lambda>n.
     count_refs (refs(i := n)) is)"

definition retarget :: "(u64 \<Rightarrow> u32) \<Rightarrow> DedupIndexEntry \<Rightarrow> DedupIndexEntry" where
  "retarget refs e = e\<lparr>ref_count := refs (entry_id e)\<rparr>"

definition rebuild_ref_counts :: "externs \<Rightarrow> u64 list \<Rightarrow> ('z dedup_store_scheme, StorageError, nat) stm" where
  "rebuild_ref_counts E referenced =
     bind_s (load_dedup_index E) (\<lambda>(_, es).
     bind_s (lift_s (count_refs (\<lambda>_. 0) referenced)) (\<lambda>refs.
     bind_s (dd_ensure_log_format E es) (\<lambda>_.
     let changed = map (retarget refs) (filter (\<lambda>e. ref_count e \<noteq> refs (entry_id e)) es);
         es' = map (retarget refs) es in
     if changed \<noteq> []
     then bind_s (append_segment_payload E Dedup_File KDedup 5 DD_LOG_PREFIX (concat (map dd_encode changed))) (\<lambda>h.
          bind_s (dd_update_cache (sequence h) es') (\<lambda>_. ret_s (length changed)))
     else bind_s (dd_update_cache 0 es') (\<lambda>_. ret_s 0))))"

section \<open>The index and its file\<close>

lemma length_dd_encode [simp]: "length (dd_encode e) = 52"
  by (simp add: dd_encode_def)

lemma dd_decode_encode [codec]: "dd_decode (dd_encode e) = Ok e"
  by (simp add: dd_decode_def dd_encode_def DEDUP_RECORD_SIZE_def byte_at_def del: bind_r_Ok)

lemma length_DD_LOG_PREFIX [simp]: "length DD_LOG_PREFIX = 4"
  by (simp add: DD_LOG_PREFIX_def)

lemma DD_LOG_PREFIX_ne [simp]: "DD_LOG_PREFIX \<noteq> []"
  by (simp add: DD_LOG_PREFIX_def)

lemma dd_encode_log_payload_eq: "dd_encode_log_payload = log_payload DD_LOG_PREFIX dd_encode"
  by (rule ext) (simp add: dd_encode_log_payload_def log_payload_def)

interpretation ddc: record_codec dd_encode dd_decode 52 "\<lambda>_. True"
  by unfold_locales (simp_all add: dd_decode_encode)

text \<open>Identifiers are unique after loading, so the sorted entries do not depend on the hash order.\<close>

definition dd_view :: "DedupIndexEntry list \<Rightarrow> DedupIndexEntry list" where
  "dd_view log = sort_key entry_id (map snd (latest_by entry_id log))"

lemma sorted_key_unique:
  fixes key :: "'r \<Rightarrow> 'k::linorder"
  assumes "mset xs = mset ys" "distinct (map key xs)" "sorted (map key xs)" "sorted (map key ys)"
  shows "xs = ys"
proof (rule map_sorted_distinct_set_unique [where f = key])
  have "distinct (map key ys)" using assms(1,2) by (metis mset_eq_imp_distinct_iff mset_map)
  then show "distinct (map key ys)" .
  show "inj_on key (set xs \<union> set ys)" using assms(2) mset_eq_setD [OF assms(1)] by (simp add: distinct_map)
qed (use assms mset_eq_setD [OF assms(1)] in simp_all)

lemma dd_view_eq:
  assumes "hash_order_ok E"
  shows "sort_key entry_id (latest_values E entry_id log) = dd_view log"
proof (rule sorted_key_unique [where key = entry_id])
  show "mset (sort_key entry_id (latest_values E entry_id log)) = mset (dd_view log)"
    by (simp add: dd_view_def latest_values_def hash_values_perm [OF assms distinct_latest_by])
  have "mset (map entry_id (sort_key entry_id (latest_values E entry_id log))) =
      mset (map entry_id (latest_values E entry_id log))" by simp
  then show "distinct (map entry_id (sort_key entry_id (latest_values E entry_id log)))"
    using distinct_keys_latest_values [OF assms] by (metis mset_eq_imp_distinct_iff)
qed (simp_all add: dd_view_def)

lemma mset_dd_view: "mset (dd_view log) = mset (latest_values plain_externs entry_id log)"
  by (simp flip: dd_view_eq [OF plain_externs_ok(7)])

lemma dd_view_sorted [simp]: "sorted (map entry_id (dd_view log))" "distinct (map entry_id (dd_view log))"
proof -
  show "sorted (map entry_id (dd_view log))" by (simp add: dd_view_def)
  have "mset (map entry_id (dd_view log)) = mset (map entry_id (latest_values plain_externs entry_id log))"
    by (simp add: mset_dd_view)
  then show "distinct (map entry_id (dd_view log))"
    using distinct_keys_latest_values [OF plain_externs_ok(7)] by (metis mset_eq_imp_distinct_iff)
qed

lemma dd_view_Nil [simp]: "dd_view [] = []"
  by (simp add: dd_view_def)

lemma dd_view_ids: "entry_id ` set (dd_view log) = entry_id ` set log"
  using keys_latest_values [OF plain_externs_ok(7)] mset_eq_setD [OF mset_dd_view] by metis

lemma dd_view_new:
  assumes "\<forall>x\<in>set (dd_view log). entry_id x < entry_id e"
  shows "dd_view (log @ [e]) = dd_view log @ [e]"
proof (rule sorted_key_unique [where key = entry_id])
  have "entry_id e \<notin> entry_id ` set log" using assms dd_view_ids [of log] by force
  then show "mset (dd_view (log @ [e])) = mset (dd_view log @ [e])"
    using mset_latest_values_snoc [OF plain_externs_ok(7)] by (simp add: mset_dd_view)
  show "sorted (map entry_id (dd_view log @ [e]))" using assms by (auto simp: sorted_append intro: less_imp_le)
qed simp_all

lemma dd_view_update:
  assumes "entry_id e \<in> entry_id ` set (dd_view log)"
  shows "dd_view (log @ [e]) = map (\<lambda>x. if entry_id x = entry_id e then e else x) (dd_view log)"
proof (rule sorted_key_unique [where key = entry_id])
  let ?f = "\<lambda>x. if entry_id x = entry_id e then e else x"
  have "entry_id e \<in> entry_id ` set log" using assms by (simp add: dd_view_ids)
  then show "mset (dd_view (log @ [e])) = mset (map ?f (dd_view log))"
    using mset_latest_values_update [OF plain_externs_ok(7)] by (simp add: mset_dd_view)
  have "map entry_id (map ?f (dd_view log)) = map entry_id (dd_view log)" by simp
  then show "sorted (map entry_id (map ?f (dd_view log)))" by (metis dd_view_sorted(1))
qed simp_all

lemma dd_view_list_update:
  assumes "k < length (dd_view log)" "entry_id e = entry_id (dd_view log ! k)"
  shows "dd_view (log @ [e]) = (dd_view log)[k := e]"
proof -
  have "entry_id e \<in> entry_id ` set (dd_view log)" using assms by (auto intro: image_eqI [OF _ nth_mem])
  moreover have "entry_id (dd_view log ! j) = entry_id e \<longleftrightarrow> j = k" if "j < length (dd_view log)" for j
    using dd_view_sorted(2) [of log] that assms
    by (metis length_map nth_eq_iff_index_eq nth_map)
  ultimately show ?thesis by (simp add: dd_view_update) (rule nth_equalityI, auto simp: nth_list_update)
qed

definition dd_entry_ok :: "externs \<Rightarrow> CachedDedup \<Rightarrow> DedupIndexEntry list \<Rightarrow> bytes \<Rightarrow> bool" where
  "dd_entry_ok E c log payload \<longleftrightarrow>
     c = build_cached_dedup (dd_stamp c) (dd_sequence c) (dd_view log) (dd_log_format c) \<and>
     (\<not> dd_log_format c \<longrightarrow> log = [])"

lemma segment_more_dedup:
  "segment_store.more s' = segment_store.more s \<Longrightarrow>
     blk_map_cache s' = blk_map_cache s \<and> lookup_cache s' = lookup_cache s \<and> dedup_cache s' = dedup_cache s \<and>
     dedup_store.more s' = dedup_store.more s"
  by (cases s, cases s') simp

lemma dd_decode_log:
  assumes "length log \<le> MAX_MAINTENANCE_METADATA_RECORDS" "hash_order_ok E"
  shows "dd_decode_payload E (log_payload DD_LOG_PREFIX dd_encode log) = Ok (dd_view log)"
  using assms ddc.decode_all [of log] ddc.length_concat_enc [of log]
  by (simp add: dd_decode_payload_def dd_decode_log_payload_def log_payload_def DEDUP_RECORD_SIZE_def
      Let_def checked_metadata_record_count_def list.pred_True dd_view_eq del: length_concat bind_r_Ok)

lemma dd_loaded_sel [simp]:
  "dd_stamp (build_cached_dedup st sq es b) = st" "dd_sequence (build_cached_dedup st sq es b) = sq"
  "dd_entries (build_cached_dedup st sq es b) = es" "dd_log_format (build_cached_dedup st sq es b) = b"
  "dd_identity_index (build_cached_dedup st sq es b) = index_by identity_key_for es"
  "dd_id_index (build_cached_dedup st sq es b) = index_by entry_id es"
  "dd_next_entry_id (build_cached_dedup st sq es b) = next_id entry_id es"
  by (simp_all add: build_cached_dedup_def)

interpretation dd: log_table dd_encode dd_decode 52 "\<lambda>_. True" Dedup_File KDedup DD_LOG_PREFIX dd_decode_payload
  dedup_cache dedup_cache_update dd_stamp dd_loaded dd_entry_ok dd_ensure_cache_fresh
proof unfold_locales
  fix E log payload
  assume E: "hash_order_ok E" and n: "length log \<le> MAX_MAINTENANCE_METADATA_RECORDS"
    and p: "payload_of DD_LOG_PREFIX dd_encode log payload"
  have "dd_decode_payload E payload = Ok (dd_view log)"
    using p dd_decode_log [OF n E] by (auto simp: payload_of_def dd_decode_payload_def)
  moreover have "starts_with payload DD_LOG_PREFIX \<or> log = []"
    using p by (auto simp: payload_of_def log_payload_def)
  ultimately show "\<exists>rs. dd_decode_payload E payload = Ok rs \<and>
      (\<forall>st h. dd_entry_ok E (dd_loaded st h payload rs) log payload)"
    by (auto simp: dd_entry_ok_def dd_loaded_def)
qed (auto dest: segment_more_dedup simp: dd_entry_ok_def dd_loaded_def dd_ensure_cache_fresh_def dd_file_stamp_def
    set_dedup_cache_def bind_s_def log_payload_def split: option.splits)

abbreviation dd_rep_any :: "externs \<Rightarrow> 'z dedup_store_scheme \<Rightarrow> DedupIndexEntry list \<Rightarrow> bool" where
  "dd_rep_any E \<equiv> table_rep_any E Dedup_File KDedup DD_LOG_PREFIX dd_encode (\<lambda>_. True) dedup_cache dd_stamp dd_entry_ok"

abbreviation dd_rep :: "externs \<Rightarrow> 'z dedup_store_scheme \<Rightarrow> DedupIndexEntry list \<Rightarrow> bool" where
  "dd_rep E \<equiv> table_rep E Dedup_File KDedup DD_LOG_PREFIX dd_encode (\<lambda>_. True) dedup_cache dd_stamp dd_entry_ok"

definition dedup_frame :: "'z dedup_store_scheme \<Rightarrow> 'z dedup_store_scheme \<Rightarrow> bool" where
  "dedup_frame s s' \<longleftrightarrow> others_same Dedup_File s s' \<and> blk_map_cache s' = blk_map_cache s \<and>
     lookup_cache s' = lookup_cache s \<and> dedup_store.more s' = dedup_store.more s"

lemma dedup_frame_trans: "dedup_frame s s' \<Longrightarrow> dedup_frame s' s'' \<Longrightarrow> dedup_frame s s''"
  by (auto simp: dedup_frame_def intro: others_same_trans)

lemma dedup_frame_upd [simp]:
  "dedup_frame s (dedup_cache_update g s') = dedup_frame s s'" "dedup_frame (dedup_cache_update g s) s' = dedup_frame s s'"
  by (simp_all add: dedup_frame_def others_same_def)

lemma frame_dedup_frame: "frame Dedup_File s s' \<Longrightarrow> dedup_frame s s'"
  by (auto simp: frame_def dedup_frame_def dest: segment_more_dedup)

lemma dedup_frame_refl [simp]: "dedup_frame s s"
  by (simp add: dedup_frame_def)

lemma index_by_snoc: "index_by key (rs @ [r]) = (index_by key rs)(key r \<mapsto> length rs)"
  by (simp add: index_by_def)

lemma index_by_cong: "map key rs = map key rs' \<Longrightarrow> index_by key rs = index_by key rs'"
  by (simp add: index_by_def) (metis length_map)

lemma index_by_Some: "index_by key rs k = Some i \<Longrightarrow> i < length rs \<and> key (rs ! i) = k"
  by (induction rs rule: rev_induct) (auto simp: index_by_snoc nth_append split: if_splits, simp add: index_by_def)

lemma index_by_None: "index_by key rs k = None \<longleftrightarrow> k \<notin> key ` set rs"
  by (induction rs rule: rev_induct) (auto simp: index_by_snoc, simp add: index_by_def)

lemma index_by_distinct:
  assumes "distinct (map key rs)"
  shows "index_by key rs k = Some i \<longleftrightarrow> i < length rs \<and> key (rs ! i) = k"
proof
  assume i: "i < length rs \<and> key (rs ! i) = k"
  then have "k \<in> key ` set rs" by auto
  then obtain j where j: "index_by key rs k = Some j" using index_by_None [of key rs k] by auto
  with index_by_Some [OF j] i assms have "i = j" by (metis length_map nth_eq_iff_index_eq nth_map)
  with j show "index_by key rs k = Some i" by simp
qed (rule index_by_Some)

text \<open>The incremental changes of the cache give what rebuilding it from the entries gives.\<close>

lemma build_dedup_snoc:
  assumes "entry_id e = next_id entry_id es" "next_id entry_id es \<noteq> - 1"
  shows "(build_cached_dedup st sq es b)\<lparr>dd_entries := es @ [e],
       dd_identity_index := (index_by identity_key_for es)(identity_key_for e \<mapsto> length es),
       dd_fingerprint_index := (dd_fingerprint_index (build_cached_dedup st sq es b))(fingerprint_key_for e \<mapsto> ()),
       dd_id_index := (index_by entry_id es)(entry_id e \<mapsto> length es),
       dd_next_entry_id := next_id entry_id es + 1\<rparr> = build_cached_dedup st sq (es @ [e]) b"
proof -
  have "checked_add (entry_id e) 1 = Some (next_id entry_id es + 1)" using checked_succ_Some assms by metis
  moreover have "next_id entry_id es \<le> next_id entry_id es + 1"
    using checked_succ_Some [OF assms(2)] by (simp add: checked_add_Some word_le_nat_alt)
  ultimately have "next_id entry_id (es @ [e]) = next_id entry_id es + 1"
    by (simp add: next_id_snoc [of entry_id e] max_def)
  then show ?thesis by (simp add: build_cached_dedup_def index_by_snoc)
qed

lemma build_dedup_cong:
  assumes "map identity_key_for es = map identity_key_for es'" "map entry_id es = map entry_id es'"
  shows "(build_cached_dedup st sq es b)\<lparr>dd_entries := es'\<rparr> = build_cached_dedup st sq es' b"
proof -
  let ?fp = "\<lambda>(a :: u64, b :: u64, c :: u32, d :: u32). ((a, b), ())"
  have fp: "map (\<lambda>e. (fingerprint_key_for e, ())) xs = map ?fp (map identity_key_for xs)" for xs
    by (simp add: identity_key_for_def fingerprint_key_for_def)
  show ?thesis using index_by_cong [OF assms(1)] index_by_cong [OF assms(2)] assms(2)
    unfolding build_cached_dedup_def fp assms(1) by (simp add: next_id_def)
qed

lemma dd_commit_run:
  assumes p: "log_sealed E s Dedup_File KDedup (log_payload DD_LOG_PREFIX dd_encode log)"
    and c: "c = build_cached_dedup (dd_stamp c) (dd_sequence c) (dd_view log) (dd_log_format c)"
  shows "\<exists>s'. dd_commit E h c r s = (Ok r, s') \<and> dd_rep_any E s' log \<and> dedup_frame s s'"
proof -
  obtain buf where buf: "files s Dedup_File = Some buf" using p by (auto simp: log_sealed_def sealed_def shaped_def)
  let ?c = "c\<lparr>dd_sequence := sequence h, dd_stamp := (if trust_hot_cache E then dd_stamp c else buf), dd_log_format := True\<rparr>"
  have "dd_commit E h c r s = (Ok r, dedup_cache_update (\<lambda>_. Some ?c) s)"
    using buf by (simp add: dd_commit_def set_dedup_cache_def dd_file_stamp_def)
  moreover have "dd_entry_ok E ?c log (log_payload DD_LOG_PREFIX dd_encode log)"
    by (subst c) (simp add: dd_entry_ok_def build_cached_dedup_def)
  then have "dd_rep_any E (dedup_cache_update (\<lambda>_. Some ?c) s) log"
    by (rule dd.rep_any_set [OF p]) (simp add: list.pred_True)
  ultimately show ?thesis by (metis dedup_frame_refl dedup_frame_upd(1))
qed

section \<open>Inserting and counting\<close>

text \<open>Every change starts from a fresh cache entry that is built from the log of the file.\<close>

lemma dd_open_run:
  assumes rep: "dd_rep E s log" and hash: "hash_order_ok E"
  shows "\<exists>c payload. dd_ensure_cache_fresh E s = (Ok (), dedup_cache_update (\<lambda>_. Some c) s) \<and>
     dd_rep E (dedup_cache_update (\<lambda>_. Some c) s) log \<and>
     dd_ensure_log_format_cached E (dedup_cache_update (\<lambda>_. Some c) s) = (Ok (), dedup_cache_update (\<lambda>_. Some c) s) \<and>
     dd_cache_entry (dedup_cache_update (\<lambda>_. Some c) s) = (Ok c, dedup_cache_update (\<lambda>_. Some c) s) \<and>
     c = build_cached_dedup (dd_stamp c) (dd_sequence c) (dd_view log) (dd_log_format c) \<and>
     log_sealed E (dedup_cache_update (\<lambda>_. Some c) s) Dedup_File KDedup payload \<and>
     payload_of DD_LOG_PREFIX dd_encode log payload"
proof -
  obtain c payload where f: "dd_ensure_cache_fresh E s = (Ok (), dedup_cache_update (\<lambda>_. Some c) s)"
    "dd_rep E (dedup_cache_update (\<lambda>_. Some c) s) log" "dd_entry_ok E c log payload"
    "log_sealed E s Dedup_File KDedup payload" "payload_of DD_LOG_PREFIX dd_encode log payload"
    using dd.fresh_run [OF rep hash] by blast
  have c: "c = build_cached_dedup (dd_stamp c) (dd_sequence c) (dd_view log) (dd_log_format c)"
    "dd_log_format c \<or> log = []" using f(3) by (auto simp: dd_entry_ok_def)
  have es: "dd_entries c = dd_view log" by (subst c(1)) simp
  have "dd_log_format c \<or> dd_entries c = []" unfolding es using c(2) by auto
  then show ?thesis using f c(1) log_sealed_cong [of "dedup_cache_update (\<lambda>_. Some c) s" s]
    by (intro exI [of _ c] exI [of _ payload])
      (simp add: dd_ensure_log_format_cached_def dd_cache_entry_def)
qed

lemma dd_append_run:
  assumes "log_sealed E s Dedup_File KDedup payload" "payload_of DD_LOG_PREFIX dd_encode log payload"
    and "length log + length new \<le> 2 * MAX_MAINTENANCE_METADATA_RECORDS" "new \<noteq> []"
    and "crc_ok E" "integrity32 E (dd_encode_log_payload log) \<noteq> 0"
  shows "\<exists>h s'. append_segment_payload E Dedup_File KDedup 5 DD_LOG_PREFIX (concat (map dd_encode new)) s = (Ok h, s') \<and>
     log_sealed E s' Dedup_File KDedup (log_payload DD_LOG_PREFIX dd_encode (log @ new)) \<and>
     dedup_frame s s' \<and> dedup_cache s' = dedup_cache s"
proof -
  have "payload = [] \<or> integrity32 E payload \<noteq> 0"
    using assms(2,6) by (auto simp: payload_of_def dd_encode_log_payload_eq)
  from dd.append_run [OF assms(1-5) this, of 5] show ?thesis using frame_dedup_frame by blast
qed

lemma next_entry_id_above: "next_id entry_id es \<noteq> - 1 \<Longrightarrow> \<forall>x\<in>set es. entry_id x < next_id entry_id es"
  using next_id_fresh [of entry_id es] by blast

lemma dd_insert_run:
  assumes p: "log_sealed E s Dedup_File KDedup payload" "payload_of DD_LOG_PREFIX dd_encode log payload"
    and c: "dedup_cache s = Some c" "c = build_cached_dedup (dd_stamp c) (dd_sequence c) (dd_view log) (dd_log_format c)"
    and room: "length log \<le> MAX_MAINTENANCE_METADATA_RECORDS" and id: "next_id entry_id (dd_view log) \<noteq> - 1"
    and E: "crc_ok E" "integrity32 E (dd_encode_log_payload log) \<noteq> 0"
  shows "\<exists>s'. let e = entry\<lparr>entry_id := next_id entry_id (dd_view log)\<rparr> in
     dd_insert_entry E c entry s = (Ok e, s') \<and> dd_rep_any E s' (log @ [e]) \<and> dd_view (log @ [e]) = dd_view log @ [e] \<and>
     dedup_frame s s'"
proof -
  let ?e = "entry\<lparr>entry_id := next_id entry_id (dd_view log)\<rparr>"
  have n: "dd_next_entry_id c = next_id entry_id (dd_view log)" by (subst c(2)) simp
  have view: "dd_view (log @ [?e]) = dd_view log @ [?e]"
    by (rule dd_view_new) (use next_entry_id_above [OF id] in simp)
  obtain h s1 where app: "append_segment_payload E Dedup_File KDedup 5 DD_LOG_PREFIX (dd_encode ?e) s = (Ok h, s1)"
    "log_sealed E s1 Dedup_File KDedup (log_payload DD_LOG_PREFIX dd_encode (log @ [?e]))" "dedup_frame s s1"
    using dd_append_run [OF p _ _ E, of "[?e]"] room by (auto simp: MAX_MAINTENANCE_METADATA_RECORDS_def)
  let ?c1 = "c\<lparr>dd_entries := dd_entries c @ [?e],
      dd_identity_index := (dd_identity_index c)(identity_key_for ?e \<mapsto> length (dd_entries c)),
      dd_fingerprint_index := (dd_fingerprint_index c)(fingerprint_key_for ?e \<mapsto> ()),
      dd_id_index := (dd_id_index c)(entry_id ?e \<mapsto> length (dd_entries c))\<rparr>"
  let ?c2 = "?c1\<lparr>dd_next_entry_id := next_id entry_id (dd_view log) + 1\<rparr>"
  have c2: "?c2 = build_cached_dedup (dd_stamp c) (dd_sequence c) (dd_view (log @ [?e])) (dd_log_format c)"
  proof -
    obtain st sq b where c': "c = build_cached_dedup st sq (dd_view log) b" using c(2) by metis
    show ?thesis unfolding view c' using build_dedup_snoc [OF _ id, of ?e st sq b] by simp
  qed
  have "?c2 = build_cached_dedup (dd_stamp ?c2) (dd_sequence ?c2) (dd_view (log @ [?e])) (dd_log_format ?c2)"
    using c2 by simp
  from dd_commit_run [OF _ this, of E "dedup_cache_update (\<lambda>_. Some ?c1) s1" h ?e]
  obtain s2 where s2: "dd_commit E h ?c2 ?e (dedup_cache_update (\<lambda>_. Some ?c1) s1) = (Ok ?e, s2)"
    "dd_rep_any E s2 (log @ [?e])" "dedup_frame s1 s2"
    using app(2) log_sealed_cong [of "dedup_cache_update (\<lambda>_. Some ?c1) s1" s1] by auto
  have "dd_insert_entry E c entry s = (Ok ?e, s2)"
    using app(1) s2(1) n id checked_succ_Some [OF id]
    by (simp add: dd_insert_entry_def set_dedup_cache_def Let_def)
  then show ?thesis using s2(2,3) app(3) view by (auto simp: Let_def intro: dedup_frame_trans)
qed

text \<open>What an upsert does to the entries: the abstract specification.\<close>

definition dedup_upsert_spec ::
  "DedupIndexEntry \<Rightarrow> DedupIndexEntry list \<Rightarrow> (StorageError, DedupUpsertResult \<times> DedupIndexEntry list) result" where
  "dedup_upsert_spec entry es =
     (case find (\<lambda>e. identity_key_for e = identity_key_for entry) (rev es) of
        Some found \<Rightarrow>
          if ref_count found = - 1 then Err (Conflict ''dedup refcount overflow'')
          else
            let hit = found\<lparr>ref_count := ref_count found + 1,
                  identity_version := (if identity_version found = 0 then identity_version entry
                                       else identity_version found)\<rparr> in
            Ok (UpsertHit hit, map (\<lambda>e. if entry_id e = entry_id hit then hit else e) es)
      | None \<Rightarrow>
          if next_id entry_id es = - 1 then Err (Conflict ''dedup entry ID space is exhausted'')
          else
            let e = entry\<lparr>entry_id := next_id entry_id es\<rparr> in
            Ok ((if fingerprint_key_for entry \<in> fingerprint_key_for ` set es then CollisionInserted e else Inserted e),
                es @ [e]))"

lemma find_rev_index: "find (\<lambda>e. key e = k) (rev es) = map_option (\<lambda>i. es ! i) (index_by key es k)"
proof (induction es rule: rev_induct)
  case (snoc e es)
  show ?case
  proof (cases "index_by key es k")
    case (Some i)
    then have "i < length es" by (auto dest: index_by_Some)
    then show ?thesis using snoc Some by (simp add: index_by_snoc nth_append)
  qed (use snoc in \<open>simp add: index_by_snoc\<close>)
qed (simp add: index_by_def)

lemma fingerprint_index_iff:
  "dd_fingerprint_index (build_cached_dedup st sq es b) k \<noteq> None \<longleftrightarrow> k \<in> fingerprint_key_for ` set es"
proof -
  have "dd_fingerprint_index (build_cached_dedup st sq es b) k = None \<longleftrightarrow> k \<notin> fingerprint_key_for ` set es"
    unfolding build_cached_dedup_def by (simp add: map_of_eq_None_iff image_image)
  then show ?thesis by simp
qed

lemma map_list_update_same: "k < length xs \<Longrightarrow> g y = g (xs ! k) \<Longrightarrow> map g (xs[k := y]) = map g xs"
  by (simp add: map_update list_update_same_conv)

lemma checked_succ_u32: "(a :: u32) \<noteq> - 1 \<Longrightarrow> checked_add a 1 = Some (a + 1)"
proof -
  assume "a \<noteq> - 1"
  then have "unat a \<noteq> 2 ^ 32 - 1" using unat_max [where 'a=32] by (simp add: word_unat_eq_iff)
  then show ?thesis using unat_bound_le [of a] by (simp add: checked_add_def)
qed

lemma checked_succ_u32_None: "checked_add (- 1 :: u32) 1 = None"
  using unat_max [where 'a=32] by (simp add: checked_add_None)

text \<open>A new version of an entry: it is appended to the log and takes the place of the old one in the cache.\<close>

lemma replace_entry_run:
  assumes p: "log_sealed E s Dedup_File KDedup payload" "payload_of DD_LOG_PREFIX dd_encode log payload"
    and c: "c = build_cached_dedup st sq (dd_view log) b" and k: "k < length (dd_view log)"
    and room: "length log \<le> MAX_MAINTENANCE_METADATA_RECORDS"
    and E: "crc_ok E" "integrity32 E (dd_encode_log_payload log) \<noteq> 0"
    and ids: "entry_id hit = entry_id (dd_view log ! k)" "identity_key_for hit = identity_key_for (dd_view log ! k)"
  shows "\<exists>h s2 s3. append_segment_payload E Dedup_File KDedup 5 DD_LOG_PREFIX (dd_encode hit) s = (Ok h, s2) \<and>
    dd_commit E h (c\<lparr>dd_entries := (dd_view log)[k := hit]\<rparr>) r s2 = (Ok r, s3) \<and> dd_rep_any E s3 (log @ [hit]) \<and>
    dedup_frame s s3 \<and> dd_view (log @ [hit]) = map (\<lambda>e. if entry_id e = entry_id hit then hit else e) (dd_view log)"
proof -
  have view: "dd_view (log @ [hit]) = (dd_view log)[k := hit]" using dd_view_list_update k ids(1) by simp
  have view': "dd_view (log @ [hit]) = map (\<lambda>e. if entry_id e = entry_id hit then hit else e) (dd_view log)"
    by (rule dd_view_update) (use k ids(1) in \<open>auto intro: image_eqI [OF _ nth_mem]\<close>)
  obtain h s2 where app: "append_segment_payload E Dedup_File KDedup 5 DD_LOG_PREFIX (dd_encode hit) s = (Ok h, s2)"
    "log_sealed E s2 Dedup_File KDedup (log_payload DD_LOG_PREFIX dd_encode (log @ [hit]))" "dedup_frame s s2"
    using dd_append_run [OF p _ _ E, of "[hit]"] room by (auto simp: MAX_MAINTENANCE_METADATA_RECORDS_def)
  let ?c = "c\<lparr>dd_entries := (dd_view log)[k := hit]\<rparr>"
  have "?c = build_cached_dedup st sq (dd_view (log @ [hit])) b"
    unfolding c view using k ids by (intro build_dedup_cong) (simp_all add: map_list_update_same)
  then have "?c = build_cached_dedup (dd_stamp ?c) (dd_sequence ?c) (dd_view (log @ [hit])) (dd_log_format ?c)" by simp
  from dd_commit_run [OF app(2) this, of h r] obtain s3 where
    "dd_commit E h ?c r s2 = (Ok r, s3)" "dd_rep_any E s3 (log @ [hit])" "dedup_frame s2 s3" by blast
  then show ?thesis using app(1,3) view' dedup_frame_trans by blast
qed

lemma upsert_run:
  assumes rep: "dd_rep E s log" and E: "hash_order_ok E" "crc_ok E" "integrity32 E (dd_encode_log_payload log) \<noteq> 0"
  shows "case dedup_upsert_spec entry (dd_view log) of
       Ok (r, es) \<Rightarrow> \<exists>e s'. upsert_dedup_entry E entry s = (Ok r, s') \<and> dd_rep_any E s' (log @ [e]) \<and>
         dd_view (log @ [e]) = es \<and> dedup_frame s s'
     | Err x \<Rightarrow> \<exists>s'. upsert_dedup_entry E entry s = (Err x, s') \<and> dd_rep E s' log \<and> dedup_frame s s'"
proof -
  obtain c payload where o: "dd_ensure_cache_fresh E s = (Ok (), dedup_cache_update (\<lambda>_. Some c) s)"
    "dd_rep E (dedup_cache_update (\<lambda>_. Some c) s) log"
    "dd_ensure_log_format_cached E (dedup_cache_update (\<lambda>_. Some c) s) = (Ok (), dedup_cache_update (\<lambda>_. Some c) s)"
    "dd_cache_entry (dedup_cache_update (\<lambda>_. Some c) s) = (Ok c, dedup_cache_update (\<lambda>_. Some c) s)"
    and c: "c = build_cached_dedup (dd_stamp c) (dd_sequence c) (dd_view log) (dd_log_format c)"
    and p: "log_sealed E (dedup_cache_update (\<lambda>_. Some c) s) Dedup_File KDedup payload"
    "payload_of DD_LOG_PREFIX dd_encode log payload"
    using dd_open_run [OF rep E(1)] by blast
  let ?s1 = "dedup_cache_update (\<lambda>_. Some c) s"
  have room: "length log \<le> MAX_MAINTENANCE_METADATA_RECORDS" using rep by (simp add: table_rep_def)
  obtain st sq b where c': "c = build_cached_dedup st sq (dd_view log) b" using c by metis
  let ?ix = "index_by identity_key_for (dd_view log) (identity_key_for entry)"
  show ?thesis
  proof (cases ?ix)
    case None
    show ?thesis
    proof (cases "next_id entry_id (dd_view log) = - 1")
      case True
      then have "upsert_dedup_entry E entry s = (Err (Conflict ''dedup entry ID space is exhausted''), ?s1)"
        using o(1,3,4) None by (simp add: upsert_dedup_entry_def c' dd_insert_entry_def Let_def)
      then show ?thesis using True None o(2) by (simp add: dedup_upsert_spec_def find_rev_index)
    next
      case False
      let ?e = "entry\<lparr>entry_id := next_id entry_id (dd_view log)\<rparr>"
      obtain s2 where s2: "dd_insert_entry E c entry ?s1 = (Ok ?e, s2)" "dd_rep_any E s2 (log @ [?e])"
        "dd_view (log @ [?e]) = dd_view log @ [?e]" "dedup_frame ?s1 s2"
        using dd_insert_run [OF p _ c room False E(2,3), of entry] by (auto simp: Let_def)
      have "upsert_dedup_entry E entry s = (Ok (if fingerprint_key_for entry \<in> fingerprint_key_for ` set (dd_view log)
          then CollisionInserted ?e else Inserted ?e), s2)"
        using o(1,3,4) None s2(1) fingerprint_index_iff [of st sq "dd_view log" b]
        by (simp add: upsert_dedup_entry_def c' Let_def)
      then show ?thesis using False None s2
        by (simp add: dedup_upsert_spec_def find_rev_index Let_def) blast
    qed
  next
    case (Some k)
    note k = index_by_Some [OF Some]
    let ?f = "dd_view log ! k"
    show ?thesis
    proof (cases "ref_count ?f = - 1")
      case True
      then have "upsert_dedup_entry E entry s = (Err (Conflict ''dedup refcount overflow''), ?s1)"
        using o(1,3,4) Some k by (simp add: upsert_dedup_entry_def c' dd_entry_at_def checked_succ_u32_None)
      then show ?thesis using True Some o(2) by (simp add: dedup_upsert_spec_def find_rev_index)
    next
      case False
      define hit where "hit = ?f\<lparr>ref_count := ref_count ?f + 1,
        identity_version := (if identity_version ?f = 0 then identity_version entry else identity_version ?f)\<rparr>"
      have ids: "entry_id hit = entry_id ?f" "identity_key_for hit = identity_key_for ?f"
        by (simp_all add: hit_def identity_key_for_def)
      obtain h s2 s3 where r: "append_segment_payload E Dedup_File KDedup 5 DD_LOG_PREFIX (dd_encode hit) ?s1 = (Ok h, s2)"
        "dd_commit E h (c\<lparr>dd_entries := (dd_view log)[k := hit]\<rparr>) (UpsertHit hit) s2 = (Ok (UpsertHit hit), s3)"
        "dd_rep_any E s3 (log @ [hit])" "dedup_frame ?s1 s3"
        "dd_view (log @ [hit]) = map (\<lambda>e. if entry_id e = entry_id hit then hit else e) (dd_view log)"
        using replace_entry_run [OF p c' _ room E(2,3) ids, of "UpsertHit hit"] k by blast
      have hit': "(let hit = ?f\<lparr>ref_count := ref_count ?f + 1\<rparr> in
          if identity_version hit = 0 \<and> identity_version entry \<noteq> 0
          then hit\<lparr>identity_version := identity_version entry\<rparr> else hit) = hit"
        by (simp add: hit_def Let_def)
      have "upsert_dedup_entry E entry s = (Ok (UpsertHit hit), s3)"
        using o(1,3,4) Some k r(1,2) hit' checked_succ_u32 [OF False]
        by (simp add: upsert_dedup_entry_def c' dd_entry_at_def Let_def)
      moreover have "dedup_upsert_spec entry (dd_view log) = Ok (UpsertHit hit, dd_view (log @ [hit]))"
        using Some False unfolding r(5)
        by (simp add: dedup_upsert_spec_def find_rev_index Let_def hit_def)
      ultimately show ?thesis using r(3,4) by (auto intro: dedup_frame_trans)
    qed
  qed
qed

section \<open>Reference counts\<close>

lemma count_refs_Ok:
  "\<forall>i. unat (refs i) + count_list ids i < 2 ^ 32 \<Longrightarrow>
     count_refs refs ids = Ok (\<lambda>i. refs i + of_nat (count_list ids i))"
proof (induction ids arbitrary: refs)
  case (Cons j ids)
  have "unat (refs j) + 1 < 2 ^ 32" using Cons.prems [rule_format, of j] by simp
  then have j: "checked_add (refs j) 1 = Some (refs j + 1)" "unat (refs j + 1) = unat (refs j) + 1"
    by (simp_all add: checked_add_def unat_word_ariths)
  have "\<forall>i. unat ((refs(j := refs j + 1)) i) + count_list ids i < 2 ^ 32"
    using Cons.prems j(2) by (auto split: if_splits)
  then have "count_refs (refs(j := refs j + 1)) ids =
      Ok (\<lambda>i. (refs(j := refs j + 1)) i + of_nat (count_list ids i))" by (rule Cons.IH)
  also have "(\<lambda>i. (refs(j := refs j + 1)) i + of_nat (count_list ids i)) =
      (\<lambda>i. refs i + of_nat (count_list (j # ids) i))" by (rule ext) simp
  finally show ?case using j(1) by (simp del: fun_upd_apply)
qed simp

text \<open>A batch of superseding entries replaces the entries with their identifiers, the last one counts.\<close>

lemma dd_view_updates:
  "entry_id ` set ups \<subseteq> entry_id ` set (dd_view log) \<Longrightarrow>
     dd_view (log @ ups) =
       map (\<lambda>x. case find (\<lambda>u. entry_id u = entry_id x) (rev ups) of None \<Rightarrow> x | Some u \<Rightarrow> u) (dd_view log)"
proof (induction ups rule: rev_induct)
  case (snoc u ups)
  let ?g = "\<lambda>ups x. case find (\<lambda>u. entry_id u = entry_id x) (rev ups) of None \<Rightarrow> x | Some u \<Rightarrow> u"
  have ids: "entry_id (?g ups x) = entry_id x" for x
    by (auto simp: find_Some_iff split: option.splits)
  have IH: "dd_view (log @ ups) = map (?g ups) (dd_view log)" using snoc by auto
  have "entry_id u \<in> entry_id ` set (dd_view (log @ ups))"
    using snoc.prems by (auto simp: dd_view_ids)
  from dd_view_update [OF this] show ?case by (auto simp: IH ids)
qed simp

definition drop_refs :: "u64 list \<Rightarrow> DedupIndexEntry \<Rightarrow> DedupIndexEntry" where
  "drop_refs ids e = e\<lparr>ref_count := ref_count e - of_nat (count_list ids (entry_id e))\<rparr>"

lemma dec_refs_view:
  "dec_refs (index_by entry_id (dd_view log0)) ids (dd_view log) = (Ok ups, es') \<Longrightarrow>
     map entry_id (dd_view log) = map entry_id (dd_view log0) \<Longrightarrow> es' = dd_view (log @ ups) \<and> map entry_id ups = ids"
proof (induction ids arbitrary: log ups)
  case (Cons i ids)
  let ?es = "dd_view log"
  obtain k where k: "index_by entry_id (dd_view log0) i = Some k" "k < length ?es"
    using Cons.prems by (auto split: option.splits if_splits)
  define e where "e = (?es ! k)\<lparr>ref_count := ref_count (?es ! k) - 1\<rparr>"
  obtain rest where rest: "dec_refs (index_by entry_id (dd_view log0)) ids (?es[k := e]) = (Ok rest, es')" "ups = e # rest"
    using Cons.prems k by (auto simp: e_def Let_def split: if_splits prod.splits sum.splits)
  have "entry_id (?es ! k) = i" using index_by_Some [OF k(1)] k(2) Cons.prems(2)
    by (metis nth_map)
  then have e: "entry_id e = entry_id (?es ! k)" "entry_id e = i" by (simp_all add: e_def)
  have upd: "dd_view (log @ [e]) = ?es[k := e]" using dd_view_list_update [OF k(2) e(1)] .
  then have "map entry_id (dd_view (log @ [e])) = map entry_id (dd_view log0)"
    using Cons.prems(2) k(2) e(1) by (simp add: map_list_update_same)
  with Cons.IH [of "log @ [e]" rest] rest upd e(2) show ?case by simp
qed simp

lemma dec_refs_Ok:
  fixes es es0 :: "DedupIndexEntry list"
  assumes "\<forall>i\<in>set ids. \<exists>x\<in>set es. entry_id x = i \<and> count_list ids i \<le> unat (ref_count x)"
    and "distinct (map entry_id es)" "map entry_id es0 = map entry_id es"
  shows "\<exists>ups. dec_refs (index_by entry_id es0) ids es = (Ok ups, map (drop_refs ids) es)"
  using assms
proof (induction ids arbitrary: es)
  case Nil
  then show ?case by (simp add: drop_refs_def map_idI)
next
  case (Cons i ids)
  obtain x where x: "x \<in> set es" "entry_id x = i" "Suc (count_list ids i) \<le> unat (ref_count x)"
    using Cons.prems(1) by auto
  obtain k where k: "k < length es" "es ! k = x" using x(1) by (metis in_set_conv_nth)
  have ix: "index_by entry_id es0 i = Some k"
    using Cons.prems(2) k x(2) by (simp add: index_by_cong [OF Cons.prems(3)] index_by_distinct)
  define e where "e = x\<lparr>ref_count := ref_count x - 1\<rparr>"
  have pos: "ref_count x \<noteq> 0" using x(3) by (metis not_less_eq_eq unat_0 zero_le)
  then have dec: "unat (ref_count x - 1) = unat (ref_count x) - 1" by (simp add: unat_sub_if' unat_gt_0 Suc_le_eq)
  let ?es = "es[k := e]"
  have ids: "map entry_id ?es = map entry_id es" using k by (simp add: map_list_update_same e_def)
  have upd: "?es = map (\<lambda>y. if entry_id y = i then e else y) es"
  proof (rule nth_equalityI)
    fix j assume "j < length ?es"
    then show "?es ! j = map (\<lambda>y. if entry_id y = i then e else y) es ! j"
      using Cons.prems(2) k x(2) by (auto simp: nth_list_update distinct_conv_nth)
  qed simp
  have "\<exists>y\<in>set ?es. entry_id y = j \<and> count_list ids j \<le> unat (ref_count y)" if j: "j \<in> set ids" for j
  proof (cases "j = i")
    case True
    then show ?thesis using x dec k by (intro bexI [of _ e]) (auto simp: e_def intro: set_update_memI)
  next
    case False
    then obtain y where "y \<in> set es" "entry_id y = j" "count_list ids j \<le> unat (ref_count y)"
      using Cons.prems(1) j by auto
    then show ?thesis using False unfolding upd by force
  qed
  then obtain ups where ups: "dec_refs (index_by entry_id es0) ids ?es = (Ok ups, map (drop_refs ids) ?es)"
    using Cons.IH [of ?es] Cons.prems(2,3) ids by auto
  have "map (drop_refs ids) ?es = map (drop_refs (i # ids)) es"
    unfolding upd map_map comp_def
  proof (rule map_cong [OF refl])
    fix y assume "y \<in> set es"
    then have "entry_id y = i \<Longrightarrow> y = x"
      using x Cons.prems(2) by (auto simp: distinct_map inj_on_def)
    then show "drop_refs ids (if entry_id y = i then e else y) = drop_refs (i # ids) y"
      by (auto simp: drop_refs_def e_def x(2))
  qed
  then show ?case using ix k pos ups by (simp add: Let_def e_def)
qed

lemma decrement_run:
  assumes rep: "dd_rep E s log" and ids: "ids \<noteq> []" "length ids \<le> MAX_MAINTENANCE_METADATA_RECORDS"
    "\<forall>i\<in>set ids. \<exists>x\<in>set (dd_view log). entry_id x = i \<and> count_list ids i \<le> unat (ref_count x)"
    and E: "hash_order_ok E" "crc_ok E" "integrity32 E (dd_encode_log_payload log) \<noteq> 0"
  shows "\<exists>ups s'. decrement_ref_counts E ids s = (Ok ups, s') \<and> dd_rep_any E s' (log @ ups) \<and>
     dd_view (log @ ups) = map (drop_refs ids) (dd_view log) \<and> map entry_id ups = ids \<and> dedup_frame s s'"
proof -
  obtain c payload where o: "dd_ensure_cache_fresh E s = (Ok (), dedup_cache_update (\<lambda>_. Some c) s)"
    "dd_ensure_log_format_cached E (dedup_cache_update (\<lambda>_. Some c) s) = (Ok (), dedup_cache_update (\<lambda>_. Some c) s)"
    "dd_cache_entry (dedup_cache_update (\<lambda>_. Some c) s) = (Ok c, dedup_cache_update (\<lambda>_. Some c) s)"
    and c: "c = build_cached_dedup (dd_stamp c) (dd_sequence c) (dd_view log) (dd_log_format c)"
    and p: "log_sealed E (dedup_cache_update (\<lambda>_. Some c) s) Dedup_File KDedup payload"
    "payload_of DD_LOG_PREFIX dd_encode log payload"
    using dd_open_run [OF rep E(1)] by blast
  obtain st sq b where c': "c = build_cached_dedup st sq (dd_view log) b" using c by metis
  obtain ups where ups: "dec_refs (index_by entry_id (dd_view log)) ids (dd_view log) = (Ok ups, map (drop_refs ids) (dd_view log))"
    using dec_refs_Ok [OF ids(3) dd_view_sorted(2) refl] by blast
  from dec_refs_view [OF ups refl] have view: "dd_view (log @ ups) = map (drop_refs ids) (dd_view log)" "map entry_id ups = ids" by simp_all
  let ?c = "c\<lparr>dd_entries := dd_view (log @ ups)\<rparr>"
  let ?s1 = "dedup_cache_update (\<lambda>_. Some ?c) s"
  have c1: "?c = build_cached_dedup st sq (dd_view (log @ ups)) b"
    unfolding c' view by (rule build_dedup_cong) (simp_all add: drop_refs_def identity_key_for_def)
  have "length ups = length ids" using view(2) by (metis length_map)
  then have "length log + length ups \<le> 2 * MAX_MAINTENANCE_METADATA_RECORDS" "ups \<noteq> []"
    using rep ids(1,2) by (auto simp: table_rep_def)
  moreover have "log_sealed E ?s1 Dedup_File KDedup payload" using p(1) by (simp add: log_sealed_cong [of ?s1 s] log_sealed_cong [of "dedup_cache_update (\<lambda>_. Some c) s" s])
  ultimately obtain h s2 where app:
    "append_segment_payload E Dedup_File KDedup 5 DD_LOG_PREFIX (concat (map dd_encode ups)) ?s1 = (Ok h, s2)"
    "log_sealed E s2 Dedup_File KDedup (log_payload DD_LOG_PREFIX dd_encode (log @ ups))" "dedup_frame ?s1 s2"
    using dd_append_run [OF _ p(2) _ _ E(2,3)] by blast
  have "?c = build_cached_dedup (dd_stamp ?c) (dd_sequence ?c) (dd_view (log @ ups)) (dd_log_format ?c)" using c1 by simp
  from dd_commit_run [OF app(2) this, of h ups] obtain s3 where s3: "dd_commit E h ?c ups s2 = (Ok ups, s3)"
    "dd_rep_any E s3 (log @ ups)" "dedup_frame s2 s3" by blast
  have "decrement_ref_counts E ids s = (Ok ups, s3)"
    using o ids(1) ups app(1) s3(1) unfolding view
    by (simp add: decrement_ref_counts_def c' set_dedup_cache_def Let_def)
  then show ?thesis using s3 app(3) view by (auto intro: dedup_frame_trans)
qed

lemma dd_update_cache_run:
  assumes p: "log_sealed E s Dedup_File KDedup (log_payload DD_LOG_PREFIX dd_encode log)"
  shows "\<exists>s'. dd_update_cache sq (dd_view log) s = (Ok (), s') \<and> dd_rep_any E s' log \<and>
     log_sealed E s' Dedup_File KDedup (log_payload DD_LOG_PREFIX dd_encode log) \<and> dedup_frame s s'"
proof -
  obtain buf where buf: "files s Dedup_File = Some buf" using p by (auto simp: log_sealed_def sealed_def shaped_def)
  let ?sq = "if sq = 0 then (case dedup_cache s of None \<Rightarrow> 0 | Some c \<Rightarrow> dd_sequence c) else sq"
  let ?s = "dedup_cache_update (\<lambda>_. Some (build_cached_dedup buf ?sq (dd_view log) True)) s"
  have "dd_update_cache sq (dd_view log) s = (Ok (), ?s)"
    using buf by (simp add: dd_update_cache_def dd_file_stamp_def set_dedup_cache_def Let_def)
  moreover have "dd_rep_any E ?s log"
    by (rule dd.rep_any_set [OF p]) (simp_all add: dd_entry_ok_def list.pred_True)
  ultimately show ?thesis using p log_sealed_cong [of ?s s] by (intro exI [of _ ?s]) simp
qed

lemma dd_ensure_log_format_run:
  assumes rep: "dd_rep E s log"
  shows "\<exists>s'. dd_ensure_log_format E (dd_view log) s = (Ok (), s') \<and>
     log_sealed E s' Dedup_File KDedup (log_payload DD_LOG_PREFIX dd_encode log) \<and> dedup_frame s s'"
proof -
  obtain payload where p: "log_sealed E s Dedup_File KDedup payload" "payload_of DD_LOG_PREFIX dd_encode log payload"
    and n: "length log \<le> MAX_MAINTENANCE_METADATA_RECORDS" using rep by (auto simp: table_rep_def table_rep_any_def)
  obtain h where h: "sealed E s Dedup_File h payload" "kind h = KDedup" using p(1) by (auto simp: log_sealed_def)
  have rd: "read_segment_file_bounded E Dedup_File KDedup MAX_MAINTENANCE_METADATA_BYTES s = (Ok (h, payload), s)"
    using read_bounded_sealed [OF h dd.payload_bound [OF p(2) n]] .
  show ?thesis
  proof (cases "payload = []")
    case True
    then have nil: "log = []" using p(2) by (auto simp: payload_of_def log_payload_def)
    have "length (dd_encode_log_payload []) + 96 < 2 ^ 64" by (simp add: dd_encode_log_payload_def)
    then obtain s1 where w: "write_segment_file E Dedup_File KDedup 5 0 (dd_encode_log_payload []) s = (Ok (), s1)"
      "log_sealed E s1 Dedup_File KDedup (dd_encode_log_payload [])" "frame Dedup_File s s1"
      using write_log_sealed by (metis (no_types) surj_pair)
    from dd_update_cache_run [of E s1 "[]" 0] w(2) obtain s2 where "dd_update_cache 0 [] s1 = (Ok (), s2)"
      "log_sealed E s2 Dedup_File KDedup (log_payload DD_LOG_PREFIX dd_encode [])" "dedup_frame s1 s2"
      by (auto simp: dd_encode_log_payload_eq)
    then show ?thesis using True nil rd w(1) frame_dedup_frame [OF w(3)]
      by (auto simp: dd_ensure_log_format_def persist_dedup_entries_def intro: dedup_frame_trans)
  next
    case False
    then have "payload = log_payload DD_LOG_PREFIX dd_encode log" using p(2) by (simp add: payload_of_def)
    then show ?thesis using rd p(1) by (intro exI [of _ s]) (simp add: dd_ensure_log_format_def log_payload_def)
  qed
qed

lemma find_SomeD: "find P xs = Some x \<Longrightarrow> x \<in> set xs \<and> P x"
  by (induction xs) (auto split: if_splits)

lemma dd_view_retarget:
  assumes "changed = map (retarget refs) (filter (\<lambda>e. ref_count e \<noteq> refs (entry_id e)) (dd_view log))"
  shows "dd_view (log @ changed) = map (retarget refs) (dd_view log)"
proof -
  have "entry_id ` set changed \<subseteq> entry_id ` set (dd_view log)" by (auto simp: assms retarget_def)
  then have "dd_view (log @ changed) =
      map (\<lambda>x. case find (\<lambda>u. entry_id u = entry_id x) (rev changed) of None \<Rightarrow> x | Some u \<Rightarrow> u) (dd_view log)"
    by (rule dd_view_updates)
  also have "\<dots> = map (retarget refs) (dd_view log)"
  proof (rule map_cong [OF refl])
    fix x assume x: "x \<in> set (dd_view log)"
    show "(case find (\<lambda>u. entry_id u = entry_id x) (rev changed) of None \<Rightarrow> x | Some u \<Rightarrow> u) = retarget refs x"
    proof (cases "find (\<lambda>u. entry_id u = entry_id x) (rev changed)")
      case None
      then have "retarget refs x \<notin> set changed" by (auto simp: find_None_iff retarget_def)
      then have "ref_count x = refs (entry_id x)" using x by (auto simp: assms)
      then show ?thesis using None by (simp add: retarget_def)
    next
      case (Some u)
      then have "u \<in> set changed" "entry_id u = entry_id x" by (auto dest: find_SomeD)
      then obtain y where "y \<in> set (dd_view log)" "u = retarget refs y" "entry_id y = entry_id x"
        by (auto simp: assms retarget_def)
      moreover from this have "y = x" using x dd_view_sorted(2) [of log] by (auto simp: distinct_map inj_on_def)
      ultimately show ?thesis using Some by simp
    qed
  qed
  finally show ?thesis .
qed

lemma rebuild_ref_counts_run:
  assumes rep: "dd_rep E s log" and n: "length log + length (dd_view log) \<le> MAX_MAINTENANCE_METADATA_RECORDS"
    and refs: "length referenced < 2 ^ 32"
    and E: "hash_order_ok E" "crc_ok E" "integrity32 E (dd_encode_log_payload log) \<noteq> 0"
  shows "\<exists>n s' log'. rebuild_ref_counts E referenced s = (Ok n, s') \<and> dd_rep E s' log' \<and>
     dd_view log' = map (\<lambda>e. e\<lparr>ref_count := of_nat (count_list referenced (entry_id e))\<rparr>) (dd_view log) \<and>
     n = length (filter (\<lambda>e. ref_count e \<noteq> of_nat (count_list referenced (entry_id e))) (dd_view log)) \<and>
     dedup_frame s s'"
proof -
  let ?refs = "\<lambda>i. of_nat (count_list referenced i) :: u32"
  let ?f = "retarget ?refs"
  define changed where "changed = map ?f (filter (\<lambda>e. ref_count e \<noteq> ?refs (entry_id e)) (dd_view log))"
  obtain c payload where o: "dd_ensure_cache_fresh E s = (Ok (), dedup_cache_update (\<lambda>_. Some c) s)"
    "dd_rep E (dedup_cache_update (\<lambda>_. Some c) s) log"
    "dd_cache_entry (dedup_cache_update (\<lambda>_. Some c) s) = (Ok c, dedup_cache_update (\<lambda>_. Some c) s)"
    and c: "c = build_cached_dedup (dd_stamp c) (dd_sequence c) (dd_view log) (dd_log_format c)"
    using dd_open_run [OF rep E(1)] by blast
  have es: "dd_entries c = dd_view log" by (subst c) simp
  have load: "load_dedup_index E s = (Ok (dd_sequence c, dd_view log), dedup_cache_update (\<lambda>_. Some c) s)"
    using o(1,3) by (simp add: load_dedup_index_def es)
  have "count_list referenced i < 2 ^ 32" for i using count_le_length [of referenced i] refs by simp
  then have cnt: "count_refs (\<lambda>_. 0) referenced = Ok ?refs"
    using count_refs_Ok [of "\<lambda>_. 0" referenced] by simp
  obtain s1 where s1: "dd_ensure_log_format E (dd_view log) (dedup_cache_update (\<lambda>_. Some c) s) = (Ok (), s1)"
    "log_sealed E s1 Dedup_File KDedup (log_payload DD_LOG_PREFIX dd_encode log)" "dedup_frame s s1"
    using dd_ensure_log_format_run [OF o(2)] by auto
  note view = dd_view_retarget [OF changed_def]
  have len: "length changed \<le> length (dd_view log)" by (simp add: changed_def)
  have room: "length log \<le> MAX_MAINTENANCE_METADATA_RECORDS" using rep by (simp add: table_rep_def)
  show ?thesis
  proof (cases "changed = []")
    case True
    then have same: "map ?f (dd_view log) = dd_view log" using view by simp
    have none: "filter (\<lambda>e. ref_count e \<noteq> ?refs (entry_id e)) (dd_view log) = []" using True by (simp add: changed_def)
    obtain s2 where s2: "dd_update_cache 0 (dd_view log) s1 = (Ok (), s2)" "dd_rep_any E s2 log" "dedup_frame s1 s2"
      using dd_update_cache_run [OF s1(2), of 0] by blast
    have "rebuild_ref_counts E referenced s = (Ok 0, s2)"
      using load cnt s1(1) s2(1) by (simp add: rebuild_ref_counts_def Let_def none same)
    moreover have "dd_rep E s2 log" using s2(2) room by (simp add: table_rep_def)
    ultimately show ?thesis using dedup_frame_trans [OF s1(3) s2(3)] same none
      by (intro exI [of _ 0] exI [of _ s2] exI [of _ log]) (simp add: retarget_def [abs_def])
  next
    case False
    obtain h s2 where app:
      "append_segment_payload E Dedup_File KDedup 5 DD_LOG_PREFIX (concat (map dd_encode changed)) s1 = (Ok h, s2)"
      "log_sealed E s2 Dedup_File KDedup (log_payload DD_LOG_PREFIX dd_encode (log @ changed))" "dedup_frame s1 s2"
      using dd_append_run [OF s1(2) _ _ False E(2,3)] n len by (auto simp: payload_of_def)
    obtain s3 where s3: "dd_update_cache (sequence h) (map ?f (dd_view log)) s2 = (Ok (), s3)"
      "dd_rep_any E s3 (log @ changed)" "dedup_frame s2 s3"
      using dd_update_cache_run [OF app(2), of "sequence h"] unfolding view by blast
    have "rebuild_ref_counts E referenced s = (Ok (length changed), s3)"
      using load cnt s1(1) False app(1) s3(1) by (simp add: rebuild_ref_counts_def Let_def changed_def)
    moreover have "dd_rep E s3 (log @ changed)" using s3(2) n len by (simp add: table_rep_def)
    ultimately show ?thesis using view dedup_frame_trans [OF dedup_frame_trans [OF s1(3) app(3)] s3(3)]
      by (intro exI [of _ "length changed"] exI [of _ s3] exI [of _ "log @ changed"]) (simp add: retarget_def changed_def)
  qed
qed

section \<open>Queries\<close>

lemma lookup_entry_run:
  assumes rep: "dd_rep E s log" and e: "e \<in> set (dd_view log)" and hash: "hash_order_ok E"
  shows "\<exists>c. lookup_entry_by_id E (entry_id e) s = (Ok e, dedup_cache_update (\<lambda>_. Some c) s) \<and>
     dd_rep E (dedup_cache_update (\<lambda>_. Some c) s) log"
proof -
  obtain c where o: "dd_ensure_cache_fresh E s = (Ok (), dedup_cache_update (\<lambda>_. Some c) s)"
    "dd_rep E (dedup_cache_update (\<lambda>_. Some c) s) log"
    "dd_cache_entry (dedup_cache_update (\<lambda>_. Some c) s) = (Ok c, dedup_cache_update (\<lambda>_. Some c) s)"
    and c: "c = build_cached_dedup (dd_stamp c) (dd_sequence c) (dd_view log) (dd_log_format c)"
    using dd_open_run [OF rep hash] by blast
  obtain st sq b where c': "c = build_cached_dedup st sq (dd_view log) b" using c by metis
  obtain k where k: "k < length (dd_view log)" "dd_view log ! k = e" using e by (metis in_set_conv_nth)
  then have "index_by entry_id (dd_view log) (entry_id e) = Some k"
    using index_by_distinct [OF dd_view_sorted(2), of log "entry_id e" k] by simp
  then show ?thesis using o k by (intro exI [of _ c]) (simp add: lookup_entry_by_id_def c')
qed

text \<open>The answer to a query by identity: the last entry with the identity, a collision, or nothing.\<close>

definition dedup_lookup_spec :: "DedupIdentityKey \<Rightarrow> DedupIndexEntry list \<Rightarrow> DedupLookup" where
  "dedup_lookup_spec key es =
     (case find (\<lambda>e. identity_key_for e = key) (rev es) of
        Some e \<Rightarrow> Hit e
      | None \<Rightarrow> if (fst key, fst (snd key)) \<in> fingerprint_key_for ` set es then Collision else Miss)"

lemma lookup_identity_run:
  assumes rep: "dd_rep E s log" and hash: "hash_order_ok E"
  shows "\<exists>c. lookup_identity E key s = (Ok (dedup_lookup_spec key (dd_view log)), dedup_cache_update (\<lambda>_. Some c) s) \<and>
     dd_rep E (dedup_cache_update (\<lambda>_. Some c) s) log"
proof -
  obtain c where o: "dd_ensure_cache_fresh E s = (Ok (), dedup_cache_update (\<lambda>_. Some c) s)"
    "dd_rep E (dedup_cache_update (\<lambda>_. Some c) s) log"
    "dd_cache_entry (dedup_cache_update (\<lambda>_. Some c) s) = (Ok c, dedup_cache_update (\<lambda>_. Some c) s)"
    and c: "c = build_cached_dedup (dd_stamp c) (dd_sequence c) (dd_view log) (dd_log_format c)"
    using dd_open_run [OF rep hash] by blast
  obtain st sq b where c': "c = build_cached_dedup st sq (dd_view log) b" using c by metis
  have "lookup_identity E key s = (Ok (dedup_lookup_spec key (dd_view log)), dedup_cache_update (\<lambda>_. Some c) s)"
    using o(1,3) index_by_Some [of identity_key_for "dd_view log" key]
      fingerprint_index_iff [of st sq "dd_view log" b "(fst key, fst (snd key))"]
    by (cases "index_by identity_key_for (dd_view log) key")
      (auto simp: lookup_identity_def dedup_lookup_spec_def find_rev_index c' dd_entry_at_def)
  then show ?thesis using o(2) by blast
qed

section \<open>Properties\<close>

definition sample_entry :: "u64 \<Rightarrow> u64 \<Rightarrow> u32 \<Rightarrow> DedupIndexEntry" where
  "sample_entry i fp refs =
     \<lparr>entry_id = i, fingerprint_hi = fp, fingerprint_lo = 0, de_payload_checksum = 3, de_logical_len = 4,
      stored_blob_id = 9, stored_len = 4, de_compression = CodecNone, identity_version = 1, ref_count = refs\<rparr>"

definition sample_dedup_store :: "DedupIndexEntry list \<Rightarrow> dedup_store" where
  "sample_dedup_store log =
     \<lparr>files = (\<lambda>_. None)(Dedup_File := Some (segment_headers plain_externs
        (header_new plain_externs KDedup 5 1 (log_payload DD_LOG_PREFIX dd_encode log)) @
        log_payload DD_LOG_PREFIX dd_encode log)),
      append_file_cache = (\<lambda>_. None), blk_map_cache = None, lookup_cache = None, dedup_cache = None\<rparr>"

lemma sample_dedup_rep: "length log \<le> 65536 \<Longrightarrow> dd_rep plain_externs (sample_dedup_store log) log"
  using dd.rep_any_file [of "sample_dedup_store log" plain_externs 5 1 log]
  by (simp add: table_rep_def sample_dedup_store_def MAX_MAINTENANCE_METADATA_RECORDS_def list.pred_True)

lemma sample_dedup_crc: "length log < 2 ^ 16 \<Longrightarrow> integrity32 plain_externs (dd_encode_log_payload log) \<noteq> 0"
  using dd.length_log_payload [of log]
  by (intro plain_integrity32_ne) (simp_all add: dd_encode_log_payload_eq, simp add: log_payload_def DD_LOG_PREFIX_def)

lemma sample_dedup_view: "dd_view [sample_entry 1 7 2, sample_entry 2 8 1] = [sample_entry 1 7 2, sample_entry 2 8 1]"
  by (simp add: dd_view_def latest_by_def sample_entry_def)

text \<open>
  C21: An upsert does to the entries, as they are read back from the file, what
  the specification says: an entry with the same identity gets one more
  reference, otherwise a new entry with the next identifier is added; a counter
  at its limit or an exhausted identifier space is refused and changes nothing.
\<close>

theorem upsert_refines_spec:
  assumes "dd_rep E s log" "hash_order_ok E" "crc_ok E" "integrity32 E (dd_encode_log_payload log) \<noteq> 0"
  shows "case dedup_upsert_spec entry (dd_view log) of
       Ok (r, es) \<Rightarrow> \<exists>e s'. upsert_dedup_entry E entry s = (Ok r, s') \<and> dd_rep_any E s' (log @ [e]) \<and>
         dd_view (log @ [e]) = es \<and> dedup_frame s s'
     | Err x \<Rightarrow> \<exists>s'. upsert_dedup_entry E entry s = (Err x, s') \<and> dd_rep E s' log \<and> dedup_frame s s'"
  using upsert_run [OF assms] .

theorem upsert_refines_spec_witness:
  "\<exists>s'. upsert_dedup_entry plain_externs (sample_entry 0 8 1) (sample_dedup_store [sample_entry 1 7 2, sample_entry 2 8 1]) =
     (Ok (UpsertHit (sample_entry 2 8 2)), s')"
proof -
  let ?log = "[sample_entry 1 7 2, sample_entry 2 8 1]"
  have spec: "dedup_upsert_spec (sample_entry 0 8 1) ?log = Ok (UpsertHit (sample_entry 2 8 2), [sample_entry 1 7 2, sample_entry 2 8 2])"
    by (simp add: dedup_upsert_spec_def sample_entry_def identity_key_for_def Let_def)
  have "dd_rep plain_externs (sample_dedup_store ?log) ?log" by (rule sample_dedup_rep) simp
  from upsert_refines_spec [OF this plain_externs_ok(7) plain_externs_ok(2) sample_dedup_crc, of "sample_entry 0 8 1"]
  show ?thesis by (auto simp: sample_dedup_view spec)
qed

text \<open>
  C23: Rebuilding the reference counts sets the count of every entry to the
  number of times its identifier occurs among the references, in the file as
  in the cache, and reports how many entries changed.
\<close>

theorem rebuild_ref_counts_exact:
  assumes "dd_rep E s log" "length log + length (dd_view log) \<le> MAX_MAINTENANCE_METADATA_RECORDS"
    and "length referenced < 2 ^ 32" "hash_order_ok E" "crc_ok E" "integrity32 E (dd_encode_log_payload log) \<noteq> 0"
  shows "\<exists>n s' log'. rebuild_ref_counts E referenced s = (Ok n, s') \<and> dd_rep E s' log' \<and>
     dd_view log' = map (\<lambda>e. e\<lparr>ref_count := of_nat (count_list referenced (entry_id e))\<rparr>) (dd_view log) \<and>
     n = length (filter (\<lambda>e. ref_count e \<noteq> of_nat (count_list referenced (entry_id e))) (dd_view log)) \<and>
     dedup_frame s s'"
  using rebuild_ref_counts_run [OF assms] .

theorem rebuild_ref_counts_exact_witness:
  "\<exists>s' log'. rebuild_ref_counts plain_externs [2, 2, 2] (sample_dedup_store [sample_entry 1 7 2, sample_entry 2 8 1]) =
     (Ok 2, s') \<and> dd_rep plain_externs s' log' \<and> dd_view log' = [sample_entry 1 7 0, sample_entry 2 8 3]"
proof -
  let ?log = "[sample_entry 1 7 2, sample_entry 2 8 1]"
  have "dd_rep plain_externs (sample_dedup_store ?log) ?log" by (rule sample_dedup_rep) simp
  from rebuild_ref_counts_exact [OF this _ _ plain_externs_ok(7) plain_externs_ok(2) sample_dedup_crc, of "[2, 2, 2]"]
  show ?thesis unfolding sample_dedup_view by (auto simp: sample_entry_def MAX_MAINTENANCE_METADATA_RECORDS_def)
qed

text \<open>
  C24: Releasing references decrements the count of each entry by the number of
  times its identifier is listed, when every listed entry has that many
  references; nothing else changes.
\<close>

theorem decrement_exact:
  assumes "dd_rep E s log" "ids \<noteq> []" "length ids \<le> MAX_MAINTENANCE_METADATA_RECORDS"
    and "\<forall>i\<in>set ids. \<exists>x\<in>set (dd_view log). entry_id x = i \<and> count_list ids i \<le> unat (ref_count x)"
    and "hash_order_ok E" "crc_ok E" "integrity32 E (dd_encode_log_payload log) \<noteq> 0"
  shows "\<exists>ups s'. decrement_ref_counts E ids s = (Ok ups, s') \<and> dd_rep_any E s' (log @ ups) \<and>
     dd_view (log @ ups) = map (drop_refs ids) (dd_view log) \<and> map entry_id ups = ids \<and> dedup_frame s s'"
  using decrement_run [OF assms] .

theorem decrement_exact_witness:
  "\<exists>ups s'. decrement_ref_counts plain_externs [1, 2, 1] (sample_dedup_store [sample_entry 1 7 2, sample_entry 2 8 1]) =
     (Ok ups, s') \<and> dd_view ([sample_entry 1 7 2, sample_entry 2 8 1] @ ups) = [sample_entry 1 7 0, sample_entry 2 8 0]"
proof -
  let ?log = "[sample_entry 1 7 2, sample_entry 2 8 1]"
  have "dd_rep plain_externs (sample_dedup_store ?log) ?log" by (rule sample_dedup_rep) simp
  from decrement_exact [OF this _ _ _ plain_externs_ok(7) plain_externs_ok(2) sample_dedup_crc, of "[1, 2, 1]"]
  show ?thesis unfolding sample_dedup_view
    by (auto simp: sample_entry_def MAX_MAINTENANCE_METADATA_RECORDS_def drop_refs_def)
qed

text \<open>
  C25: A batch that fails at a later identifier has already decremented the
  cached count of an earlier one: the call reports an error and the file is
  unchanged, but the cached count is one too small until the index is reloaded.
\<close>

theorem decrement_failure_leaks:
  assumes rep: "dd_rep E s log" and e: "e \<in> set (dd_view log)" "ref_count e \<noteq> 0"
    and j: "j \<notin> entry_id ` set (dd_view log)" and hash: "hash_order_ok E"
  shows "\<exists>s'. decrement_ref_counts E [entry_id e, j] s = (Err (NotFound ''dedup entry not found''), s') \<and> files s' = files s \<and>
     (\<exists>s''. lookup_entry_by_id E (entry_id e) s' = (Ok (e\<lparr>ref_count := ref_count e - 1\<rparr>), s'')) \<and>
     (\<exists>s''. lookup_entry_by_id E (entry_id e) (dedup_cache_update (\<lambda>_. None) s') = (Ok e, s''))"
proof -
  obtain c payload where f: "dd_ensure_cache_fresh E s = (Ok (), dedup_cache_update (\<lambda>_. Some c) s)"
    "cache_valid E Dedup_File dedup_cache dd_stamp (dedup_cache_update (\<lambda>_. Some c) s) c" "dd_entry_ok E c log payload"
    using dd.fresh_run [OF rep hash] by blast
  obtain st sq b where c': "c = build_cached_dedup st sq (dd_view log) b" "b \<or> log = []"
    using f(3) unfolding dd_entry_ok_def by metis
  let ?e = "e\<lparr>ref_count := ref_count e - 1\<rparr>"
  obtain k where k: "k < length (dd_view log)" "dd_view log ! k = e" using e by (metis in_set_conv_nth)
  then have ix: "index_by entry_id (dd_view log) (entry_id e) = Some k" "index_by entry_id (dd_view log) j = None"
    using index_by_distinct [OF dd_view_sorted(2), of log "entry_id e" k] j by (auto simp: index_by_None)
  let ?c = "c\<lparr>dd_entries := (dd_view log)[k := ?e]\<rparr>"
  let ?s = "dedup_cache_update (\<lambda>_. Some ?c) s"
  have "decrement_ref_counts E [entry_id e, j] s = (Err (NotFound ''dedup entry not found''), ?s)"
    using f(1) c' ix k e(2)
    by (auto simp: decrement_ref_counts_def dd_ensure_log_format_cached_def dd_cache_entry_def set_dedup_cache_def Let_def)
  moreover have "dd_ensure_cache_fresh E ?s = (Ok (), ?s)"
    using f(2) by (auto simp: dd_ensure_cache_fresh_def cache_valid_def dd_file_stamp_def)
  then have "lookup_entry_by_id E (entry_id e) ?s = (Ok ?e, ?s)"
    using ix k by (simp add: lookup_entry_by_id_def dd_cache_entry_def c'(1))
  moreover have "dd_rep E (dedup_cache_update (\<lambda>_. None) ?s) log"
    using rep log_sealed_cong [of "dedup_cache_update (\<lambda>_. None) ?s" s E] by (auto simp: table_defs)
  ultimately show ?thesis using lookup_entry_run [OF _ e(1) hash] by fastforce
qed

theorem decrement_failure_leaks_witness:
  "\<exists>s' s''. decrement_ref_counts plain_externs [1, 5] (sample_dedup_store [sample_entry 1 7 2, sample_entry 2 8 1]) =
     (Err (NotFound ''dedup entry not found''), s') \<and>
     lookup_entry_by_id plain_externs 1 s' = (Ok (sample_entry 1 7 1), s'')"
proof -
  let ?log = "[sample_entry 1 7 2, sample_entry 2 8 1]"
  have "dd_rep plain_externs (sample_dedup_store ?log) ?log" by (rule sample_dedup_rep) simp
  from decrement_failure_leaks [OF this, unfolded sample_dedup_view, OF _ _ _ plain_externs_ok(7), of "sample_entry 1 7 2" 5]
  show ?thesis by (auto simp: sample_entry_def)
qed

end
