(* ===== verification/Segment_Index.thy ===== *)
theory Segment_Index
  imports Dedup
begin

text \<open>
  The index of the data segments (\<^verbatim>\<open>storage/segment_index.rs\<close>): one
  descriptor per data file with the range of blob identifiers it holds, one of
  them active for appending.  The index is cached while blobs are appended and
  written back by a flush.
\<close>

section \<open>Data and codec\<close>

datatype SegmentState = SegActive | SegSealed | SegCompacting | SegReclaimable

definition seg_state_to_u8 :: "SegmentState \<Rightarrow> u8" where
  "seg_state_to_u8 st = (case st of SegActive \<Rightarrow> 1 | SegSealed \<Rightarrow> 2 | SegCompacting \<Rightarrow> 3 | SegReclaimable \<Rightarrow> 4)"

definition seg_state_from_u8 :: "u8 \<Rightarrow> (StorageError, SegmentState) result" where
  "seg_state_from_u8 raw =
     (if raw = 1 then Ok SegActive else if raw = 2 then Ok SegSealed else if raw = 3 then Ok SegCompacting
      else if raw = 4 then Ok SegReclaimable else Err (Corrupt ''invalid segment state''))"

record SegmentDescriptor =
  segment_seq :: u32
  payload_bytes :: u64
  first_blob_id :: u64
  last_blob_id :: u64
  sd_state :: SegmentState
  sd_compression :: CompressionCodec
  live_bytes :: u32

record SegmentIndex =
  max_segment_size :: u32
  descriptors :: "SegmentDescriptor list"
  next_segment_seq :: u64

definition DEFAULT_MAX_DATA_SEGMENT_SIZE :: u32 where
  "DEFAULT_MAX_DATA_SEGMENT_SIZE = 256 * 1024 * 1024"

text \<open>The ASCII prefix \<^verbatim>\<open>SDI1\<close>.\<close>

definition SEGMENT_INDEX_PREFIX :: bytes where "SEGMENT_INDEX_PREFIX = [0x53, 0x44, 0x49, 0x31]"

definition SEGMENT_DESCRIPTOR_SIZE :: nat where "SEGMENT_DESCRIPTOR_SIZE = 40"

text \<open>A first identifier of 0 marks a segment without blobs; identifiers start at 1.\<close>

definition contains_blob :: "SegmentDescriptor \<Rightarrow> u64 \<Rightarrow> bool" where
  "contains_blob d i \<longleftrightarrow> 0 < first_blob_id d \<and> first_blob_id d \<le> i \<and> i \<le> last_blob_id d"

definition descriptor_checksum :: "bytes \<Rightarrow> u16" where
  "descriptor_checksum bs = ucast (checksum32 bs AND 0xFFFF)"

definition sd_body :: "SegmentDescriptor \<Rightarrow> bytes" where
  "sd_body d =
     to_le_bytes (segment_seq d) @ to_le_bytes (payload_bytes d) @ to_le_bytes (first_blob_id d) @
     to_le_bytes (last_blob_id d) @ [seg_state_to_u8 (sd_state d)] @ [codec_to_u8 (sd_compression d)] @
     to_le_bytes (live_bytes d)"

definition sd_encode :: "SegmentDescriptor \<Rightarrow> bytes" where
  "sd_encode d = sd_body d @ to_le_bytes (descriptor_checksum (sd_body d)) @ [0, 0, 0, 0]"

definition sd_decode :: "bytes \<Rightarrow> (StorageError, SegmentDescriptor) result" where
  "sd_decode raw =
     (if length raw \<noteq> SEGMENT_DESCRIPTOR_SIZE then Err (Corrupt ''segment descriptor size mismatch'')
      else if descriptor_checksum (take 34 raw) \<noteq> from_le_bytes (slice 34 2 raw)
      then Err (Corrupt ''segment descriptor checksum mismatch'')
      else bind_r (seg_state_from_u8 (byte_at 28 raw)) (\<lambda>st.
        bind_r (codec_from_u8 (byte_at 29 raw)) (\<lambda>c.
        Ok \<lparr>segment_seq = from_le_bytes (slice 0 4 raw), payload_bytes = from_le_bytes (slice 4 8 raw),
            first_blob_id = from_le_bytes (slice 12 8 raw), last_blob_id = from_le_bytes (slice 20 8 raw),
            sd_state = st, sd_compression = c, live_bytes = from_le_bytes (slice 30 4 raw)\<rparr>)))"

definition is_seg_active :: "SegmentDescriptor \<Rightarrow> bool" where
  "is_seg_active d \<longleftrightarrow> sd_state d = SegActive"

definition index_encode :: "SegmentIndex \<Rightarrow> bytes" where
  "index_encode idx =
     SEGMENT_INDEX_PREFIX @ to_le_bytes (max_segment_size idx) @
     to_le_bytes (of_nat (length (filter is_seg_active (descriptors idx))) :: u32) @
     to_le_bytes (of_nat (length (descriptors idx)) :: u32) @ to_le_bytes (next_segment_seq idx) @
     concat (map sd_encode (descriptors idx))"

definition decode_segment_index :: "bytes \<Rightarrow> (StorageError, SegmentIndex) result" where
  "decode_segment_index payload =
     (if length payload < 24 \<or> take 4 payload \<noteq> SEGMENT_INDEX_PREFIX
      then Err (Corrupt ''segment index prefix mismatch'')
      else bind_r (checked_metadata_record_count (unat (from_le_bytes (slice 12 4 payload) :: u32))) (\<lambda>n.
        if length payload \<noteq> n * SEGMENT_DESCRIPTOR_SIZE + 24
        then Err (Corrupt ''segment index descriptor length mismatch'')
        else bind_r (traverse sd_decode (chunks SEGMENT_DESCRIPTOR_SIZE (drop 24 payload))) (\<lambda>ds.
          if of_nat (length (filter is_seg_active ds)) \<noteq> (from_le_bytes (slice 8 4 payload) :: u32)
          then Err (Corrupt ''segment index active count mismatch'')
          else Ok \<lparr>max_segment_size = from_le_bytes (slice 4 4 payload), descriptors = ds,
                   next_segment_seq = from_le_bytes (slice 16 8 payload)\<rparr>)))"

definition empty_descriptor :: "u32 \<Rightarrow> SegmentDescriptor" where
  "empty_descriptor sq =
     \<lparr>segment_seq = sq, payload_bytes = 0, first_blob_id = 0, last_blob_id = 0, sd_state = SegActive,
      sd_compression = CodecNone, live_bytes = 0\<rparr>"

definition index_new :: "u32 \<Rightarrow> SegmentIndex" where
  "index_new mx = \<lparr>max_segment_size = mx, descriptors = [empty_descriptor 0], next_segment_seq = 1\<rparr>"

definition active_descriptor :: "SegmentIndex \<Rightarrow> (StorageError, SegmentDescriptor) result" where
  "active_descriptor idx =
     ok_or (find is_seg_active (descriptors idx)) (Corrupt ''active data segment missing'')"

definition descriptor_for_segment :: "SegmentIndex \<Rightarrow> u64 \<Rightarrow> SegmentDescriptor option" where
  "descriptor_for_segment idx sid = find (\<lambda>d. ucast (segment_seq d) = sid) (descriptors idx)"

definition descriptor_for_blob :: "SegmentIndex \<Rightarrow> u64 \<Rightarrow> SegmentDescriptor option" where
  "descriptor_for_blob idx i = find (\<lambda>d. contains_blob d i) (descriptors idx)"

definition configured_max_segment_size :: "externs \<Rightarrow> u32" where
  "configured_max_segment_size E =
     (case env_var E ''HOLO_SEGMENT_SIZE'' of
        None \<Rightarrow> DEFAULT_MAX_DATA_SEGMENT_SIZE
      | Some raw \<Rightarrow>
          (case parse_word (trim raw) of
             Some v \<Rightarrow> if 0 < v then v else DEFAULT_MAX_DATA_SEGMENT_SIZE
           | None \<Rightarrow> DEFAULT_MAX_DATA_SEGMENT_SIZE))"

section \<open>Cache and state\<close>

record CachedSegmentIndex =
  si_index :: SegmentIndex
  si_dirty :: bool
  si_generation :: u64
  si_stamp :: "bytes option"

record index_store = dedup_store +
  segment_index_cache :: "CachedSegmentIndex option"

definition set_index_cache :: "CachedSegmentIndex option \<Rightarrow> ('z index_store_scheme, 'e, unit) stm" where
  "set_index_cache c = modify_s (segment_index_cache_update (\<lambda>_. c))"

definition load_segment_index :: "externs \<Rightarrow> ('z index_store_scheme, StorageError, SegmentIndex) stm" where
  "load_segment_index E =
     bind_s (read_segment_file_bounded E Segment_Index_File KSegmentIndex MAX_MAINTENANCE_METADATA_BYTES)
       (\<lambda>(_, payload). lift_s (decode_segment_index payload))"

definition load_segment_index_for_append :: "externs \<Rightarrow> ('z index_store_scheme, StorageError, SegmentIndex) stm" where
  "load_segment_index_for_append E s =
     (let reload =
        bind_s (load_segment_index E) (\<lambda>idx s.
        bind_s (set_index_cache (Some \<lparr>si_index = idx, si_dirty = False, si_generation = 0,
                  si_stamp = files s Segment_Index_File\<rparr>)) (\<lambda>_. ret_s idx) s) in
      case segment_index_cache s of
        Some c \<Rightarrow> if si_dirty c \<or> si_stamp c = files s Segment_Index_File then (Ok (si_index c), s) else reload s
      | None \<Rightarrow> reload s)"

definition store_segment_index_for_append :: "SegmentIndex \<Rightarrow> ('z index_store_scheme, StorageError, unit) stm" where
  "store_segment_index_for_append idx s =
     set_index_cache (Some
       \<lparr>si_index = idx, si_dirty = True,
        si_generation = (case segment_index_cache s of None \<Rightarrow> 1 | Some c \<Rightarrow> saturating_add (si_generation c) 1),
        si_stamp = (case segment_index_cache s of None \<Rightarrow> None | Some c \<Rightarrow> si_stamp c)\<rparr>) s"

definition store_segment_index_clean :: "SegmentIndex \<Rightarrow> ('z index_store_scheme, StorageError, unit) stm" where
  "store_segment_index_clean idx s =
     set_index_cache (Some
       \<lparr>si_index = idx, si_dirty = False,
        si_generation = (case segment_index_cache s of None \<Rightarrow> 0 | Some c \<Rightarrow> si_generation c),
        si_stamp = files s Segment_Index_File\<rparr>) s"

definition invalidate_segment_index_cache :: "('z index_store_scheme, StorageError, unit) stm" where
  "invalidate_segment_index_cache = set_index_cache None"

definition persist_segment_index :: "externs \<Rightarrow> SegmentIndex \<Rightarrow> ('z index_store_scheme, StorageError, unit) stm" where
  "persist_segment_index E idx =
     write_segment_file E Segment_Index_File KSegmentIndex 7 (next_segment_seq idx) (index_encode idx)"

definition flush_segment_index_for_append :: "externs \<Rightarrow> ('z index_store_scheme, StorageError, unit) stm" where
  "flush_segment_index_for_append E s =
     (case segment_index_cache s of
        None \<Rightarrow> (Ok (), s)
      | Some c \<Rightarrow>
          if \<not> si_dirty c then (Ok (), s)
          else bind_s (persist_segment_index E (si_index c)) (\<lambda>_ s.
            case segment_index_cache s of
              Some current \<Rightarrow>
                if si_generation current = si_generation c
                then set_index_cache (Some (current\<lparr>si_dirty := False, si_stamp := files s Segment_Index_File\<rparr>)) s
                else (Ok (), s)
            | None \<Rightarrow> (Ok (), s)) s)"

section \<open>Operations\<close>

definition initialize_segment_index :: "externs \<Rightarrow> ('z index_store_scheme, StorageError, SegmentIndex) stm" where
  "initialize_segment_index E s =
     (if files s Segment_Index_File \<noteq> None then load_segment_index E s
      else
        let idx = index_new (configured_max_segment_size E) in
        bind_s (if files s (Data_Segment 0) = None then write_segment_file E (Data_Segment 0) KData 1 0 []
                else ret_s ()) (\<lambda>_.
        bind_s (persist_segment_index E idx) (\<lambda>_. ret_s idx)) s)"

definition active_segment_path :: "SegmentIndex \<Rightarrow> (StorageError, layout_file) result" where
  "active_segment_path idx = bind_r (active_descriptor idx) (\<lambda>d. Ok (Data_Segment (segment_seq d)))"

text \<open>\<^verbatim>\<open>iter_mut().find(...)\<close> and a change of what it finds.\<close>

fun update_first :: "('a \<Rightarrow> bool) \<Rightarrow> ('a \<Rightarrow> 'a) \<Rightarrow> 'a list \<Rightarrow> 'a list" where
  "update_first P f [] = []"
| "update_first P f (x # xs) = (if P x then f x # xs else x # update_first P f xs)"

definition rotate_active_segment :: "externs \<Rightarrow> SegmentIndex \<Rightarrow> ('z index_store_scheme, StorageError, SegmentIndex) stm" where
  "rotate_active_segment E idx =
     bind_s (lift_s (active_descriptor idx)) (\<lambda>_.
     let ds = update_first is_seg_active (\<lambda>d. d\<lparr>sd_state := SegSealed\<rparr>) (descriptors idx) in
     if \<not> unat (next_segment_seq idx) < 2 ^ 32 then err_s (Conflict ''segment sequence exceeds u32'')
     else
       let sq = ucast (next_segment_seq idx) :: u32 in
       bind_s (write_segment_file E (Data_Segment sq) KData (ucast sq) 0 []) (\<lambda>_.
       bind_s (lift_s (ok_or (checked_add (next_segment_seq idx) 1)
                         (Conflict ''segment sequence space is exhausted''))) (\<lambda>n.
       let idx = idx\<lparr>descriptors := ds @ [empty_descriptor sq], next_segment_seq := n\<rparr> in
       bind_s (persist_segment_index E idx) (\<lambda>_. ret_s idx))))"

definition should_rotate :: "SegmentIndex \<Rightarrow> SegmentDescriptor \<Rightarrow> nat \<Rightarrow> nat \<Rightarrow> bool" where
  "should_rotate idx active record_len prefix_len =
     (let pre = (if payload_bytes active = 0 then of_nat prefix_len else 0);
          projected = saturating_add (saturating_add (payload_bytes active) pre) (of_nat record_len) in
      0 < payload_bytes active \<and> ucast (max_segment_size idx) < projected)"

definition prepare_active_segment_for_append ::
  "externs \<Rightarrow> SegmentIndex \<Rightarrow> nat \<Rightarrow> nat \<Rightarrow> ('z index_store_scheme, StorageError, u32 \<times> SegmentIndex) stm" where
  "prepare_active_segment_for_append E idx record_len prefix_len =
     bind_s (lift_s (active_descriptor idx)) (\<lambda>active.
     bind_s (if should_rotate idx active record_len prefix_len then rotate_active_segment E idx else ret_s idx) (\<lambda>idx.
     bind_s (lift_s (active_descriptor idx)) (\<lambda>d. ret_s (segment_seq d, idx))))"

definition descriptor_add_blob :: "u64 \<Rightarrow> u64 \<Rightarrow> u32 \<Rightarrow> CompressionCodec \<Rightarrow> SegmentDescriptor \<Rightarrow> SegmentDescriptor" where
  "descriptor_add_blob bytes i stored codec d =
     d\<lparr>payload_bytes := bytes,
       first_blob_id := (if first_blob_id d = 0 \<or> i < first_blob_id d then i else first_blob_id d),
       last_blob_id := (if last_blob_id d < i then i else last_blob_id d),
       live_bytes := saturating_add (live_bytes d) stored,
       sd_compression := (if codec \<noteq> CodecNone then codec else sd_compression d)\<rparr>"

definition record_blob_append ::
  "SegmentIndex \<Rightarrow> u32 \<Rightarrow> u64 \<Rightarrow> u64 \<Rightarrow> u32 \<Rightarrow> CompressionCodec \<Rightarrow> (StorageError, SegmentIndex) result" where
  "record_blob_append idx sq bytes i stored codec =
     (if find (\<lambda>d. segment_seq d = sq) (descriptors idx) = None
      then Err (NotFound ''segment descriptor not found'')
      else Ok (idx\<lparr>descriptors := update_first (\<lambda>d. segment_seq d = sq)
                      (descriptor_add_blob bytes i stored codec) (descriptors idx)\<rparr>))"

definition seal_segment :: "SegmentIndex \<Rightarrow> u32 \<Rightarrow> (StorageError, SegmentIndex) result" where
  "seal_segment idx sq =
     (if find (\<lambda>d. segment_seq d = sq) (descriptors idx) = None
      then Err (NotFound ''segment descriptor not found'')
      else Ok (idx\<lparr>descriptors := update_first (\<lambda>d. segment_seq d = sq) (\<lambda>d. d\<lparr>sd_state := SegSealed\<rparr>)
                      (descriptors idx)\<rparr>))"

definition remove_segment_descriptor :: "SegmentIndex \<Rightarrow> u32 \<Rightarrow> SegmentIndex" where
  "remove_segment_descriptor idx sq =
     idx\<lparr>descriptors := filter (\<lambda>d. segment_seq d \<noteq> sq) (descriptors idx)\<rparr>"

fun sync_descriptors :: "externs \<Rightarrow> SegmentDescriptor list \<Rightarrow> ('z index_store_scheme, StorageError, unit) stm" where
  "sync_descriptors E [] = ret_s ()"
| "sync_descriptors E (d # ds) =
     bind_s (file_exists (Data_Segment (segment_seq d))) (\<lambda>there.
     bind_s (if there then bind_s (validate_segment_shape E (Data_Segment (segment_seq d)) KData) (\<lambda>_. ret_s ())
             else ret_s ()) (\<lambda>_.
     sync_descriptors E ds))"

definition sync_indexed_segments :: "externs \<Rightarrow> ('z index_store_scheme, StorageError, unit) stm" where
  "sync_indexed_segments E =
     bind_s (load_segment_index_for_append E) (\<lambda>idx. sync_descriptors E (descriptors idx))"

section \<open>Codec\<close>

lemma seg_state_from_to_u8 [simp, codec]: "seg_state_from_u8 (seg_state_to_u8 st) = Ok st"
  by (cases st) (simp_all add: seg_state_from_u8_def seg_state_to_u8_def)

lemma length_sd_body [simp]: "length (sd_body d) = 34"
  by (simp add: sd_body_def)

lemma length_sd_encode [simp]: "length (sd_encode d) = 40"
  by (simp add: sd_encode_def)

lemma sd_decode_encode [codec]: "sd_decode (sd_encode d) = Ok d"
proof -
  have tk: "take 34 (sd_encode d) = sd_body d" by (simp add: sd_encode_def)
  have ck: "slice 34 2 (sd_encode d) = to_le_bytes (descriptor_checksum (sd_body d))"
    by (simp add: sd_encode_def slice_def)
  have sl: "slice i n (sd_encode d) = slice i n (sd_body d)" if "i + n \<le> 34" for i n
    using that by (simp add: sd_encode_def slice_def)
  show ?thesis
    by (simp add: sd_decode_def SEGMENT_DESCRIPTOR_SIZE_def byte_at_def tk ck sl del: bind_r_Ok)
      (simp add: sd_body_def del: bind_r_Ok)
qed

interpretation sd: record_codec sd_encode sd_decode 40 "\<lambda>_. True"
  by unfold_locales (simp_all add: sd_decode_encode)

lemma decode_index_encode:
  assumes "length (descriptors idx) \<le> MAX_MAINTENANCE_METADATA_RECORDS"
  shows "decode_segment_index (index_encode idx) = Ok idx"
proof -
  let ?ds = "descriptors idx"
  let ?head = "SEGMENT_INDEX_PREFIX @ to_le_bytes (max_segment_size idx) @
     to_le_bytes (of_nat (length (filter is_seg_active ?ds)) :: u32) @ to_le_bytes (of_nat (length ?ds) :: u32) @
     to_le_bytes (next_segment_seq idx)"
  have enc: "index_encode idx = ?head @ concat (map sd_encode ?ds)" by (simp add: index_encode_def)
  have head: "length ?head = 24" by (simp add: SEGMENT_INDEX_PREFIX_def)
  have len: "length (index_encode idx) = length ?ds * 40 + 24"
    unfolding enc using head sd.length_concat_enc [of ?ds] by simp
  have n: "unat (of_nat (length ?ds) :: u32) = length ?ds"
    using assms by (simp add: unat_of_nat MAX_MAINTENANCE_METADATA_RECORDS_def)
  have "drop 24 (index_encode idx) = concat (map sd_encode ?ds)" unfolding enc using head by simp
  moreover have "take 4 (index_encode idx) = SEGMENT_INDEX_PREFIX"
    "slice 4 4 (index_encode idx) = to_le_bytes (max_segment_size idx)"
    "slice 8 4 (index_encode idx) = to_le_bytes (of_nat (length (filter is_seg_active ?ds)) :: u32)"
    "slice 12 4 (index_encode idx) = to_le_bytes (of_nat (length ?ds) :: u32)"
    "slice 16 8 (index_encode idx) = to_le_bytes (next_segment_seq idx)"
    by (simp_all add: index_encode_def SEGMENT_INDEX_PREFIX_def slice_def)
  ultimately show ?thesis using assms sd.decode_all [of ?ds] len n
    by (simp add: decode_segment_index_def SEGMENT_DESCRIPTOR_SIZE_def checked_metadata_record_count_def
        list.pred_True del: length_concat bind_r_Ok)
qed

lemma index_encode_fits:
  "length (descriptors idx) \<le> MAX_MAINTENANCE_METADATA_RECORDS \<Longrightarrow>
     length (index_encode idx) + 96 \<le> MAX_MAINTENANCE_METADATA_BYTES"
  using sd.length_concat_enc [of "descriptors idx"]
  by (simp add: index_encode_def SEGMENT_INDEX_PREFIX_def MAX_MAINTENANCE_METADATA_RECORDS_def
      MAX_MAINTENANCE_METADATA_BYTES_def del: length_concat)

section \<open>The invariant of the index\<close>

text \<open>
  Sequence numbers are distinct and below the next one, exactly one segment is
  active, no blob identifier lies in the range of two segments, and the active
  segment holds the most recent identifiers.
\<close>

definition index_inv :: "SegmentIndex \<Rightarrow> bool" where
  "index_inv idx \<longleftrightarrow> distinct (map segment_seq (descriptors idx)) \<and>
     (\<forall>d\<in>set (descriptors idx). unat (segment_seq d) < unat (next_segment_seq idx)) \<and>
     (\<exists>!d. d \<in> set (descriptors idx) \<and> is_seg_active d) \<and>
     (\<forall>a\<in>set (descriptors idx). \<forall>b\<in>set (descriptors idx). \<forall>i.
        contains_blob a i \<and> contains_blob b i \<longrightarrow> a = b) \<and>
     (\<forall>a\<in>set (descriptors idx). \<forall>b\<in>set (descriptors idx). is_seg_active a \<and> a \<noteq> b \<and> first_blob_id a \<noteq> 0 \<longrightarrow>
        last_blob_id b < first_blob_id a)"

lemma update_first_map:
  "distinct (map key xs) \<Longrightarrow> x \<in> set xs \<Longrightarrow> (\<And>y. y \<in> set xs \<Longrightarrow> P y \<longleftrightarrow> key y = key x) \<Longrightarrow>
     update_first P f xs = map (\<lambda>y. if key y = key x then f y else y) xs"
proof (induction xs)
  case (Cons y xs)
  show ?case
  proof (cases "P y")
    case True
    then have "key y = key x" using Cons.prems(3) by simp
    then have "key x \<notin> key ` set xs" using Cons.prems(1) by simp
    then have "\<forall>z\<in>set xs. key z \<noteq> key x" by (metis image_eqI)
    with True \<open>key y = key x\<close> show ?thesis by (simp add: map_idI)
  next
    case False
    then have "key y \<noteq> key x" using Cons.prems(3) by simp
    moreover from this have "x \<in> set xs" using Cons.prems(2) by auto
    ultimately show ?thesis using False Cons by simp
  qed
qed simp

lemma active_descriptor_inv:
  assumes "index_inv idx"
  obtains d where "active_descriptor idx = Ok d" "d \<in> set (descriptors idx)" "is_seg_active d"
    "\<And>x. x \<in> set (descriptors idx) \<Longrightarrow> is_seg_active x \<longleftrightarrow> segment_seq x = segment_seq d"
proof -
  obtain d where d: "d \<in> set (descriptors idx)" "is_seg_active d"
    "\<And>x. x \<in> set (descriptors idx) \<Longrightarrow> is_seg_active x \<Longrightarrow> x = d"
    using assms unfolding index_inv_def by metis
  have dist: "distinct (map segment_seq (descriptors idx))" using assms by (simp add: index_inv_def)
  have fnd: "find is_seg_active (descriptors idx) = Some d"
  proof (cases "find is_seg_active (descriptors idx)")
    case None
    then show ?thesis using d(1,2) by (metis find_None_iff)
  next
    case (Some x)
    then show ?thesis using d(3) find_SomeD [OF Some] by simp
  qed
  have eq: "is_seg_active x \<longleftrightarrow> segment_seq x = segment_seq d" if x: "x \<in> set (descriptors idx)" for x
  proof
    assume "is_seg_active x"
    then have "x = d" by (rule d(3) [OF x])
    then show "segment_seq x = segment_seq d" by simp
  next
    assume "segment_seq x = segment_seq d"
    then have "x = d" using dist x d(1) unfolding distinct_map by (blast dest: inj_onD)
    then show "is_seg_active x" using d(2) by simp
  qed
  show thesis by (rule that [OF _ d(1,2) eq]) (simp_all add: active_descriptor_def fnd)
qed

text \<open>The index after a rotation: the active segment is sealed, a new one is active.\<close>

definition rotated :: "SegmentIndex \<Rightarrow> SegmentIndex" where
  "rotated idx = idx\<lparr>descriptors := update_first is_seg_active (\<lambda>d. d\<lparr>sd_state := SegSealed\<rparr>) (descriptors idx) @
     [empty_descriptor (ucast (next_segment_seq idx))], next_segment_seq := next_segment_seq idx + 1\<rparr>"

lemma descriptor_simps [simp]:
  "segment_seq (empty_descriptor q) = q" "is_seg_active (empty_descriptor q)" "\<not> contains_blob (empty_descriptor q) i"
  "payload_bytes (empty_descriptor q) = 0" "contains_blob (d\<lparr>sd_state := st\<rparr>) i = contains_blob d i"
  by (simp_all add: empty_descriptor_def is_seg_active_def contains_blob_def)

lemma unat_ucast_u32: "unat (w :: u64) < 2 ^ 32 \<Longrightarrow> unat (ucast w :: u32) = unat w"
  by (simp add: unsigned_ucast_eq take_bit_eq_mod)

lemma rotated_inv:
  assumes inv: "index_inv idx" and n: "unat (next_segment_seq idx) < 2 ^ 32"
  shows "index_inv (rotated idx)" "descriptors (rotated idx) \<noteq> []"
    "active_descriptor (rotated idx) = Ok (empty_descriptor (ucast (next_segment_seq idx)))"
proof -
  let ?ds = "descriptors idx" and ?q = "ucast (next_segment_seq idx) :: u32"
  let ?seal = "\<lambda>d :: SegmentDescriptor. d\<lparr>sd_state := SegSealed\<rparr>"
  have dist: "distinct (map segment_seq ?ds)" and below: "\<forall>d\<in>set ?ds. unat (segment_seq d) < unat (next_segment_seq idx)"
    and blobs: "\<forall>a\<in>set ?ds. \<forall>b\<in>set ?ds. \<forall>i. contains_blob a i \<and> contains_blob b i \<longrightarrow> a = b"
    using inv by (simp_all add: index_inv_def)
  obtain d where d: "d \<in> set ?ds" "\<And>x. x \<in> set ?ds \<Longrightarrow> is_seg_active x \<longleftrightarrow> segment_seq x = segment_seq d"
    using active_descriptor_inv [OF inv] by metis
  define f where "f = (\<lambda>y. if segment_seq y = segment_seq d then ?seal y else y)"
  have upd: "update_first is_seg_active ?seal ?ds = map f ?ds"
    unfolding f_def by (rule update_first_map [OF dist d(1) d(2)])
  have f: "segment_seq (f y) = segment_seq y" "contains_blob (f y) i = contains_blob y i" for y i by (simp_all add: f_def)
  have nact: "\<not> is_seg_active (f y)" if "y \<in> set ?ds" for y using d(2) [OF that] by (simp add: f_def is_seg_active_def)
  have q: "unat ?q = unat (next_segment_seq idx)" using unat_ucast_u32 [OF n] .
  have qn: "?q \<notin> segment_seq ` set ?ds" using below q by auto
  have nx: "unat (next_segment_seq idx + 1) = unat (next_segment_seq idx) + 1"
    using n by (simp add: unat_word_ariths)
  have des: "descriptors (rotated idx) = map f ?ds @ [empty_descriptor ?q]" by (simp add: rotated_def upd)
  show "descriptors (rotated idx) \<noteq> []" by (simp add: des)
  have "find is_seg_active (map f ?ds) = None" using nact by (auto simp: find_None_iff)
  moreover have "find is_seg_active (xs @ ys) = find is_seg_active ys" if "find is_seg_active xs = None" for xs ys
    using that by (induction xs) (auto split: if_splits)
  ultimately show "active_descriptor (rotated idx) = Ok (empty_descriptor ?q)"
    by (simp add: active_descriptor_def des)
  show "index_inv (rotated idx)" unfolding index_inv_def des
  proof (intro conjI)
    show "distinct (map segment_seq (map f ?ds @ [empty_descriptor ?q]))" using dist qn by (simp add: comp_def f)
    show "\<forall>x\<in>set (map f ?ds @ [empty_descriptor ?q]). unat (segment_seq x) < unat (next_segment_seq (rotated idx))"
      using below q nx by (auto simp: rotated_def f)
    show "\<exists>!x. x \<in> set (map f ?ds @ [empty_descriptor ?q]) \<and> is_seg_active x" using nact by auto
    show "\<forall>a\<in>set (map f ?ds @ [empty_descriptor ?q]). \<forall>b\<in>set (map f ?ds @ [empty_descriptor ?q]). \<forall>i.
        contains_blob a i \<and> contains_blob b i \<longrightarrow> a = b" using blobs by (fastforce simp: f)
    show "\<forall>a\<in>set (map f ?ds @ [empty_descriptor ?q]). \<forall>b\<in>set (map f ?ds @ [empty_descriptor ?q]).
        is_seg_active a \<and> a \<noteq> b \<and> first_blob_id a \<noteq> 0 \<longrightarrow> last_blob_id b < first_blob_id a"
      using nact by (auto simp: empty_descriptor_def)
  qed
qed

definition rotated_store :: "externs \<Rightarrow> SegmentIndex \<Rightarrow> 'z index_store_scheme \<Rightarrow> 'z index_store_scheme" where
  "rotated_store E idx s =
     (let q = ucast (next_segment_seq idx) :: u32; f = Data_Segment q; g = Segment_Index_File;
          hf = header_new E KData (ucast q) 0 [];
          hg = header_new E KSegmentIndex 7 (next_segment_seq (rotated idx)) (index_encode (rotated idx)) in
      s\<lparr>files := (files s)(Tmp f := None, f := Some (segment_headers E hf),
          Tmp g := None, g := Some (segment_headers E hg @ index_encode (rotated idx))),
        append_file_cache := (append_file_cache s)(f := None, g := None)\<rparr>)"

lemma rotate_run:
  assumes inv: "index_inv idx" and n: "unat (next_segment_seq idx) < 2 ^ 32"
  shows "rotate_active_segment E idx s = (Ok (rotated idx), rotated_store E idx s)"
proof -
  obtain d where "active_descriptor idx = Ok d" using active_descriptor_inv [OF inv] by metis
  moreover have "checked_add (next_segment_seq idx) 1 = Some (next_segment_seq idx + 1)"
    using n by (simp add: checked_add_def)
  ultimately show ?thesis using n
    by (simp add: rotate_active_segment_def persist_segment_index_def write_segment_file_run rotated_def
        rotated_store_def Let_def)
qed

lemma should_rotate_no:
  assumes "\<not> should_rotate idx d n p" "n < 2 ^ 64"
  shows "payload_bytes d = 0 \<or> unat (payload_bytes d) + n \<le> unat (max_segment_size idx)"
proof (rule disjCI)
  assume pos: "\<not> unat (payload_bytes d) + n \<le> unat (max_segment_size idx)"
  have mx: "unat (max_segment_size idx) < 2 ^ 64 - 1" using unat_bound [of "max_segment_size idx"] by simp
  have "unat (saturating_add (payload_bytes d) (of_nat n)) = min (unat (payload_bytes d) + n) (2 ^ 64 - 1)"
    using assms(2) by (simp add: unat_saturating_add unat_of_nat)
  then have "ucast (max_segment_size idx) < saturating_add (payload_bytes d) (of_nat n)"
    using pos mx by (simp add: word_less_nat_alt)
  then show "payload_bytes d = 0"
    using assms(1) by (auto simp: should_rotate_def Let_def word_gt_0 split: if_splits)
qed

lemma prepare_run:
  assumes inv: "index_inv idx" and n: "unat (next_segment_seq idx) < 2 ^ 32" and len: "record_len < 2 ^ 64"
  shows "\<exists>idx' d s'. prepare_active_segment_for_append E idx record_len prefix_len s = (Ok (segment_seq d, idx'), s') \<and>
     index_inv idx' \<and> active_descriptor idx' = Ok d \<and> max_segment_size idx' = max_segment_size idx \<and>
     (payload_bytes d = 0 \<or> unat (payload_bytes d) + record_len \<le> unat (max_segment_size idx)) \<and>
     (idx' = idx \<and> s' = s \<or> idx' = rotated idx \<and> s' = rotated_store E idx s)"
proof -
  obtain d where d: "active_descriptor idx = Ok d" using active_descriptor_inv [OF inv] by metis
  show ?thesis
  proof (cases "should_rotate idx d record_len prefix_len")
    case True
    then show ?thesis using d rotated_inv [OF inv n] rotate_run [OF inv n, of E s]
      by (intro exI [of _ "rotated idx"] exI [of _ "empty_descriptor (ucast (next_segment_seq idx))"]
          exI [of _ "rotated_store E idx s"])
        (simp add: prepare_active_segment_for_append_def, simp add: rotated_def)
  next
    case False
    then show ?thesis using d inv should_rotate_no [OF False len]
      by (intro exI [of _ idx] exI [of _ d] exI [of _ s]) (simp add: prepare_active_segment_for_append_def)
  qed
qed

lemma descriptor_for_blob_iff:
  assumes "index_inv idx"
  shows "descriptor_for_blob idx i = Some d \<longleftrightarrow> d \<in> set (descriptors idx) \<and> contains_blob d i"
proof
  assume "descriptor_for_blob idx i = Some d"
  then show "d \<in> set (descriptors idx) \<and> contains_blob d i" unfolding descriptor_for_blob_def by (rule find_SomeD)
next
  assume d: "d \<in> set (descriptors idx) \<and> contains_blob d i"
  then obtain x where x: "descriptor_for_blob idx i = Some x"
    by (cases "descriptor_for_blob idx i") (auto simp: descriptor_for_blob_def find_None_iff)
  then have "x \<in> set (descriptors idx) \<and> contains_blob x i" unfolding descriptor_for_blob_def by (rule find_SomeD)
  then have "x = d" using assms d unfolding index_inv_def by blast
  with x show "descriptor_for_blob idx i = Some d" by simp
qed

lemma record_blob_run:
  assumes inv: "index_inv idx" and act: "active_descriptor idx = Ok d"
    and i: "i \<noteq> 0" "\<forall>x\<in>set (descriptors idx). last_blob_id x < i"
  shows "\<exists>idx'. record_blob_append idx (segment_seq d) bytes i stored codec = Ok idx' \<and> index_inv idx' \<and>
     descriptors idx' = map (\<lambda>x. if segment_seq x = segment_seq d then descriptor_add_blob bytes i stored codec x else x)
       (descriptors idx) \<and> next_segment_seq idx' = next_segment_seq idx \<and> max_segment_size idx' = max_segment_size idx"
proof -
  let ?ds = "descriptors idx" and ?add = "descriptor_add_blob bytes i stored codec"
  obtain d' where d': "active_descriptor idx = Ok d'" "d' \<in> set ?ds" "is_seg_active d'"
    "\<And>x. x \<in> set ?ds \<Longrightarrow> is_seg_active x \<longleftrightarrow> segment_seq x = segment_seq d'"
    using active_descriptor_inv [OF inv] by metis
  then have d: "d \<in> set ?ds" "is_seg_active d" "\<And>x. x \<in> set ?ds \<Longrightarrow> is_seg_active x \<longleftrightarrow> segment_seq x = segment_seq d"
    using act by simp_all
  define f where "f = (\<lambda>x. if segment_seq x = segment_seq d then ?add x else x)"
  have dist: "distinct (map segment_seq ?ds)" using inv by (simp add: index_inv_def)
  have upd: "update_first (\<lambda>x. segment_seq x = segment_seq d) ?add ?ds = map f ?ds"
    unfolding f_def by (rule update_first_map [OF dist d(1)]) simp
  have seq: "segment_seq (f x) = segment_seq x" "is_seg_active (f x) = is_seg_active x" for x
    by (simp_all add: f_def descriptor_add_blob_def is_seg_active_def)
  have uniq: "x = d" if "x \<in> set ?ds" "segment_seq x = segment_seq d" for x
    using that d(1) dist unfolding distinct_map by (blast dest: inj_onD)
  have others: "f x = x" if "x \<in> set ?ds" "x \<noteq> d" for x using that uniq by (auto simp: f_def)
  have below: "last_blob_id x < first_blob_id (f d)" if "x \<in> set ?ds" "x \<noteq> d" for x
    using that i inv d(1,2) unfolding index_inv_def by (auto simp: f_def descriptor_add_blob_def)
  have dis: "\<not> (contains_blob (f d) j \<and> contains_blob x j)" if "x \<in> set ?ds" "x \<noteq> d" for x j
    using below [OF that] by (auto simp: contains_blob_def)
  let ?idx = "idx\<lparr>descriptors := map f ?ds\<rparr>"
  have "index_inv ?idx" unfolding index_inv_def
  proof (intro conjI)
    show "distinct (map segment_seq (descriptors ?idx))" using dist by (simp add: comp_def seq)
    show "\<forall>x\<in>set (descriptors ?idx). unat (segment_seq x) < unat (next_segment_seq ?idx)"
      using inv by (simp add: index_inv_def seq)
    show "\<exists>!x. x \<in> set (descriptors ?idx) \<and> is_seg_active x"
    proof (rule ex1I [of _ "f d"])
      fix y assume "y \<in> set (descriptors ?idx) \<and> is_seg_active y"
      then obtain x where "x \<in> set ?ds" "y = f x" "is_seg_active x" by (auto simp: seq)
      then show "y = f d" using uniq d(3) by blast
    qed (use d in \<open>auto simp: seq\<close>)
    have "f x = f y" if "x \<in> set ?ds" "y \<in> set ?ds" "contains_blob (f x) j" "contains_blob (f y) j" for x y j
    proof (cases "x = d \<or> y = d")
      case True
      then show ?thesis using that dis others by metis
    next
      case False
      then have "f x = x" "f y = y" using that others by simp_all
      then show ?thesis using that inv unfolding index_inv_def by metis
    qed
    then show "\<forall>a\<in>set (descriptors ?idx). \<forall>b\<in>set (descriptors ?idx). \<forall>j.
        contains_blob a j \<and> contains_blob b j \<longrightarrow> a = b" by auto
    show "\<forall>a\<in>set (descriptors ?idx). \<forall>b\<in>set (descriptors ?idx). is_seg_active a \<and> a \<noteq> b \<and> first_blob_id a \<noteq> 0 \<longrightarrow>
        last_blob_id b < first_blob_id a"
    proof (intro ballI impI)
      fix a b assume "a \<in> set (descriptors ?idx)" "b \<in> set (descriptors ?idx)"
        and ne: "is_seg_active a \<and> a \<noteq> b \<and> first_blob_id a \<noteq> 0"
      then obtain x y where xy: "x \<in> set ?ds" "a = f x" "y \<in> set ?ds" "b = f y" by auto
      then have "x = d" "y \<noteq> d" using ne uniq d(3) seq(2) by blast+
      then show "last_blob_id b < first_blob_id a" using below [of y] others [of y] xy by simp
    qed
  qed
  moreover have "record_blob_append idx (segment_seq d) bytes i stored codec = Ok ?idx"
    using d(1) by (auto simp: record_blob_append_def upd find_None_iff)
  ultimately show ?thesis by (intro exI [of _ ?idx]) (simp add: f_def)
qed

section \<open>Properties\<close>

definition sample_index_store :: index_store where
  "sample_index_store =
     \<lparr>files = (\<lambda>_. None), append_file_cache = (\<lambda>_. None), blk_map_cache = None, lookup_cache = None,
      dedup_cache = None, segment_index_cache = None\<rparr>"

definition sample_index :: SegmentIndex where
  "sample_index =
     \<lparr>max_segment_size = 1000,
      descriptors = [(empty_descriptor 0)\<lparr>payload_bytes := 900, first_blob_id := 1, last_blob_id := 3, live_bytes := 900\<rparr>],
      next_segment_seq = 1\<rparr>"

lemma index_inv_single:
  "descriptors idx = [d] \<Longrightarrow> is_seg_active d \<Longrightarrow> unat (segment_seq d) < unat (next_segment_seq idx) \<Longrightarrow> index_inv idx"
  by (auto simp: index_inv_def)

lemma sample_index_inv: "index_inv sample_index"
  by (rule index_inv_single [where d = "(empty_descriptor 0)\<lparr>payload_bytes := 900, first_blob_id := 1,
        last_blob_id := 3, live_bytes := 900\<rparr>"])
    (simp_all add: sample_index_def empty_descriptor_def is_seg_active_def)

text \<open>
  C29: Appending blobs keeps the index well formed, and the segment chosen for a
  record either is empty or has room for it below the maximum size; when the
  active segment has no room it is sealed and a new one takes its place.
\<close>

theorem prepared_segment_has_room:
  assumes "index_inv idx" "unat (next_segment_seq idx) < 2 ^ 32" "record_len < 2 ^ 64"
  shows "\<exists>idx' d s'. prepare_active_segment_for_append E idx record_len prefix_len s = (Ok (segment_seq d, idx'), s') \<and>
     index_inv idx' \<and> active_descriptor idx' = Ok d \<and>
     (payload_bytes d = 0 \<or> unat (payload_bytes d) + record_len \<le> unat (max_segment_size idx'))"
  using prepare_run [OF assms] by metis

theorem prepared_segment_has_room_witness:
  "\<exists>idx' d s'. prepare_active_segment_for_append plain_externs sample_index 200 4 sample_index_store =
     (Ok (segment_seq d, idx'), s') \<and> index_inv idx' \<and> active_descriptor idx' = Ok d \<and>
     (payload_bytes d = 0 \<or> unat (payload_bytes d) + 200 \<le> unat (max_segment_size idx'))"
proof -
  have "unat (next_segment_seq sample_index) < 2 ^ 32" by (simp add: sample_index_def)
  then show ?thesis by (rule prepared_segment_has_room [OF sample_index_inv]) simp
qed

text \<open>
  C30: Registering a blob with a fresh identifier in the active segment keeps the
  index well formed; afterwards the blob is found in that segment and every
  other blob is found where it was found before.
\<close>

theorem recorded_blob_found:
  assumes "index_inv idx" "active_descriptor idx = Ok d" "i \<noteq> 0" "\<forall>x\<in>set (descriptors idx). last_blob_id x < i"
  shows "\<exists>idx'. record_blob_append idx (segment_seq d) bytes i stored codec = Ok idx' \<and> index_inv idx' \<and>
     map_option segment_seq (descriptor_for_blob idx' i) = Some (segment_seq d) \<and>
     (\<forall>j x. descriptor_for_blob idx j = Some x \<longrightarrow>
        map_option segment_seq (descriptor_for_blob idx' j) = Some (segment_seq x))"
proof -
  let ?f = "\<lambda>x. if segment_seq x = segment_seq d then descriptor_add_blob bytes i stored codec x else x"
  obtain idx' where r: "record_blob_append idx (segment_seq d) bytes i stored codec = Ok idx'" "index_inv idx'"
    "descriptors idx' = map ?f (descriptors idx)"
    using record_blob_run [OF assms] by blast
  have seq: "segment_seq (?f x) = segment_seq x" for x by (simp add: descriptor_add_blob_def)
  have found: "map_option segment_seq (descriptor_for_blob idx' j) = Some (segment_seq x)"
    if "x \<in> set (descriptors idx)" "contains_blob (?f x) j" for x j
  proof -
    have "?f x \<in> set (descriptors idx')" using that(1) by (simp add: r(3))
    then have "descriptor_for_blob idx' j = Some (?f x)" using that(2) descriptor_for_blob_iff [OF r(2)] by blast
    then show ?thesis by (simp add: seq)
  qed
  have d: "d \<in> set (descriptors idx)" using assms(2) active_descriptor_inv [OF assms(1)] by force
  have "contains_blob (?f d) i" using assms(3,4) d
    by (auto simp: contains_blob_def descriptor_add_blob_def word_gt_0 intro: less_imp_le)
  then have "map_option segment_seq (descriptor_for_blob idx' i) = Some (segment_seq d)" using found [OF d] by blast
  moreover have "map_option segment_seq (descriptor_for_blob idx' j) = Some (segment_seq x)"
    if x: "descriptor_for_blob idx j = Some x" for j x
  proof (rule found)
    have x': "x \<in> set (descriptors idx)" "contains_blob x j" using x descriptor_for_blob_iff [OF assms(1)] by blast+
    show "x \<in> set (descriptors idx)" by (rule x'(1))
    have "last_blob_id x < i" using assms(4) x'(1) by blast
    then show "contains_blob (?f x) j" using x'(2)
      by (auto simp: contains_blob_def descriptor_add_blob_def)
  qed
  ultimately show ?thesis using r(1,2) by blast
qed

theorem recorded_blob_found_witness:
  "\<exists>idx'. record_blob_append sample_index 0 950 4 50 CodecNone = Ok idx' \<and>
     map_option segment_seq (descriptor_for_blob idx' 4) = Some 0"
proof -
  let ?d = "(empty_descriptor 0)\<lparr>payload_bytes := 900, first_blob_id := 1, last_blob_id := 3, live_bytes := 900\<rparr>"
  have "active_descriptor sample_index = Ok ?d"
    by (simp add: active_descriptor_def sample_index_def is_seg_active_def empty_descriptor_def)
  from recorded_blob_found [OF sample_index_inv this, of 4 950 50 CodecNone] show ?thesis
    by (auto simp: sample_index_def)
qed

text \<open>
  C31: An index stored for appending is what the next append sees, and after a
  flush it is also what a process with an empty cache loads from the file.
\<close>

theorem index_flush_durable:
  assumes "length (descriptors idx) \<le> MAX_MAINTENANCE_METADATA_RECORDS"
  shows "\<exists>s1 s2. store_segment_index_for_append idx s = (Ok (), s1) \<and>
     load_segment_index_for_append E s1 = (Ok idx, s1) \<and>
     flush_segment_index_for_append E s1 = (Ok (), s2) \<and>
     load_segment_index_for_append E s2 = (Ok idx, s2) \<and>
     load_segment_index E (segment_index_cache_update (\<lambda>_. None) s2) =
       (Ok idx, segment_index_cache_update (\<lambda>_. None) s2)"
proof -
  let ?c = "\<lparr>si_index = idx, si_dirty = True,
        si_generation = (case segment_index_cache s of None \<Rightarrow> 1 | Some c \<Rightarrow> saturating_add (si_generation c) 1),
        si_stamp = (case segment_index_cache s of None \<Rightarrow> None | Some c \<Rightarrow> si_stamp c)\<rparr>"
  let ?h = "header_new E KSegmentIndex 7 (next_segment_seq idx) (index_encode idx)"
  let ?s1 = "segment_index_cache_update (\<lambda>_. Some ?c) s"
  let ?w = "?s1\<lparr>files := (files s)(Tmp Segment_Index_File := None,
      Segment_Index_File := Some (segment_headers E ?h @ index_encode idx)),
      append_file_cache := (append_file_cache s)(Segment_Index_File := None)\<rparr>"
  let ?s2 = "segment_index_cache_update (\<lambda>_. Some (?c\<lparr>si_dirty := False,
      si_stamp := files ?w Segment_Index_File\<rparr>)) ?w"
  let ?s3 = "segment_index_cache_update (\<lambda>_. None) ?s2"
  have len: "length (index_encode idx) + 96 \<le> MAX_MAINTENANCE_METADATA_BYTES"
    using assms by (rule index_encode_fits)
  have "sealed E ?s3 Segment_Index_File ?h (index_encode idx)"
    by (rule sealed_header_new) (use len in \<open>simp_all add: MAX_MAINTENANCE_METADATA_BYTES_def\<close>)
  then have rd: "read_segment_file_bounded E Segment_Index_File KSegmentIndex MAX_MAINTENANCE_METADATA_BYTES ?s3 =
      (Ok (?h, index_encode idx), ?s3)"
    using len by (intro read_bounded_sealed) (simp_all add: header_new_def)
  have "store_segment_index_for_append idx s = (Ok (), ?s1)"
    by (simp add: store_segment_index_for_append_def set_index_cache_def)
  moreover have "load_segment_index_for_append E ?s1 = (Ok idx, ?s1)"
    by (simp add: load_segment_index_for_append_def Let_def)
  moreover have "flush_segment_index_for_append E ?s1 = (Ok (), ?s2)"
    by (simp add: flush_segment_index_for_append_def persist_segment_index_def write_segment_file_run set_index_cache_def)
  moreover have "load_segment_index_for_append E ?s2 = (Ok idx, ?s2)"
    by (simp add: load_segment_index_for_append_def Let_def)
  moreover have "load_segment_index E ?s3 = (Ok idx, ?s3)"
    using rd decode_index_encode [OF assms] by (simp add: load_segment_index_def)
  ultimately show ?thesis by blast
qed

theorem index_flush_durable_witness:
  "\<exists>s1 s2. store_segment_index_for_append sample_index sample_index_store = (Ok (), s1) \<and>
     flush_segment_index_for_append plain_externs s1 = (Ok (), s2) \<and>
     load_segment_index plain_externs (segment_index_cache_update (\<lambda>_. None) s2) =
       (Ok sample_index, segment_index_cache_update (\<lambda>_. None) s2)"
proof -
  have "length (descriptors sample_index) \<le> MAX_MAINTENANCE_METADATA_RECORDS"
    by (simp add: sample_index_def MAX_MAINTENANCE_METADATA_RECORDS_def)
  from index_flush_durable [OF this, of sample_index_store plain_externs] show ?thesis by blast
qed

end
