(* ===== verification/Reclaim.thy ===== *)
theory Reclaim
  imports Map_Lookup "HOL-Library.Product_Lexorder"
begin

text \<open>
  Reclaim candidates (\<^verbatim>\<open>storage/reclaim.rs\<close>): block map records that are
  superseded and may be reclaimed once no lookup entry refers to them.  The
  references are checked against sorted, merged intervals of record
  identifiers.
\<close>

section \<open>References\<close>

record ReclaimReferenceInterval =
  iv_start :: u64
  iv_end :: u64

definition reference_interval :: "MapLookupRecord \<Rightarrow> ReclaimReferenceInterval option" where
  "reference_interval r =
     (if blk_map_ref_end r < blk_map_ref_start r then None
      else Some \<lparr>iv_start = blk_map_ref_start r, iv_end = blk_map_ref_end r\<rparr>)"

text \<open>The loop over the sorted intervals; the merged ones are kept in reverse, the last one first.\<close>

fun merge_intervals ::
  "ReclaimReferenceInterval list \<Rightarrow> ReclaimReferenceInterval list \<Rightarrow> ReclaimReferenceInterval list" where
  "merge_intervals merged [] = rev merged"
| "merge_intervals [] (iv # ivs) = merge_intervals [iv] ivs"
| "merge_intervals (l # merged) (iv # ivs) =
     (if iv_start iv \<le> saturating_add (iv_end l) 1
      then merge_intervals (l\<lparr>iv_end := max (iv_end l) (iv_end iv)\<rparr> # merged) ivs
      else merge_intervals (iv # l # merged) ivs)"

definition from_lookup_records :: "MapLookupRecord list \<Rightarrow> ReclaimReferenceInterval list" where
  "from_lookup_records rs =
     merge_intervals [] (sort_key (\<lambda>iv. (iv_start iv, iv_end iv)) (List.map_filter reference_interval rs))"

text \<open>\<^verbatim>\<open>binary_search_by_key\<close> on a slice with increasing keys: the position, or where it would be.\<close>

definition binary_search_by_key :: "('a \<Rightarrow> u64) \<Rightarrow> u64 \<Rightarrow> 'a list \<Rightarrow> nat + nat" where
  "binary_search_by_key key k xs =
     (let i = partition_point (\<lambda>x. key x < k) xs in
      if i < length xs \<and> key (xs ! i) = k then Inr i else Inl i)"

definition index_contains :: "ReclaimReferenceInterval list \<Rightarrow> u64 \<Rightarrow> bool" where
  "index_contains ivs i =
     (if ivs = [] then False
      else case binary_search_by_key iv_start i ivs of
        Inr _ \<Rightarrow> True
      | Inl k \<Rightarrow> if k = 0 then False else i \<le> iv_end (ivs ! (k - 1)))"

section \<open>Candidates\<close>

datatype ReclaimReason = Superseded | Truncated | Compacted

definition reason_to_u8 :: "ReclaimReason \<Rightarrow> u8" where
  "reason_to_u8 r = (case r of Superseded \<Rightarrow> 1 | Truncated \<Rightarrow> 2 | Compacted \<Rightarrow> 3)"

definition reason_from_u8 :: "u8 \<Rightarrow> (StorageError, ReclaimReason) result" where
  "reason_from_u8 v =
     (if v = 1 then Ok Superseded else if v = 2 then Ok Truncated else if v = 3 then Ok Compacted
      else Err (Corrupt ''invalid reclaim reason''))"

record ReclaimCandidate =
  candidate_id :: u64
  blk_map_record_id :: u64
  reason :: ReclaimReason
  safe_to_reclaim :: bool

definition RECLAIM_RECORD_SIZE :: nat where "RECLAIM_RECORD_SIZE = 25"

definition candidate_encode :: "ReclaimCandidate \<Rightarrow> bytes" where
  "candidate_encode c =
     to_le_bytes (candidate_id c) @ to_le_bytes (blk_map_record_id c) @ [reason_to_u8 (reason c)] @
     [if safe_to_reclaim c then 1 else 0] @ replicate 7 0"

definition candidate_decode :: "bytes \<Rightarrow> (StorageError, ReclaimCandidate) result" where
  "candidate_decode buf =
     (if length buf < RECLAIM_RECORD_SIZE then Err (Corrupt ''reclaim record too short'')
      else bind_r (reason_from_u8 (byte_at 16 buf)) (\<lambda>r.
        Ok \<lparr>candidate_id = from_le_bytes (slice 0 8 buf), blk_map_record_id = from_le_bytes (slice 8 8 buf),
            reason = r, safe_to_reclaim = (byte_at 17 buf = 1)\<rparr>))"

definition load_reclaim_candidates :: "externs \<Rightarrow> ('z lookup_store_scheme, StorageError, ReclaimCandidate list) stm" where
  "load_reclaim_candidates E =
     bind_s (read_segment_file_bounded E Reclaim_File KReclaim MAX_MAINTENANCE_METADATA_BYTES) (\<lambda>(_, payload).
     lift_s
      (if payload = [] then Ok []
       else if length payload < 8 then Err (Corrupt ''reclaim payload too short'')
       else bind_r (checked_metadata_record_count (unat (from_le_bytes (slice 0 8 payload) :: u64))) (\<lambda>n.
         if (length payload - 8) div RECLAIM_RECORD_SIZE < n then Err (Corrupt ''reclaim payload truncated'')
         else traverse candidate_decode (take n (chunks RECLAIM_RECORD_SIZE (drop 8 payload))))))"

definition persist_candidates :: "externs \<Rightarrow> ReclaimCandidate list \<Rightarrow> ('z lookup_store_scheme, StorageError, unit) stm" where
  "persist_candidates E cs =
     write_segment_file E Reclaim_File KReclaim 4 (of_nat (length cs))
       (to_le_bytes (of_nat (length cs) :: u64) @ concat (map candidate_encode cs))"

text \<open>The next candidate identifier follows the last one of the list.\<close>

definition next_candidate_id :: "ReclaimCandidate list \<Rightarrow> u64" where
  "next_candidate_id cs = (if cs = [] then 1 else candidate_id (last cs) + 1)"

definition upsert_candidate ::
  "u64 \<Rightarrow> ReclaimReason \<Rightarrow> bool \<Rightarrow> ReclaimCandidate list \<Rightarrow> ReclaimCandidate \<times> ReclaimCandidate list" where
  "upsert_candidate i why still_referenced cs =
     (case position (\<lambda>c. blk_map_record_id c = i) cs of
        Some k \<Rightarrow>
          let c = (cs ! k)\<lparr>reason := why, safe_to_reclaim := \<not> still_referenced\<rparr> in (c, cs[k := c])
      | None \<Rightarrow>
          let c = \<lparr>candidate_id = next_candidate_id cs, blk_map_record_id = i, reason = why,
                   safe_to_reclaim = \<not> still_referenced\<rparr> in (c, cs @ [c]))"

definition upsert_reclaim_candidate ::
  "externs \<Rightarrow> u64 \<Rightarrow> ReclaimReason \<Rightarrow> ('z lookup_store_scheme, StorageError, ReclaimCandidate) stm" where
  "upsert_reclaim_candidate E i why =
     bind_s (mark_blk_map_stale E i) (\<lambda>_.
     bind_s (load_lookup_records E) (\<lambda>(_, lookups).
     let still_referenced = list_ex (\<lambda>l. blk_map_ref_start l \<le> i \<and> i \<le> blk_map_ref_end l) lookups in
     bind_s (load_reclaim_candidates E) (\<lambda>cs.
     let cs = snd (upsert_candidate i why still_referenced cs) in
     bind_s (persist_candidates E cs) (\<lambda>_.
     case find (\<lambda>c. blk_map_record_id c = i) cs of
       Some c \<Rightarrow> ret_s c
     | None \<Rightarrow> err_s (Corrupt ''candidate missing after persist'')))))"

fun upsert_candidates ::
  "ReclaimReferenceInterval list \<Rightarrow> ReclaimReason \<Rightarrow> u64 list \<Rightarrow> ReclaimCandidate list \<Rightarrow>
   ReclaimCandidate list \<times> ReclaimCandidate list" where
  "upsert_candidates refs why [] cs = ([], cs)"
| "upsert_candidates refs why (i # is) cs =
     (let (c, cs) = upsert_candidate i why (index_contains refs i) cs;
          (updated, cs) = upsert_candidates refs why is cs in
      (c # updated, cs))"

definition upsert_reclaim_candidates ::
  "externs \<Rightarrow> u64 list \<Rightarrow> ReclaimReason \<Rightarrow> ('z lookup_store_scheme, StorageError, ReclaimCandidate list) stm" where
  "upsert_reclaim_candidates E ids why =
     (if ids = [] then ret_s []
      else
        bind_s (load_lookup_records E) (\<lambda>(_, lookups).
        bind_s (load_reclaim_candidates E) (\<lambda>cs.
        let (updated, cs) = upsert_candidates (from_lookup_records lookups) why ids cs in
        bind_s (persist_candidates E cs) (\<lambda>_. ret_s updated))))"

definition refresh_candidate :: "ReclaimReferenceInterval list \<Rightarrow> ReclaimCandidate \<Rightarrow> ReclaimCandidate" where
  "refresh_candidate refs c = c\<lparr>safe_to_reclaim := \<not> index_contains refs (blk_map_record_id c)\<rparr>"

definition refresh_reclaim_safety :: "externs \<Rightarrow> ('z lookup_store_scheme, StorageError, nat) stm" where
  "refresh_reclaim_safety E =
     bind_s (load_lookup_records E) (\<lambda>(_, lookups).
     bind_s (load_reclaim_candidates E) (\<lambda>cs.
     let refs = from_lookup_records lookups;
         updated = length (filter (\<lambda>c. safe_to_reclaim c \<noteq> (\<not> index_contains refs (blk_map_record_id c))) cs) in
     bind_s (persist_candidates E (map (refresh_candidate refs) cs)) (\<lambda>_. ret_s updated)))"

section \<open>The merged intervals\<close>

text \<open>
  Intervals that do not touch: each starts behind the end of the one before,
  so at most one of them can hold an identifier.
\<close>

fun separated :: "ReclaimReferenceInterval list \<Rightarrow> bool" where
  "separated [] = True"
| "separated (iv # ivs) = (iv_start iv \<le> iv_end iv \<and> (\<forall>x\<in>set ivs. iv_end iv < iv_start x) \<and> separated ivs)"

definition iv_has :: "u64 \<Rightarrow> ReclaimReferenceInterval \<Rightarrow> bool" where
  "iv_has i iv \<longleftrightarrow> iv_start iv \<le> i \<and> i \<le> iv_end iv"

lemma separated_snoc:
  "separated (ivs @ [iv]) \<longleftrightarrow> separated ivs \<and> iv_start iv \<le> iv_end iv \<and> (\<forall>x\<in>set ivs. iv_end x < iv_start iv)"
  by (induction ivs) auto

text \<open>Merging keeps the identifiers that some interval holds, and what it returns is separated.\<close>

lemma touching:
  assumes "iv_start l \<le> iv_start iv" "iv_start iv \<le> saturating_add (iv_end l) 1" "iv_start l \<le> iv_end l" "iv_start iv \<le> iv_end iv"
  shows "iv_has i (l\<lparr>iv_end := max (iv_end l) (iv_end iv)\<rparr>) \<longleftrightarrow> iv_has i l \<or> iv_has i iv"
proof -
  have "unat (saturating_add (iv_end l) 1) \<le> unat (iv_end l) + 1" by (simp add: unat_saturating_add)
  then show ?thesis using assms by (auto simp: iv_has_def word_le_nat_alt max_def not_le)
qed

lemma merge_intervals_has:
  assumes "separated (rev merged)" "sorted (map iv_start ivs)" "\<forall>iv\<in>set ivs. iv_start iv \<le> iv_end iv"
    and "\<forall>l\<in>set merged. \<forall>iv\<in>set ivs. iv_start l \<le> iv_start iv"
  shows "separated (merge_intervals merged ivs) \<and>
     ((\<exists>x\<in>set (merge_intervals merged ivs). iv_has i x) \<longleftrightarrow> (\<exists>x\<in>set merged \<union> set ivs. iv_has i x))"
  using assms
proof (induction merged ivs rule: merge_intervals.induct)
  case (1 merged)
  then show ?case by simp
next
  case (2 iv ivs)
  then show ?case by auto
next
  case (3 l merged iv ivs)
  have sep: "separated (rev merged)" "iv_start l \<le> iv_end l" "\<forall>x\<in>set merged. iv_end x < iv_start l"
    using "3.prems"(1) by (auto simp: separated_snoc)
  show ?case
  proof (cases "iv_start iv \<le> saturating_add (iv_end l) 1")
    case True
    let ?l = "l\<lparr>iv_end := max (iv_end l) (iv_end iv)\<rparr>"
    have "separated (rev (?l # merged))" using sep by (auto simp: separated_snoc max_def)
    from "3.IH"(1) [OF True this] "3.prems" True touching [of l iv i] sep(2)
    show ?thesis by auto
  next
    case False
    then have gap: "iv_end l < iv_start iv" using unat_bound_le [of "iv_start iv"]
      by (simp add: word_le_nat_alt word_less_nat_alt not_le unat_saturating_add min_def split: if_splits)
    then have "\<forall>x\<in>set merged. iv_end x < iv_start iv" using sep(2,3) by (metis le_less_trans less_trans)
    with gap have "separated ((rev merged @ [l]) @ [iv])" unfolding separated_snoc using sep "3.prems"(3) by auto
    then have "separated (rev (iv # l # merged))" by simp
    from "3.IH"(2) [OF False this] "3.prems" False show ?thesis by auto
  qed
qed

lemma separated_starts: "separated ivs \<Longrightarrow> sorted (map iv_start ivs)"
  by (induction ivs) (auto intro: less_imp_le order_trans dest: le_less_trans)

lemma separated_nth:
  "separated ivs \<Longrightarrow> a < b \<Longrightarrow> b < length ivs \<Longrightarrow> iv_end (ivs ! a) < iv_start (ivs ! b)"
proof (induction ivs arbitrary: a b)
  case (Cons iv ivs)
  then show ?case by (cases a; cases b) auto
qed simp

lemma separated_valid: "separated ivs \<Longrightarrow> x \<in> set ivs \<Longrightarrow> iv_start x \<le> iv_end x"
  by (induction ivs) auto

text \<open>On separated intervals the binary search decides membership.\<close>

lemma index_contains_iff:
  assumes sep: "separated ivs"
  shows "index_contains ivs i \<longleftrightarrow> (\<exists>x\<in>set ivs. iv_has i x)"
proof -
  let ?k = "partition_point (\<lambda>x. iv_start x < i) ivs"
  have before: "iv_start (ivs ! j) < i" if "j < ?k" for j using nth_before_partition_point [OF that] .
  have behind: "i \<le> iv_start (ivs ! j)" if j: "?k \<le> j" "j < length ivs" for j
  proof -
    have "i \<le> iv_start (ivs ! ?k)" using nth_partition_point [of "\<lambda>x. iv_start x < i" ivs] j by (simp add: not_less)
    also have "\<dots> \<le> iv_start (ivs ! j)"
      using sorted_nth_mono [OF separated_starts [OF sep] j(1)] j by simp
    finally show ?thesis .
  qed
  show ?thesis
  proof (cases "?k < length ivs \<and> iv_start (ivs ! ?k) = i")
    case True
    then have "iv_has i (ivs ! ?k)" using separated_valid [OF sep, of "ivs ! ?k"] by (simp add: iv_has_def)
    then show ?thesis using True by (auto simp: index_contains_def binary_search_by_key_def Let_def)
  next
    case False
    have ic: "index_contains ivs i \<longleftrightarrow> ?k \<noteq> 0 \<and> i \<le> iv_end (ivs ! (?k - 1))"
    proof (cases "ivs = []")
      case True
      then show ?thesis by (simp add: index_contains_def partition_point_def)
    next
      case ne: False
      then show ?thesis using False by (auto simp: index_contains_def binary_search_by_key_def Let_def)
    qed
    have "j = ?k - 1 \<and> ?k \<noteq> 0" if j: "j < length ivs" "iv_has i (ivs ! j)" for j
    proof -
      have "j < ?k"
      proof (rule ccontr)
        assume "\<not> j < ?k"
        then have "?k < length ivs" "i = iv_start (ivs ! j)" "?k \<le> j" using j behind [of j] by (auto simp: iv_has_def)
        moreover have "iv_start (ivs ! ?k) \<le> iv_start (ivs ! j)"
          using sorted_nth_mono [OF separated_starts [OF sep], of ?k j] j calculation by simp
        ultimately show False using False behind [of ?k] by auto
      qed
      moreover have "\<not> j < ?k - 1"
      proof
        assume "j < ?k - 1"
        moreover have "?k - 1 < length ivs"
          using \<open>j < ?k - 1\<close> partition_point_le [of "\<lambda>x. iv_start x < i" ivs] by linarith
        ultimately have "iv_end (ivs ! j) < iv_start (ivs ! (?k - 1))" by (rule separated_nth [OF sep])
        moreover have "iv_start (ivs ! (?k - 1)) < i" using before [of "?k - 1"] \<open>j < ?k - 1\<close> by simp
        ultimately show False using j(2) by (auto simp: iv_has_def)
      qed
      ultimately show ?thesis by simp
    qed
    moreover have "iv_has i (ivs ! (?k - 1)) \<longleftrightarrow> i \<le> iv_end (ivs ! (?k - 1))" if "?k \<noteq> 0"
      using before [of "?k - 1"] that by (auto simp: iv_has_def intro: less_imp_le)
    moreover have "?k - 1 < length ivs" if "?k \<noteq> 0"
      using that partition_point_le [of "\<lambda>x. iv_start x < i" ivs] by linarith
    ultimately show ?thesis unfolding ic by (metis in_set_conv_nth nth_mem)
  qed
qed

lemma map_filter_set: "x \<in> set (List.map_filter f xs) \<longleftrightarrow> (\<exists>y\<in>set xs. f y = Some x)"
  by (induction xs) (auto simp: map_filter_simps split: option.splits)

lemma sorted_fst_key: "sorted (map (\<lambda>x. (f x, g x)) xs) \<Longrightarrow> sorted (map f xs)"
  for f :: "'a \<Rightarrow> 'k::linorder" and g :: "'a \<Rightarrow> 'l::linorder"
  by (induction xs) (auto simp: less_eq_prod_def)

lemma reference_index_iff:
  "index_contains (from_lookup_records rs) i \<longleftrightarrow> (\<exists>r\<in>set rs. blk_map_ref_start r \<le> i \<and> i \<le> blk_map_ref_end r)"
proof -
  let ?ivs = "sort_key (\<lambda>iv. (iv_start iv, iv_end iv)) (List.map_filter reference_interval rs)"
  have srt: "sorted (map iv_start ?ivs)" by (rule sorted_fst_key [where g = iv_end]) simp
  have val: "\<forall>iv\<in>set ?ivs. iv_start iv \<le> iv_end iv"
    by (auto simp: map_filter_set reference_interval_def split: if_splits)
  have "separated (from_lookup_records rs) \<and>
      ((\<exists>x\<in>set (from_lookup_records rs). iv_has i x) \<longleftrightarrow> (\<exists>x\<in>set ?ivs. iv_has i x))"
    unfolding from_lookup_records_def using merge_intervals_has [of "[]" ?ivs i] srt val by simp
  moreover have "(\<exists>x\<in>set ?ivs. iv_has i x) \<longleftrightarrow> (\<exists>r\<in>set rs. blk_map_ref_start r \<le> i \<and> i \<le> blk_map_ref_end r)"
  proof
    assume "\<exists>r\<in>set rs. blk_map_ref_start r \<le> i \<and> i \<le> blk_map_ref_end r"
    then obtain r where r: "r \<in> set rs" "blk_map_ref_start r \<le> i" "i \<le> blk_map_ref_end r" by blast
    then have iv: "reference_interval r = Some \<lparr>iv_start = blk_map_ref_start r, iv_end = blk_map_ref_end r\<rparr>"
      using order_trans [OF r(2,3)] by (simp add: reference_interval_def not_less)
    then show "\<exists>x\<in>set ?ivs. iv_has i x" using r
      by (intro bexI [of _ "\<lparr>iv_start = blk_map_ref_start r, iv_end = blk_map_ref_end r\<rparr>"])
        (auto simp: iv_has_def map_filter_set)
  qed (fastforce simp: map_filter_set reference_interval_def iv_has_def split: if_splits)
  ultimately show ?thesis using index_contains_iff by simp
qed

section \<open>The candidates in their file\<close>

lemma reason_from_to_u8 [simp, codec]: "reason_from_u8 (reason_to_u8 r) = Ok r"
  by (cases r) (simp_all add: reason_from_u8_def reason_to_u8_def)

lemma length_candidate_encode [simp]: "length (candidate_encode c) = 25"
  by (simp add: candidate_encode_def)

lemma candidate_decode_encode [codec]: "candidate_decode (candidate_encode c) = Ok c"
  by (simp add: candidate_decode_def candidate_encode_def RECLAIM_RECORD_SIZE_def byte_at_def del: bind_r_Ok)

interpretation rcd: record_codec candidate_encode candidate_decode 25 "\<lambda>_. True"
  by unfold_locales (simp_all add: candidate_decode_encode)

definition candidates_payload :: "ReclaimCandidate list \<Rightarrow> bytes" where
  "candidates_payload cs = to_le_bytes (of_nat (length cs) :: u64) @ concat (map candidate_encode cs)"

text \<open>The reclaim file holds a list of candidates; an empty payload is the empty list.\<close>

definition reclaim_rep :: "externs \<Rightarrow> 'z lookup_store_scheme \<Rightarrow> ReclaimCandidate list \<Rightarrow> bool" where
  "reclaim_rep E s cs \<longleftrightarrow> (\<exists>h payload. sealed E s Reclaim_File h payload \<and> kind h = KReclaim \<and>
     (payload = candidates_payload cs \<or> payload = [] \<and> cs = [])) \<and> length cs \<le> MAX_MAINTENANCE_METADATA_RECORDS"

lemma load_reclaim_run:
  assumes "reclaim_rep E s cs"
  shows "load_reclaim_candidates E s = (Ok cs, s)"
proof -
  obtain h payload where p: "sealed E s Reclaim_File h payload" "kind h = KReclaim"
    "payload = candidates_payload cs \<or> payload = [] \<and> cs = []" and n: "length cs \<le> MAX_MAINTENANCE_METADATA_RECORDS"
    using assms by (auto simp: reclaim_rep_def)
  have len: "length (concat (map candidate_encode cs)) = 25 * length cs" by (rule rcd.length_concat_enc)
  have "length payload + 96 \<le> MAX_MAINTENANCE_METADATA_BYTES" using p(3) n len
    by (auto simp: candidates_payload_def MAX_MAINTENANCE_METADATA_BYTES_def MAX_MAINTENANCE_METADATA_RECORDS_def
        simp del: length_concat)
  from read_bounded_sealed [OF p(1,2) this] have rd:
    "read_segment_file_bounded E Reclaim_File KReclaim MAX_MAINTENANCE_METADATA_BYTES s = (Ok (h, payload), s)" .
  have n64: "unat (of_nat (length cs) :: u64) = length cs"
    using n by (simp add: unat_of_nat MAX_MAINTENANCE_METADATA_RECORDS_def)
  have "chunks 25 (concat (map candidate_encode cs)) = map candidate_encode cs" by (rule rcd.chunks_enc)
  then show ?thesis using rd p(3) n len n64 rcd.decode_all [of cs]
    by (auto simp: load_reclaim_candidates_def candidates_payload_def RECLAIM_RECORD_SIZE_def
        checked_metadata_record_count_def slice_def list.pred_True simp del: length_concat bind_r_Ok)
qed

lemma persist_candidates_run:
  assumes "length cs \<le> MAX_MAINTENANCE_METADATA_RECORDS"
  shows "\<exists>s'. persist_candidates E cs s = (Ok (), s') \<and> reclaim_rep E s' cs \<and> frame Reclaim_File s s'"
proof -
  have "length (candidates_payload cs) + 96 < 2 ^ 64" using assms rcd.length_concat_enc [of cs]
    by (simp add: candidates_payload_def MAX_MAINTENANCE_METADATA_RECORDS_def del: length_concat)
  then obtain s' where "write_segment_file E Reclaim_File KReclaim 4 (of_nat (length cs)) (candidates_payload cs) s = (Ok (), s')"
    "log_sealed E s' Reclaim_File KReclaim (candidates_payload cs)" "frame Reclaim_File s s'"
    using write_log_sealed by (metis (no_types) surj_pair)
  then show ?thesis using assms
    by (auto simp: persist_candidates_def reclaim_rep_def log_sealed_def simp flip: candidates_payload_def)
qed

lemma load_lookup_run:
  assumes rep: "lk_rep E s log" and hash: "hash_order_ok E"
  shows "\<exists>c. load_lookup_records E s = (Ok (lk_sequence c, lk_records c), lookup_cache_update (\<lambda>_. Some c) s) \<and>
     set (lk_records c) = set (lk_view E log) \<and> lk_rep E (lookup_cache_update (\<lambda>_. Some c) s) log"
proof -
  obtain c payload where f: "lk_ensure_cache_fresh E s = (Ok (), lookup_cache_update (\<lambda>_. Some c) s)"
    "lk_rep E (lookup_cache_update (\<lambda>_. Some c) s) log" "lk_entry_ok E c log payload"
    using lk.fresh_run [OF rep hash] by blast
  have "set (lk_records c) = set (lk_view E log)" using f(3) by (auto simp: lk_entry_ok_def dest: mset_eq_setD)
  then show ?thesis using f by (intro exI [of _ c]) (simp add: load_lookup_records_def lk_cache_entry_def)
qed

definition referenced :: "MapLookupRecord list \<Rightarrow> u64 \<Rightarrow> bool" where
  "referenced ls i \<longleftrightarrow> (\<exists>l\<in>set ls. blk_map_ref_start l \<le> i \<and> i \<le> blk_map_ref_end l)"

lemma index_contains_referenced: "set ls = set ls' \<Longrightarrow> index_contains (from_lookup_records ls) i = referenced ls' i"
  by (simp add: reference_index_iff referenced_def)

lemma lookup_frame_reclaim: "frame Reclaim_File s s' \<Longrightarrow> lk_rep E s' log = lk_rep E s log"
  using lk.rep_local [of s' s E log] by (auto simp: frame_def others_same_def dest: segment_more_lookup)

lemma refresh_run:
  assumes rep: "lk_rep E s log" "reclaim_rep E s cs" and hash: "hash_order_ok E"
  shows "\<exists>s'. refresh_reclaim_safety E s =
       (Ok (length (filter (\<lambda>c. safe_to_reclaim c = referenced (lk_view E log) (blk_map_record_id c)) cs)), s') \<and>
     reclaim_rep E s' (map (\<lambda>c. c\<lparr>safe_to_reclaim := \<not> referenced (lk_view E log) (blk_map_record_id c)\<rparr>) cs) \<and>
     lk_rep E s' log"
proof -
  let ?cs = "map (\<lambda>c. c\<lparr>safe_to_reclaim := \<not> referenced (lk_view E log) (blk_map_record_id c)\<rparr>) cs"
  obtain c where l: "load_lookup_records E s = (Ok (lk_sequence c, lk_records c), lookup_cache_update (\<lambda>_. Some c) s)"
    "set (lk_records c) = set (lk_view E log)" "lk_rep E (lookup_cache_update (\<lambda>_. Some c) s) log"
    using load_lookup_run [OF rep(1) hash] by blast
  let ?s1 = "lookup_cache_update (\<lambda>_. Some c) s"
  have "reclaim_rep E ?s1 cs" using rep(2) by (simp add: reclaim_rep_def sealed_def shaped_def)
  from load_reclaim_run [OF this] have ld: "load_reclaim_candidates E ?s1 = (Ok cs, ?s1)" .
  have ic: "index_contains (from_lookup_records (lk_records c)) i = referenced (lk_view E log) i" for i
    by (rule index_contains_referenced [OF l(2)])
  have "length ?cs \<le> MAX_MAINTENANCE_METADATA_RECORDS" using rep(2) by (simp add: reclaim_rep_def)
  from persist_candidates_run [OF this, of E ?s1] obtain s2 where s2: "persist_candidates E ?cs ?s1 = (Ok (), s2)"
    "reclaim_rep E s2 ?cs" "frame Reclaim_File ?s1 s2" by blast
  have "refresh_reclaim_safety E s =
      (Ok (length (filter (\<lambda>c. safe_to_reclaim c = referenced (lk_view E log) (blk_map_record_id c)) cs)), s2)"
    using l(1) ld s2(1) by (simp add: refresh_reclaim_safety_def refresh_candidate_def [abs_def] ic Let_def)
  then show ?thesis using s2 lookup_frame_reclaim [OF s2(3)] l(3) by blast
qed

text \<open>The candidates stay one per record, and a batch decides the safety of the records it names.\<close>

lemma upsert_candidate_spec:
  assumes "distinct (map blk_map_record_id cs)" "upsert_candidate i why ref cs = (c, cs')"
  shows "distinct (map blk_map_record_id cs')" "c \<in> set cs'" "blk_map_record_id c = i" "reason c = why"
    "safe_to_reclaim c = (\<not> ref)" "length cs' \<le> Suc (length cs)"
    "{x \<in> set cs'. blk_map_record_id x \<noteq> i} = {x \<in> set cs. blk_map_record_id x \<noteq> i}"
proof -
  have "distinct (map blk_map_record_id cs') \<and> c \<in> set cs' \<and> blk_map_record_id c = i \<and> reason c = why \<and>
    safe_to_reclaim c = (\<not> ref) \<and> length cs' \<le> Suc (length cs) \<and>
    {x \<in> set cs'. blk_map_record_id x \<noteq> i} = {x \<in> set cs. blk_map_record_id x \<noteq> i}"
  proof (cases "position (\<lambda>c. blk_map_record_id c = i) cs")
    case None
    then have "i \<notin> blk_map_record_id ` set cs" by (auto simp: position_None)
    then show ?thesis using assms None by (auto simp: upsert_candidate_def Let_def)
  next
    case (Some k)
    then have k: "k < length cs" "blk_map_record_id (cs ! k) = i" by (auto simp: position_Some)
    have c: "c = (cs ! k)\<lparr>reason := why, safe_to_reclaim := \<not> ref\<rparr>" "cs' = cs[k := c]"
      using assms(2) Some by (auto simp: upsert_candidate_def Let_def)
    have ids: "map blk_map_record_id cs' = map blk_map_record_id cs"
      using k c by (simp add: map_update list_update_same_conv)
    have "{x \<in> set cs'. blk_map_record_id x \<noteq> i} = {x \<in> set cs. blk_map_record_id x \<noteq> i}"
      unfolding c(2) using k c(1) by (auto simp: in_set_conv_nth nth_list_update split: if_splits)
    then show ?thesis using assms(1) ids c k by (simp add: set_update_memI)
  qed
  then show "distinct (map blk_map_record_id cs')" "c \<in> set cs'" "blk_map_record_id c = i" "reason c = why"
    "safe_to_reclaim c = (\<not> ref)" "length cs' \<le> Suc (length cs)"
    "{x \<in> set cs'. blk_map_record_id x \<noteq> i} = {x \<in> set cs. blk_map_record_id x \<noteq> i}" by blast+
qed

definition decided :: "MapLookupRecord list \<Rightarrow> ReclaimReason \<Rightarrow> u64 \<Rightarrow> ReclaimCandidate \<Rightarrow> bool" where
  "decided ls why i c \<longleftrightarrow> blk_map_record_id c = i \<and> reason c = why \<and> safe_to_reclaim c = (\<not> referenced ls i)"

lemma upsert_candidates_spec:
  assumes "distinct (map blk_map_record_id cs)" "upsert_candidates refs why ids cs = (ups, cs')"
    and "\<And>i. index_contains refs i = referenced ls i"
  shows "distinct (map blk_map_record_id cs') \<and> length cs' \<le> length cs + length ids \<and>
     (\<forall>i\<in>set ids. \<exists>c\<in>set cs'. decided ls why i c) \<and>
     {x \<in> set cs'. blk_map_record_id x \<notin> set ids} = {x \<in> set cs. blk_map_record_id x \<notin> set ids}"
  using assms
proof (induction ids arbitrary: cs ups)
  case (Cons i ids)
  obtain c cs1 where u: "upsert_candidate i why (index_contains refs i) cs = (c, cs1)" by fastforce
  obtain ups' where r: "upsert_candidates refs why ids cs1 = (ups', cs')"
    using Cons.prems(2) u by (auto split: prod.splits)
  note s = upsert_candidate_spec [OF Cons.prems(1) u]
  have IH: "distinct (map blk_map_record_id cs') \<and> length cs' \<le> length cs1 + length ids \<and>
     (\<forall>i\<in>set ids. \<exists>c\<in>set cs'. decided ls why i c) \<and>
     {x \<in> set cs'. blk_map_record_id x \<notin> set ids} = {x \<in> set cs1. blk_map_record_id x \<notin> set ids}"
    by (rule Cons.IH [OF s(1) r Cons.prems(3)])
  have c: "decided ls why i c" using s Cons.prems(3) by (simp add: decided_def)
  have "\<exists>x\<in>set cs'. decided ls why i x"
  proof (cases "i \<in> set ids")
    case True
    then show ?thesis using IH by blast
  next
    case False
    then have "c \<in> {x \<in> set cs1. blk_map_record_id x \<notin> set ids}" using s by simp
    then show ?thesis using IH c by blast
  qed
  moreover have "{x \<in> set cs'. blk_map_record_id x \<notin> set (i # ids)} = {x \<in> set cs. blk_map_record_id x \<notin> set (i # ids)}"
    using IH s(7) by (auto simp: set_eq_iff)
  ultimately show ?case using IH s(6) by auto
qed auto

section \<open>Properties\<close>

text \<open>
  C26: The sorted and merged intervals answer every membership query as the
  plain scan over the lookup entries would.
\<close>

theorem reference_index_equivalent:
  "index_contains (from_lookup_records rs) i \<longleftrightarrow> (\<exists>r\<in>set rs. blk_map_ref_start r \<le> i \<and> i \<le> blk_map_ref_end r)"
  by (rule reference_index_iff)

text \<open>
  C27: Refreshing marks a candidate as safe exactly when no entry of the lookup
  table refers to its record, and reports the number of candidates it changed.
\<close>

theorem refresh_safety_exact:
  assumes "lk_rep E s log" "reclaim_rep E s cs" "hash_order_ok E"
  shows "\<exists>s'. refresh_reclaim_safety E s =
       (Ok (length (filter (\<lambda>c. safe_to_reclaim c = referenced (lk_view E log) (blk_map_record_id c)) cs)), s') \<and>
     load_reclaim_candidates E s' =
       (Ok (map (\<lambda>c. c\<lparr>safe_to_reclaim := \<not> referenced (lk_view E log) (blk_map_record_id c)\<rparr>) cs), s') \<and>
     lk_rep E s' log"
  using refresh_run [OF assms] load_reclaim_run by blast

definition sample_candidate :: "u64 \<Rightarrow> bool \<Rightarrow> ReclaimCandidate" where
  "sample_candidate i safe = \<lparr>candidate_id = i, blk_map_record_id = i, reason = Superseded, safe_to_reclaim = safe\<rparr>"

definition sample_reclaim_store :: lookup_store where
  "sample_reclaim_store =
     \<lparr>files = (\<lambda>_. None)(
        Lookup_File := Some (segment_headers plain_externs
          (header_new plain_externs KLookup 3 1 (log_payload LK_LOG_PREFIX lk_encode [lookup_of 1 (sample_blk 4 0 10)])) @
          log_payload LK_LOG_PREFIX lk_encode [lookup_of 1 (sample_blk 4 0 10)]),
        Reclaim_File := Some (segment_headers plain_externs
          (header_new plain_externs KReclaim 4 2 (candidates_payload [sample_candidate 3 False, sample_candidate 4 True])) @
          candidates_payload [sample_candidate 3 False, sample_candidate 4 True])),
      append_file_cache = (\<lambda>_. None), blk_map_cache = None, lookup_cache = None\<rparr>"

lemma sample_reclaim_reps:
  "lk_rep plain_externs sample_reclaim_store [lookup_of 1 (sample_blk 4 0 10)]"
  "reclaim_rep plain_externs sample_reclaim_store [sample_candidate 3 False, sample_candidate 4 True]"
proof -
  show "lk_rep plain_externs sample_reclaim_store [lookup_of 1 (sample_blk 4 0 10)]"
    using lk.rep_any_file [of sample_reclaim_store plain_externs 3 1 "[lookup_of 1 (sample_blk 4 0 10)]"]
    by (simp add: table_rep_def sample_reclaim_store_def MAX_MAINTENANCE_METADATA_RECORDS_def)
  let ?p = "candidates_payload [sample_candidate 3 False, sample_candidate 4 True]"
  have "sealed plain_externs sample_reclaim_store Reclaim_File (header_new plain_externs KReclaim 4 2 ?p) ?p"
    by (rule sealed_header_new) (simp_all add: sample_reclaim_store_def candidates_payload_def)
  then show "reclaim_rep plain_externs sample_reclaim_store [sample_candidate 3 False, sample_candidate 4 True]"
    unfolding reclaim_rep_def
    by (intro conjI exI [of _ "header_new plain_externs KReclaim 4 2 ?p"] exI [of _ ?p])
      (simp_all add: MAX_MAINTENANCE_METADATA_RECORDS_def)
qed

lemma sample_reclaim_view: "lk_view plain_externs [l] = [l]"
  by (simp add: lk_view_def latest_values_def latest_by_def hash_values_def plain_externs_def)

theorem refresh_safety_exact_witness:
  "\<exists>s'. refresh_reclaim_safety plain_externs sample_reclaim_store = (Ok 2, s') \<and>
     load_reclaim_candidates plain_externs s' = (Ok [sample_candidate 3 True, sample_candidate 4 False], s')"
  using refresh_safety_exact [OF sample_reclaim_reps plain_externs_ok(7)]
  by (auto simp: sample_reclaim_view referenced_def sample_candidate_def)

text \<open>
  C28: A batch of superseded records leaves one candidate per record: every
  record named in the batch has a candidate with the given reason that is safe
  exactly when the lookup table does not refer to the record, and the
  candidates of other records stay as they were.
\<close>

theorem upsert_candidates_decided:
  assumes "lk_rep E s log" "reclaim_rep E s cs" "hash_order_ok E" "distinct (map blk_map_record_id cs)"
    and "ids \<noteq> []" "length cs + length ids \<le> MAX_MAINTENANCE_METADATA_RECORDS"
  shows "\<exists>ups cs' s'. upsert_reclaim_candidates E ids why s = (Ok ups, s') \<and> reclaim_rep E s' cs' \<and>
     distinct (map blk_map_record_id cs') \<and> (\<forall>i\<in>set ids. \<exists>c\<in>set cs'. decided (lk_view E log) why i c) \<and>
     {x \<in> set cs'. blk_map_record_id x \<notin> set ids} = {x \<in> set cs. blk_map_record_id x \<notin> set ids}"
proof -
  obtain c where l: "load_lookup_records E s = (Ok (lk_sequence c, lk_records c), lookup_cache_update (\<lambda>_. Some c) s)"
    "set (lk_records c) = set (lk_view E log)"
    using load_lookup_run [OF assms(1,3)] by blast
  let ?s1 = "lookup_cache_update (\<lambda>_. Some c) s"
  have "reclaim_rep E ?s1 cs" using assms(2) by (simp add: reclaim_rep_def sealed_def shaped_def)
  from load_reclaim_run [OF this] have ld: "load_reclaim_candidates E ?s1 = (Ok cs, ?s1)" .
  obtain ups cs' where u: "upsert_candidates (from_lookup_records (lk_records c)) why ids cs = (ups, cs')" by fastforce
  note spec = upsert_candidates_spec [OF assms(4) u index_contains_referenced [OF l(2)]]
  have "length cs' \<le> MAX_MAINTENANCE_METADATA_RECORDS" using spec assms(6) by linarith
  from persist_candidates_run [OF this, of E ?s1] obtain s2 where "persist_candidates E cs' ?s1 = (Ok (), s2)"
    "reclaim_rep E s2 cs'" by blast
  moreover from this have "upsert_reclaim_candidates E ids why s = (Ok ups, s2)"
    using l(1) ld u assms(5) by (simp add: upsert_reclaim_candidates_def)
  ultimately show ?thesis using spec by blast
qed

theorem upsert_candidates_decided_witness:
  "\<exists>ups cs' s'. upsert_reclaim_candidates plain_externs [4, 9] Truncated sample_reclaim_store = (Ok ups, s') \<and>
     reclaim_rep plain_externs s' cs' \<and> (\<exists>c\<in>set cs'. blk_map_record_id c = 9 \<and> safe_to_reclaim c)"
proof -
  have "distinct (map blk_map_record_id [sample_candidate 3 False, sample_candidate 4 True])"
    by (simp add: sample_candidate_def)
  from upsert_candidates_decided [OF sample_reclaim_reps plain_externs_ok(7) this, of "[4, 9]" Truncated]
  obtain ups cs' s' where "upsert_reclaim_candidates plain_externs [4, 9] Truncated sample_reclaim_store = (Ok ups, s')"
    "reclaim_rep plain_externs s' cs'" "\<forall>i\<in>set [4, 9]. \<exists>c\<in>set cs'. decided [lookup_of 1 (sample_blk 4 0 10)] Truncated i c"
    by (auto simp: MAX_MAINTENANCE_METADATA_RECORDS_def sample_reclaim_view)
  moreover from this(3) have "\<exists>c\<in>set cs'. decided [lookup_of 1 (sample_blk 4 0 10)] Truncated 9 c" by simp
  ultimately show ?thesis by (fastforce simp: decided_def referenced_def)
qed

end
