(* ===== verification/Data_Blob.thy ===== *)
theory Data_Blob
  imports Segment_Index Reclaim
begin

text \<open>
  Blobs in data segments (the lower half of \<^verbatim>\<open>storage/data_path.rs\<close>): the
  blob record, the scan of a segment that rebuilds the index of its blobs, the
  cached index per segment, appending a blob through the segment index, and
  loading a blob with its integrity check.  A cached read handle is the named
  file: the code drops the handle whenever it replaces the file.
\<close>

definition DATA_BLOB_HEADER_SIZE :: nat where "DATA_BLOB_HEADER_SIZE = 24"

text \<open>The ASCII prefix \<^verbatim>\<open>DTV2\<close>.\<close>

definition DATA_LOG_PREFIX :: bytes where "DATA_LOG_PREFIX = [0x44, 0x54, 0x56, 0x32]"

record DataBlob =
  db_blob_id :: u64
  db_codec :: CompressionCodec
  db_logical_len :: u32
  db_stored_len :: u32
  db_payload_checksum :: u32
  db_bytes :: bytes

record DataBlobMeta =
  mt_blob_id :: u64
  mt_codec :: CompressionCodec
  mt_logical_len :: u32
  mt_stored_len :: u32
  mt_payload_checksum :: u32
  mt_payload_offset :: u64
  mt_v2_integrity :: bool

record CachedDataIndex =
  dc_stamp :: bytes
  dc_sequence :: u64
  dc_blobs :: "DataBlobMeta list"
  dc_is_log_format :: bool

text \<open>
  The storage of a layout with the remaining caches: the blob index per
  segment, the checkpoint, and the number of writes since the last flush.
\<close>

record data_store = index_store +
  data_cache :: "layout_file \<Rightarrow> CachedDataIndex option"
  checkpoint_cache :: "MetadataCheckpoint option"
  pending_sync_writes :: "u32 option"

section \<open>Blob records\<close>

definition encode_data_blob_header :: "u64 \<Rightarrow> CompressionCodec \<Rightarrow> u32 \<Rightarrow> u32 \<Rightarrow> u32 \<Rightarrow> bytes" where
  "encode_data_blob_header i codec logical stored cks =
     to_le_bytes i @ [codec_to_u8 codec, 0, 0, 0] @ to_le_bytes logical @ to_le_bytes stored @
     to_le_bytes cks"

definition encode_data_blob_record ::
  "u64 \<Rightarrow> CompressionCodec \<Rightarrow> u32 \<Rightarrow> u32 \<Rightarrow> u32 \<Rightarrow> bytes \<Rightarrow> bytes" where
  "encode_data_blob_record i codec logical stored cks b =
     encode_data_blob_header i codec logical stored cks @ b"

definition blob_encode :: "DataBlob \<Rightarrow> bytes" where
  "blob_encode b =
     encode_data_blob_record (db_blob_id b) (db_codec b) (db_logical_len b) (db_stored_len b)
       (db_payload_checksum b) (db_bytes b)"

definition blob_integrity_checksum :: "externs \<Rightarrow> u64 \<Rightarrow> u32 \<Rightarrow> bytes \<Rightarrow> u32" where
  "blob_integrity_checksum E i logical b = integrity32 E (to_le_bytes i @ to_le_bytes logical @ b)"

definition decode_blob_meta_from_header :: "bytes \<Rightarrow> (StorageError, DataBlobMeta) result" where
  "decode_blob_meta_from_header buf =
     bind_r (codec_from_u8 (byte_at 8 buf)) (\<lambda>codec.
     Ok \<lparr>mt_blob_id = from_le_bytes (slice 0 8 buf), mt_codec = codec,
         mt_logical_len = from_le_bytes (slice 12 4 buf),
         mt_stored_len = from_le_bytes (slice 16 4 buf),
         mt_payload_checksum = from_le_bytes (slice 20 4 buf),
         mt_payload_offset = 0, mt_v2_integrity = False\<rparr>)"

text \<open>Reading an exact number of bytes at an offset of a file.\<close>

definition read_exact_at :: "bytes \<Rightarrow> nat \<Rightarrow> nat \<Rightarrow> (StorageError, bytes) result" where
  "read_exact_at buf off n =
     (if n = 0 then Ok []
      else if off + n \<le> length buf then Ok (slice off n buf) else Err (Io IoUnexpectedEof))"

definition checked_blob_next_offset :: "u64 \<Rightarrow> u32 \<Rightarrow> u64 \<Rightarrow> (StorageError, u64) result" where
  "checked_blob_next_offset off stored payload_end =
     bind_r (ok_or (checked_add (of_nat DATA_BLOB_HEADER_SIZE) (ucast stored))
       (Corrupt ''data blob length overflow'')) (\<lambda>blob_len.
     bind_r (ok_or (checked_add off blob_len) (Corrupt ''data blob offset overflow'')) (\<lambda>next_offset.
     if payload_end < next_offset then Err (Corrupt ''data blob exceeds segment payload'')
     else Ok next_offset))"

section \<open>Scanning a segment\<close>

text \<open>The header at an offset, completed by where its payload starts.\<close>

definition read_blob_meta :: "bytes \<Rightarrow> u16 \<Rightarrow> u64 \<Rightarrow> (StorageError, DataBlobMeta) result" where
  "read_blob_meta buf header_version off =
     bind_r (read_exact_at buf (unat off) DATA_BLOB_HEADER_SIZE) (\<lambda>header_buf.
     bind_r (decode_blob_meta_from_header header_buf) (\<lambda>meta.
     Ok (meta\<lparr>mt_payload_offset := off + of_nat DATA_BLOB_HEADER_SIZE,
              mt_v2_integrity := (header_version = STORAGE_LAYOUT_VERSION)\<rparr>)))"

lemma bind_r_cong [fundef_cong]:
  "r = r' \<Longrightarrow> (\<And>a. r' = Inr a \<Longrightarrow> f a = f' a) \<Longrightarrow> bind_r r f = bind_r r' f'"
  by (cases r') auto

lemma checked_blob_next_offset_Ok:
  "checked_blob_next_offset off stored payload_end = Ok n \<longleftrightarrow>
     unat n = unat off + 24 + unat stored \<and> unat n \<le> unat payload_end"
proof -
  have "unat (ucast stored :: u64) < 2 ^ 32" using unat_bound [of stored] by simp
  then have small: "unat (24 :: u64) + unat (ucast stored :: u64) < 2 ^ LENGTH(64)" by simp
  then have len: "checked_add (of_nat DATA_BLOB_HEADER_SIZE) (ucast stored) = Some (24 + ucast stored :: u64)"
    by (simp add: checked_add_def DATA_BLOB_HEADER_SIZE_def)
  have u: "unat (24 + ucast stored :: u64) = 24 + unat stored"
    using small by (simp add: unat_add_lem [THEN iffD1])
  show ?thesis
  proof (cases "checked_add off (24 + ucast stored)")
    case None
    then have "2 ^ 64 \<le> unat off + (24 + unat stored)" using u by (simp add: checked_add_None)
    moreover have "unat n < 2 ^ 64" using unat_bound [of n] by simp
    ultimately show ?thesis using None by (simp add: checked_blob_next_offset_def len)
  next
    case (Some x)
    then have x: "unat x = unat off + 24 + unat stored" using u by (simp add: checked_add_Some)
    then have "x = n \<longleftrightarrow> unat n = unat off + 24 + unat stored" by (auto simp: word_unat_eq_iff)
    then show ?thesis
      using Some x by (auto simp: checked_blob_next_offset_def len word_less_nat_alt not_less)
  qed
qed

text \<open>
  The scan of a log segment goes from record to record until the end of the
  payload; every record advances the offset, so it ends on any file content.
\<close>

function scan_log_data_index ::
  "bytes \<Rightarrow> u16 \<Rightarrow> u64 \<Rightarrow> u64 \<Rightarrow> (StorageError, DataBlobMeta list) result" where
  "scan_log_data_index buf header_version payload_end off =
     (if off < payload_end then
        if (case checked_add off (of_nat DATA_BLOB_HEADER_SIZE) of
              None \<Rightarrow> True | Some header_end \<Rightarrow> payload_end < header_end)
        then Err (Corrupt ''data blob header exceeds segment payload'')
        else
          bind_r (read_blob_meta buf header_version off) (\<lambda>meta.
          bind_r (checked_blob_next_offset off (mt_stored_len meta) payload_end) (\<lambda>next_offset.
          bind_r (scan_log_data_index buf header_version payload_end next_offset) (\<lambda>rest.
          Ok (meta # rest))))
      else Ok [])"
  by pat_completeness auto

termination
  by (relation "measure (\<lambda>(buf, v, payload_end, off). unat payload_end - unat off)")
    (auto simp: checked_blob_next_offset_Ok)

declare scan_log_data_index.simps [simp del]

text \<open>
  The same scan as the loop that collects the records in a vector, with a
  budget of iterations that may run out.
\<close>

primrec scan_log_loop ::
  "nat \<Rightarrow> bytes \<Rightarrow> u16 \<Rightarrow> u64 \<Rightarrow> u64 \<Rightarrow> DataBlobMeta list \<Rightarrow> (StorageError, DataBlobMeta list) result option" where
  "scan_log_loop 0 buf header_version payload_end off blobs = None"
| "scan_log_loop (Suc fuel) buf header_version payload_end off blobs =
     (if off < payload_end then
        if (case checked_add off (of_nat DATA_BLOB_HEADER_SIZE) of
              None \<Rightarrow> True | Some header_end \<Rightarrow> payload_end < header_end)
        then Some (Err (Corrupt ''data blob header exceeds segment payload''))
        else
          (case read_blob_meta buf header_version off of
             Inl e \<Rightarrow> Some (Err e)
           | Inr meta \<Rightarrow>
               (case checked_blob_next_offset off (mt_stored_len meta) payload_end of
                  Inl e \<Rightarrow> Some (Err e)
                | Inr next_offset \<Rightarrow>
                    scan_log_loop fuel buf header_version payload_end next_offset (blobs @ [meta])))
      else Some (Ok blobs))"

primrec scan_legacy_blobs ::
  "nat \<Rightarrow> bytes \<Rightarrow> u16 \<Rightarrow> u64 \<Rightarrow> u64 \<Rightarrow> (StorageError, DataBlobMeta list) result" where
  "scan_legacy_blobs 0 buf header_version payload_end off = Ok []"
| "scan_legacy_blobs (Suc n) buf header_version payload_end off =
     bind_r (read_blob_meta buf header_version off) (\<lambda>meta.
     bind_r (checked_blob_next_offset off (mt_stored_len meta) payload_end) (\<lambda>next_offset.
     bind_r (scan_legacy_blobs n buf header_version payload_end next_offset) (\<lambda>rest.
     Ok (meta # rest))))"

definition scan_legacy_data_index ::
  "bytes \<Rightarrow> u16 \<Rightarrow> u64 \<Rightarrow> u64 \<Rightarrow> (StorageError, DataBlobMeta list) result" where
  "scan_legacy_data_index buf header_version payload_offset plen =
     bind_r (guard (8 \<le> plen) (Corrupt ''data payload too short'')) (\<lambda>_.
     bind_r (read_exact_at buf (unat payload_offset) 8) (\<lambda>count_buf.
     let n = unat (from_le_bytes count_buf :: u64) in
     bind_r (guard (n \<le> unat (plen - 8) div DATA_BLOB_HEADER_SIZE)
       (Corrupt ''legacy data blob count exceeds segment payload'')) (\<lambda>_.
     scan_legacy_blobs n buf header_version (payload_offset + plen) (payload_offset + 8))))"

definition scan_data_index ::
  "bytes \<Rightarrow> u16 \<Rightarrow> u64 \<Rightarrow> (StorageError, DataBlobMeta list \<times> bool) result" where
  "scan_data_index buf header_version plen =
     (let payload_offset = (if header_version = STORAGE_LAYOUT_VERSION
                            then of_nat SEGMENT_HEADER_V2_TOTAL_SIZE else of_nat SEGMENT_HEADER_SIZE) in
      bind_r (read_exact_at buf (unat payload_offset) 4) (\<lambda>pre.
      if pre = DATA_LOG_PREFIX then
        bind_r (scan_log_data_index buf header_version (payload_offset + plen)
          (payload_offset + 4)) (\<lambda>blobs. Ok (blobs, True))
      else
        bind_r (scan_legacy_data_index buf header_version payload_offset plen) (\<lambda>blobs.
        Ok (blobs, False))))"

section \<open>The cached blob index\<close>

definition set_data_cache ::
  "layout_file \<Rightarrow> CachedDataIndex option \<Rightarrow> ('z data_store_scheme, 'e, unit) stm" where
  "set_data_cache f c = modify_s (data_cache_update (\<lambda>m. m(f := c)))"

definition data_cache_entry ::
  "layout_file \<Rightarrow> ('z data_store_scheme, StorageError, CachedDataIndex) stm" where
  "data_cache_entry f s =
     (ok_or (data_cache s f) (NotFound ''data cache not initialized''), s)"

definition file_stamp :: "layout_file \<Rightarrow> ('z data_store_scheme, StorageError, bytes) stm" where
  "file_stamp f s = (ok_or (files s f) (Io IoNotFound), s)"

definition ensure_data_cache_fresh ::
  "externs \<Rightarrow> layout_file \<Rightarrow> ('z data_store_scheme, StorageError, unit) stm" where
  "ensure_data_cache_fresh E f s =
     (if trust_hot_cache E \<and> data_cache s f \<noteq> None then (Ok (), s)
      else
        bind_s (file_stamp f) (\<lambda>stamp s.
        if map_option dc_stamp (data_cache s f) = Some stamp then (Ok (), s)
        else
          bind_s (read_segment_header E f KData) (\<lambda>h.
          bind_s (if payload_len h = 0 then ret_s ([], True)
                  else lift_s (scan_data_index stamp (version h) (payload_len h))) (\<lambda>(blobs, is_log).
          set_data_cache f (Some \<lparr>dc_stamp = stamp, dc_sequence = sequence h, dc_blobs = blobs,
            dc_is_log_format = is_log\<rparr>))) s) s)"

definition update_data_cache ::
  "layout_file \<Rightarrow> u64 \<Rightarrow> DataBlobMeta list \<Rightarrow> ('z data_store_scheme, StorageError, unit) stm" where
  "update_data_cache f sq blobs =
     bind_s (file_stamp f) (\<lambda>stamp.
     set_data_cache f (Some \<lparr>dc_stamp = stamp, dc_sequence = sq, dc_blobs = blobs,
       dc_is_log_format = True\<rparr>))"

section \<open>Loading a blob\<close>

definition find_blob_meta :: "u64 \<Rightarrow> DataBlobMeta list \<Rightarrow> DataBlobMeta option" where
  "find_blob_meta i blobs =
     (case binary_search_by_key mt_blob_id i blobs of Inr k \<Rightarrow> Some (blobs ! k) | Inl _ \<Rightarrow> None)"

definition load_blob_by_id ::
  "externs \<Rightarrow> layout_file \<Rightarrow> u64 \<Rightarrow> ('z data_store_scheme, StorageError, DataBlob) stm" where
  "load_blob_by_id E f i =
     bind_s (ensure_data_cache_fresh E f) (\<lambda>_.
     bind_s (data_cache_entry f) (\<lambda>c.
     bind_s (lift_s (ok_or (find_blob_meta i (dc_blobs c)) (NotFound ''data blob not found''))) (\<lambda>meta.
     bind_s (file_stamp f) (\<lambda>buf.
     bind_s (lift_s (read_exact_at buf (unat (mt_payload_offset meta)) (unat (mt_stored_len meta)))) (\<lambda>b.
     if mt_v2_integrity meta \<and>
        mt_payload_checksum meta \<noteq> blob_integrity_checksum E (mt_blob_id meta) (mt_logical_len meta) b
     then err_s (Corrupt ''data blob integrity checksum mismatch'')
     else ret_s \<lparr>db_blob_id = mt_blob_id meta, db_codec = mt_codec meta,
                 db_logical_len = mt_logical_len meta, db_stored_len = mt_stored_len meta,
                 db_payload_checksum = mt_payload_checksum meta, db_bytes = b\<rparr>)))))"

definition next_blob_id :: "SegmentIndex \<Rightarrow> (StorageError, u64) result" where
  "next_blob_id idx =
     ok_or (checked_add (foldl max 0 (map last_blob_id (descriptors idx))) 1)
       (Conflict ''data blob ID space is exhausted'')"

text \<open>Segment 1 is also the name old layouts gave their first segment, number 0.\<close>

definition load_blob_legacy ::
  "externs \<Rightarrow> SegmentIndex \<Rightarrow> u64 \<Rightarrow> ('z data_store_scheme, StorageError, DataBlob) stm" where
  "load_blob_legacy E idx i =
     (case descriptors idx of
        [] \<Rightarrow> err_s (NotFound ''data segment descriptor not found'')
      | d # _ \<Rightarrow>
          if segment_seq d \<noteq> 0 then err_s (NotFound ''legacy data segment descriptor not found'')
          else load_blob_by_id E (Data_Segment (segment_seq d)) i)"

definition load_blob_by_location ::
  "externs \<Rightarrow> u64 \<Rightarrow> u64 \<Rightarrow> ('z data_store_scheme, StorageError, DataBlob) stm" where
  "load_blob_by_location E sid i =
     bind_s (load_segment_index_for_append E) (\<lambda>idx s.
     case descriptor_for_segment idx sid of
       Some d \<Rightarrow>
         (case load_blob_by_id E (Data_Segment (segment_seq d)) i s of
            (Inr b, s') \<Rightarrow> (Ok b, s')
          | (Inl e, s') \<Rightarrow> if sid \<noteq> 1 then (Err e, s') else load_blob_legacy E idx i s')
     | None \<Rightarrow>
         if sid \<noteq> 1 then (Err (NotFound ''data segment descriptor not found''), s)
         else load_blob_legacy E idx i s)"

fun find_blob_segment ::
  "externs \<Rightarrow> u64 \<Rightarrow> SegmentDescriptor list \<Rightarrow> ('z data_store_scheme, StorageError, u64) stm" where
  "find_blob_segment E i [] s = (Err (NotFound ''data blob segment not found''), s)"
| "find_blob_segment E i (d # ds) s =
     (case load_blob_by_id E (Data_Segment (segment_seq d)) i s of
        (Inr _, s') \<Rightarrow> (Ok (ucast (segment_seq d)), s')
      | (Inl _, s') \<Rightarrow> find_blob_segment E i ds s')"

definition locate_blob_segment_id :: "externs \<Rightarrow> u64 \<Rightarrow> ('z data_store_scheme, StorageError, u64) stm" where
  "locate_blob_segment_id E i =
     bind_s (load_segment_index E) (\<lambda>idx.
     case descriptor_for_blob idx i of
       Some d \<Rightarrow> ret_s (ucast (segment_seq d))
     | None \<Rightarrow> find_blob_segment E i (descriptors idx))"

section \<open>Appending a blob\<close>

definition checked_u32_len :: "nat \<Rightarrow> string \<Rightarrow> (StorageError, u32) result" where
  "checked_u32_len n what = ok_or (try_from_nat n) (Conflict (what @ '' exceeds u32::MAX''))"

definition relog_blob :: "externs \<Rightarrow> bytes \<Rightarrow> DataBlobMeta \<Rightarrow> (StorageError, bytes) result" where
  "relog_blob E buf m =
     bind_r (read_exact_at buf (unat (mt_payload_offset m)) (unat (mt_stored_len m))) (\<lambda>b.
     Ok (blob_encode \<lparr>db_blob_id = mt_blob_id m, db_codec = mt_codec m,
           db_logical_len = mt_logical_len m, db_stored_len = mt_stored_len m,
           db_payload_checksum = blob_integrity_checksum E (mt_blob_id m) (mt_logical_len m) b,
           db_bytes = b\<rparr>))"

definition persist_data_blobs_as_log ::
  "externs \<Rightarrow> layout_file \<Rightarrow> DataBlobMeta list \<Rightarrow> ('z data_store_scheme, StorageError, unit) stm" where
  "persist_data_blobs_as_log E f blobs =
     bind_s (file_stamp f) (\<lambda>buf.
     bind_s (lift_s (traverse (relog_blob E buf) blobs)) (\<lambda>records.
     bind_s (write_segment_file E f KData 1 (of_nat (length blobs)) (DATA_LOG_PREFIX @ concat records)) (\<lambda>_.
     update_data_cache f (of_nat (length blobs)) blobs)))"

definition push_blob_meta ::
  "externs \<Rightarrow> layout_file \<Rightarrow> SegmentHeader \<Rightarrow> DataBlobMeta \<Rightarrow> ('z data_store_scheme, StorageError, unit) stm" where
  "push_blob_meta E f h m =
     bind_s (data_cache_entry f) (\<lambda>c.
     bind_s (if trust_hot_cache E then ret_s (dc_stamp c) else file_stamp f) (\<lambda>stamp.
     set_data_cache f (Some \<lparr>dc_stamp = stamp, dc_sequence = sequence h,
       dc_blobs = dc_blobs c @ [m], dc_is_log_format = True\<rparr>)))"

definition append_data_blob ::
  "externs \<Rightarrow> CompressionCodec \<Rightarrow> u32 \<Rightarrow> bytes \<Rightarrow> bool \<Rightarrow>
   ('z data_store_scheme, StorageError, u64 \<times> u64) stm" where
  "append_data_blob E codec logical encoded checksum_enabled =
     bind_s (load_segment_index_for_append E) (\<lambda>idx0.
     bind_s (prepare_active_segment_for_append E idx0 (DATA_BLOB_HEADER_SIZE + length encoded)
       (length DATA_LOG_PREFIX)) (\<lambda>(sq, idx).
     let f = Data_Segment sq in
     bind_s (ensure_data_cache_fresh E f) (\<lambda>_.
     bind_s (lift_s (next_blob_id idx)) (\<lambda>i.
     bind_s (data_cache_entry f) (\<lambda>c.
     bind_s (if dc_is_log_format c then ret_s ()
             else bind_s (persist_data_blobs_as_log E f (dc_blobs c)) (\<lambda>_. ensure_data_cache_fresh E f)) (\<lambda>_.
     bind_s (lift_s (checked_u32_len (length encoded) ''encoded payload length'')) (\<lambda>stored.
     let cks = blob_integrity_checksum E i logical encoded in
     bind_s (append_segment_payload_parts E f KData 1 DATA_LOG_PREFIX
       [encode_data_blob_header i codec logical stored cks, encoded] checksum_enabled) (\<lambda>h.
     bind_s (push_blob_meta E f h
       \<lparr>mt_blob_id = i, mt_codec = codec, mt_logical_len = logical, mt_stored_len = stored,
        mt_payload_checksum = cks,
        mt_payload_offset = segment_payload_offset h + payload_len h - ucast stored,
        mt_v2_integrity = True\<rparr>) (\<lambda>_.
     bind_s (lift_s (record_blob_append idx sq (payload_len h) i stored codec)) (\<lambda>idx'.
     bind_s (store_segment_index_for_append idx') (\<lambda>_.
     ret_s (ucast sq, i))))))))))))"

section \<open>Comparing a candidate with a payload\<close>

definition DEDUP_VERIFY_OFF :: "string list" where
  "DEDUP_VERIFY_OFF = [''0'', ''false'', ''no'']"

definition should_verify_dedup_hit :: "externs \<Rightarrow> DedupIndexEntry \<Rightarrow> bool" where
  "should_verify_dedup_hit E entry \<longleftrightarrow>
     identity_version entry \<noteq> DEDUP_IDENTITY_BLAKE3_128 \<or>
     switch_unless DEDUP_VERIFY_OFF True (env_var E ''HOLO_TAPE_DEDUP_VERIFY_HITS'')"

definition dedup_entry_matches_payload ::
  "externs \<Rightarrow> DedupIndexEntry \<Rightarrow> bytes \<Rightarrow> ('z data_store_scheme, StorageError, bool) stm" where
  "dedup_entry_matches_payload E entry payload =
     (if unat (de_logical_len entry) \<noteq> length payload then ret_s False
      else
        bind_s (locate_blob_segment_id E (stored_blob_id entry)) (\<lambda>sid.
        bind_s (load_blob_by_location E sid (stored_blob_id entry)) (\<lambda>blob.
        if db_logical_len blob \<noteq> de_logical_len entry \<or> db_stored_len blob \<noteq> stored_len entry
        then ret_s False
        else
          bind_s (if db_codec blob = CodecNone then ret_s (db_bytes blob)
                  else lift_s (decompress_payload E (db_codec blob) (db_bytes blob)
                         (unat (db_logical_len blob)))) (\<lambda>candidate.
          ret_s (candidate = payload)))))"

section \<open>What a segment holds\<close>

text \<open>A blob as the code writes it: its length and its integrity checksum are right.\<close>

definition blob_ok :: "externs \<Rightarrow> DataBlob \<Rightarrow> bool" where
  "blob_ok E b \<longleftrightarrow> unat (db_stored_len b) = length (db_bytes b) \<and>
     db_payload_checksum b = blob_integrity_checksum E (db_blob_id b) (db_logical_len b) (db_bytes b)"

definition seg_payload :: "DataBlob list \<Rightarrow> bytes" where
  "seg_payload bs = (if bs = [] then [] else DATA_LOG_PREFIX @ concat (map blob_encode bs))"

definition meta_at :: "nat \<Rightarrow> DataBlob \<Rightarrow> DataBlobMeta" where
  "meta_at off b =
     \<lparr>mt_blob_id = db_blob_id b, mt_codec = db_codec b, mt_logical_len = db_logical_len b,
      mt_stored_len = db_stored_len b, mt_payload_checksum = db_payload_checksum b,
      mt_payload_offset = of_nat (off + 24), mt_v2_integrity = True\<rparr>"

primrec metas :: "nat \<Rightarrow> DataBlob list \<Rightarrow> DataBlobMeta list" where
  "metas off [] = []"
| "metas off (b # bs) = meta_at off b # metas (off + length (blob_encode b)) bs"

lemma length_blob_header [simp]: "length (encode_data_blob_header i c l st ck) = 24"
  by (simp add: encode_data_blob_header_def)

lemma length_blob_encode [simp]: "length (blob_encode b) = 24 + length (db_bytes b)"
  by (simp add: blob_encode_def encode_data_blob_record_def)

lemma decode_blob_header [codec]:
  "decode_blob_meta_from_header (encode_data_blob_header i c l st ck) =
     Ok \<lparr>mt_blob_id = i, mt_codec = c, mt_logical_len = l, mt_stored_len = st,
         mt_payload_checksum = ck, mt_payload_offset = 0, mt_v2_integrity = False\<rparr>"
  by (simp add: decode_blob_meta_from_header_def encode_data_blob_header_def byte_at_def del: bind_r_Ok)

lemma read_blob_meta_here:
  assumes "length pre = off" "off < 2 ^ 64"
  shows "read_blob_meta (pre @ blob_encode b @ rest) STORAGE_LAYOUT_VERSION (of_nat off) = Ok (meta_at off b)"
proof -
  have "unat (of_nat off :: u64) = off" using assms(2) by (simp add: unat_of_nat_small)
  moreover have "slice off 24 (pre @ blob_encode b @ rest) =
      encode_data_blob_header (db_blob_id b) (db_codec b) (db_logical_len b) (db_stored_len b)
        (db_payload_checksum b)"
    using assms(1) by (simp add: blob_encode_def encode_data_blob_record_def)
  ultimately show ?thesis using assms(1)
    by (simp add: read_blob_meta_def read_exact_at_def DATA_BLOB_HEADER_SIZE_def decode_blob_header
        meta_at_def add.commute del: bind_r_Ok)
qed

lemma scan_log_blobs:
  assumes "list_all (blob_ok E) bs" "length pre + length (concat (map blob_encode bs)) < 2 ^ 64"
    and "buf = pre @ concat (map blob_encode bs)"
  shows "scan_log_data_index buf STORAGE_LAYOUT_VERSION (of_nat (length buf)) (of_nat (length pre)) =
    Ok (metas (length pre) bs)"
  using assms
proof (induction bs arbitrary: pre)
  case Nil
  then show ?case by (simp add: scan_log_data_index.simps)
next
  case (Cons b bs)
  let ?off = "length pre" and ?n = "length pre + length (blob_encode b)"
  have buf: "buf = pre @ blob_encode b @ concat (map blob_encode bs)" using Cons.prems by simp
  have lens: "length buf < 2 ^ 64" "?n \<le> length buf" "?off + 24 \<le> length buf"
    using Cons.prems by (simp_all add: buf)
  have u: "unat (of_nat (length buf) :: u64) = length buf" "unat (of_nat ?off :: u64) = ?off"
    "unat (of_nat ?n :: u64) = ?n"
    using lens by (auto intro!: unat_of_nat_small simp del: length_blob_encode of_nat_add)
  have meta: "read_blob_meta buf STORAGE_LAYOUT_VERSION (of_nat ?off) = Ok (meta_at ?off b)"
    unfolding buf using lens by (intro read_blob_meta_here) auto
  have "unat (db_stored_len b) = length (db_bytes b)" using Cons.prems(1) by (simp add: blob_ok_def)
  then have "?n = unat (of_nat ?off :: u64) + 24 + unat (mt_stored_len (meta_at ?off b))"
    using u(2) by (simp add: meta_at_def)
  then have nxt: "checked_blob_next_offset (of_nat ?off) (mt_stored_len (meta_at ?off b)) (of_nat (length buf)) =
      Ok (of_nat ?n)"
    using lens u by (simp only: checked_blob_next_offset_Ok)
  have rest: "scan_log_data_index buf STORAGE_LAYOUT_VERSION (of_nat (length buf)) (of_nat ?n) = Ok (metas ?n bs)"
    using Cons.IH [of "pre @ blob_encode b"] Cons.prems by (simp add: buf)
  have "checked_add (of_nat ?off) (of_nat DATA_BLOB_HEADER_SIZE) = Some (of_nat (?off + 24) :: u64)"
    using lens by (simp add: checked_add_def DATA_BLOB_HEADER_SIZE_def u(2))
  moreover have "\<not> (of_nat (length buf) :: u64) < of_nat (?off + 24)"
  proof -
    have "unat (of_nat (?off + 24) :: u64) = ?off + 24" using lens by (intro unat_of_nat_small) simp
    then show ?thesis using lens u(1) by (simp only: word_less_nat_alt not_less)
  qed
  moreover have "(of_nat ?off :: u64) < of_nat (length buf)"
    using lens u by (simp add: word_less_nat_alt)
  ultimately show ?case
    using meta nxt rest by (subst scan_log_data_index.simps) (simp del: bind_r_Ok length_blob_encode)
qed

lemma length_DATA_LOG_PREFIX [simp]: "length DATA_LOG_PREFIX = 4"
  by (simp add: DATA_LOG_PREFIX_def)

lemma scan_segment:
  assumes "list_all (blob_ok E) bs" "bs \<noteq> []" "length hdr = 96" "96 + length (seg_payload bs) < 2 ^ 64"
  shows "scan_data_index (hdr @ seg_payload bs) STORAGE_LAYOUT_VERSION (of_nat (length (seg_payload bs))) =
    Ok (metas 100 bs, True)"
proof -
  let ?buf = "hdr @ seg_payload bs"
  have buf: "?buf = (hdr @ DATA_LOG_PREFIX) @ concat (map blob_encode bs)"
    using assms(2) by (simp add: seg_payload_def)
  have "length (hdr @ DATA_LOG_PREFIX) + length (concat (map blob_encode bs)) < 2 ^ 64"
    using assms by (simp add: seg_payload_def)
  from scan_log_blobs [OF assms(1) this buf]
  have scan: "scan_log_data_index ?buf STORAGE_LAYOUT_VERSION (of_nat (length ?buf)) (of_nat 100) = Ok (metas 100 bs)"
    using assms(3) by simp
  have "read_exact_at ?buf 96 4 = Ok DATA_LOG_PREFIX"
    using assms(2,3) by (simp add: read_exact_at_def seg_payload_def)
  then show ?thesis
    using scan assms(3) by (simp add: scan_data_index_def header_sizes del: bind_r_Ok)
qed

lemma ids_metas [simp]: "map mt_blob_id (metas off bs) = map db_blob_id bs"
  by (induction bs arbitrary: off) (simp_all add: meta_at_def)

lemma metas_append: "metas off (as @ bs) = metas off as @ metas (off + length (concat (map blob_encode as))) bs"
  by (induction as arbitrary: off) (simp_all add: add.assoc)

lemma metas_source:
  assumes "m \<in> set (metas (length pre) bs)"
  shows "\<exists>b\<in>set bs. \<exists>off. m = meta_at off b \<and>
    off + 24 + length (db_bytes b) \<le> length (pre @ concat (map blob_encode bs)) \<and>
    slice (off + 24) (length (db_bytes b)) (pre @ concat (map blob_encode bs)) = db_bytes b"
  using assms
proof (induction bs arbitrary: pre)
  case (Cons b bs)
  show ?case
  proof (cases "m = meta_at (length pre) b")
    case True
    have "slice (length pre + 24) (length (db_bytes b)) (pre @ concat (map blob_encode (b # bs))) = db_bytes b"
      by (simp add: blob_encode_def encode_data_blob_record_def)
    with True show ?thesis by (intro bexI [of _ b] exI [of _ "length pre"]) auto
  next
    case False
    with Cons.prems have "m \<in> set (metas (length (pre @ blob_encode b)) bs)" by simp
    from Cons.IH [OF this] show ?thesis by auto
  qed
qed simp

lemma binary_search_iff:
  assumes "sorted_wrt (<) (map key xs)"
  shows "(case binary_search_by_key key k xs of Inr i \<Rightarrow> Some (xs ! i) | Inl _ \<Rightarrow> None) = Some x \<longleftrightarrow>
    x \<in> set xs \<and> key x = k"
proof -
  let ?i = "partition_point (\<lambda>x. key x < k) xs"
  have sorted: "sorted (map key xs)" using assms by (rule strict_sorted_imp_sorted)
  have uniq: "y = z" if "y \<in> set xs" "z \<in> set xs" "key y = key z" for y z
    using assms that by (meson inj_onD distinct_map strict_sorted_iff)
  have found: "?i < length xs \<and> key (xs ! ?i) = k" if x: "x \<in> set xs" "key x = k"
  proof -
    obtain j where j: "j < length xs" "xs ! j = x" using x(1) by (auto simp: in_set_conv_nth)
    have "\<not> j < ?i" using nth_before_partition_point [of j "\<lambda>x. key x < k" xs] j x by auto
    then have i: "?i < length xs" "?i \<le> j" using j by auto
    then have "key (xs ! ?i) \<le> k" using sorted j x sorted_nth_mono [of "map key xs" ?i j] by simp
    moreover have "\<not> key (xs ! ?i) < k" using nth_partition_point [OF i(1)] .
    ultimately show ?thesis using i by simp
  qed
  show ?thesis
    using found uniq [of "xs ! ?i" x] by (auto simp: binary_search_by_key_def Let_def split: if_splits)
qed

lemma find_blob_meta_iff:
  "sorted_wrt (<) (map db_blob_id bs) \<Longrightarrow>
     find_blob_meta i (metas off bs) = Some m \<longleftrightarrow> m \<in> set (metas off bs) \<and> mt_blob_id m = i"
  unfolding find_blob_meta_def by (rule binary_search_iff) simp

text \<open>
  A segment file with the given blobs, in the order of their identifiers, and
  every usable cache entry of it lists them.
\<close>

definition data_cache_valid :: "externs \<Rightarrow> 'z data_store_scheme \<Rightarrow> layout_file \<Rightarrow> CachedDataIndex \<Rightarrow> bool" where
  "data_cache_valid E s f c \<longleftrightarrow>
     data_cache s f = Some c \<and> (trust_hot_cache E \<or> files s f = Some (dc_stamp c))"

definition data_seg :: "externs \<Rightarrow> 'z data_store_scheme \<Rightarrow> layout_file \<Rightarrow> DataBlob list \<Rightarrow> bool" where
  "data_seg E s f bs \<longleftrightarrow>
     (\<exists>h. shaped E s f h (seg_payload bs) \<and> kind h = KData) \<and> append_cache_ok E s f \<and>
     list_all (blob_ok E) bs \<and> sorted_wrt (<) (map db_blob_id bs) \<and>
     (\<forall>c. data_cache_valid E s f c \<longrightarrow> dc_blobs c = metas 100 bs \<and> dc_is_log_format c)"

lemma data_seg_local:
  "files s' f = files s f \<Longrightarrow> append_file_cache s' f = append_file_cache s f \<Longrightarrow>
     data_cache s' f = data_cache s f \<Longrightarrow> data_seg E s' f bs = data_seg E s f bs"
  using append_cache_ok_local [of s' f s E] by (simp add: data_seg_def shaped_def data_cache_valid_def)

lemma ensure_fresh_run:
  assumes seg: "data_seg E s f bs"
  shows "\<exists>c. ensure_data_cache_fresh E f s = (Ok (), data_cache_update (\<lambda>m. m(f := Some c)) s) \<and>
    dc_blobs c = metas 100 bs \<and> dc_is_log_format c \<and>
    data_seg E (data_cache_update (\<lambda>m. m(f := Some c)) s) f bs"
proof -
  obtain h where h: "shaped E s f h (seg_payload bs)" "kind h = KData" using seg by (auto simp: data_seg_def)
  let ?buf = "segment_headers E h @ seg_payload bs"
  have buf: "files s f = Some ?buf" using h by (simp add: shaped_def)
  have keep: "data_cache_update (\<lambda>m. m(f := Some c)) s = s" if "data_cache s f = Some c" for c
    using that by (simp add: fun_upd_idem)
  show ?thesis
  proof (cases "\<exists>c. data_cache_valid E s f c")
    case True
    then obtain c where c: "data_cache_valid E s f c" by blast
    then have "ensure_data_cache_fresh E f s = (Ok (), s)"
      by (auto simp: ensure_data_cache_fresh_def data_cache_valid_def file_stamp_def)
    moreover have "dc_blobs c = metas 100 bs \<and> dc_is_log_format c" using seg c by (simp add: data_seg_def)
    ultimately show ?thesis using c keep [of c] seg by (auto simp: data_cache_valid_def intro!: exI [of _ c])
  next
    case False
    let ?c = "\<lparr>dc_stamp = ?buf, dc_sequence = sequence h, dc_blobs = metas 100 bs, dc_is_log_format = True\<rparr>"
    have len: "length (segment_headers E h) = 96" "96 + length (seg_payload bs) < 2 ^ 64"
      "version h = STORAGE_LAYOUT_VERSION" "payload_len h = of_nat (length (seg_payload bs))"
      using h by (simp_all add: shaped_def length_segment_headers)
    have "payload_len h = 0 \<longleftrightarrow> bs = []"
      using unat_payload_len [OF h(1)] by (auto simp: seg_payload_def unat_eq_0 DATA_LOG_PREFIX_def split: if_splits)
    moreover have "bs \<noteq> [] \<Longrightarrow> scan_data_index ?buf (version h) (payload_len h) = Ok (metas 100 bs, True)"
      using seg len scan_segment [of E bs "segment_headers E h"] by (simp add: data_seg_def)
    ultimately have "ensure_data_cache_fresh E f s = (Ok (), data_cache_update (\<lambda>m. m(f := Some ?c)) s)"
      using False buf read_header_shaped [OF h]
      by (auto simp: ensure_data_cache_fresh_def data_cache_valid_def file_stamp_def set_data_cache_def
          bind_s_def)
    moreover have "data_seg E (data_cache_update (\<lambda>m. m(f := Some ?c)) s) f bs"
      using seg h by (auto simp: data_seg_def data_cache_valid_def shaped_def append_cache_ok_def)
    ultimately show ?thesis by (intro exI [of _ ?c]) simp
  qed
qed

definition blob_in :: "u64 \<Rightarrow> DataBlob list \<Rightarrow> DataBlob option" where
  "blob_in i bs = find (\<lambda>b. db_blob_id b = i) bs"

lemma blob_in_iff:
  assumes "sorted_wrt (<) (map db_blob_id bs)"
  shows "blob_in i bs = Some b \<longleftrightarrow> b \<in> set bs \<and> db_blob_id b = i"
proof -
  have "distinct (map db_blob_id bs)" using assms by (simp add: strict_sorted_iff)
  then have uniq: "x = y" if "x \<in> set bs" "y \<in> set bs" "db_blob_id x = db_blob_id y" for x y
    using that by (meson inj_onD distinct_map)
  show ?thesis
  proof (cases "blob_in i bs")
    case None
    moreover from None have "\<forall>x\<in>set bs. db_blob_id x \<noteq> i" by (auto simp: blob_in_def find_None_iff)
    ultimately show ?thesis by auto
  next
    case (Some x)
    then have "x \<in> set bs" "db_blob_id x = i" by (auto simp: blob_in_def find_Some_iff)
    then show ?thesis using Some uniq by auto
  qed
qed

lemma blob_in_None: "blob_in i bs = None \<longleftrightarrow> i \<notin> db_blob_id ` set bs"
  by (auto simp: blob_in_def find_None_iff)

lemma load_blob_run:
  assumes seg: "data_seg E s f bs"
  shows "\<exists>c. load_blob_by_id E f i s =
      (ok_or (blob_in i bs) (NotFound ''data blob not found''), data_cache_update (\<lambda>m. m(f := Some c)) s) \<and>
    data_seg E (data_cache_update (\<lambda>m. m(f := Some c)) s) f bs"
proof -
  obtain c where c: "ensure_data_cache_fresh E f s = (Ok (), data_cache_update (\<lambda>m. m(f := Some c)) s)"
    "dc_blobs c = metas 100 bs" "data_seg E (data_cache_update (\<lambda>m. m(f := Some c)) s) f bs"
    using ensure_fresh_run [OF seg] by blast
  obtain h where h: "shaped E s f h (seg_payload bs)" using seg by (auto simp: data_seg_def)
  have srt: "sorted_wrt (<) (map db_blob_id bs)" and ok: "list_all (blob_ok E) bs"
    using seg by (simp_all add: data_seg_def)
  have ids: "mt_blob_id ` set (metas 100 bs) = db_blob_id ` set bs"
    by (metis ids_metas list.set_map)
  show ?thesis
  proof (cases "find_blob_meta i (metas 100 bs)")
    case None
    then have "i \<notin> mt_blob_id ` set (metas 100 bs)"
      using find_blob_meta_iff [OF srt, of i 100] by auto
    then have "i \<notin> db_blob_id ` set bs" by (simp only: ids not_False_eq_True)
    then have "blob_in i bs = None" by (simp add: blob_in_None)
    then show ?thesis using c None
      by (intro exI [of _ c]) (simp add: load_blob_by_id_def data_cache_entry_def)
  next
    case (Some m)
    then have m: "m \<in> set (metas 100 bs)" "mt_blob_id m = i" using find_blob_meta_iff [OF srt] by auto
    let ?pre = "segment_headers E h @ DATA_LOG_PREFIX"
    have pre: "length ?pre = 100" using h by (simp add: shaped_def length_segment_headers)
    obtain b off where b: "b \<in> set bs" "m = meta_at off b"
      "off + 24 + length (db_bytes b) \<le> length (?pre @ concat (map blob_encode bs))"
      "slice (off + 24) (length (db_bytes b)) (?pre @ concat (map blob_encode bs)) = db_bytes b"
      using metas_source [of m ?pre bs] m(1) pre by auto
    have buf: "files s f = Some (?pre @ concat (map blob_encode bs))"
      using h b(1) by (auto simp: shaped_def seg_payload_def)
    have bok: "unat (db_stored_len b) = length (db_bytes b)"
      "db_payload_checksum b = blob_integrity_checksum E (db_blob_id b) (db_logical_len b) (db_bytes b)"
      using ok b(1) by (auto simp: list_all_iff blob_ok_def)
    have "96 + length (seg_payload bs) < 2 ^ 64" using h by (simp add: shaped_def)
    then have "off + 24 < 2 ^ 64" using b(1,3) pre by (auto simp: seg_payload_def split: if_splits)
    then have off: "unat (mt_payload_offset m) = off + 24"
      unfolding b(2) meta_at_def by (simp only: DataBlobMeta.simps) (rule unat_of_nat_small, simp)
    have rd: "read_exact_at (?pre @ concat (map blob_encode bs)) (off + 24) (unat (mt_stored_len m)) = Ok (db_bytes b)"
      using b bok by (simp add: read_exact_at_def meta_at_def del: append_assoc)
    have "blob_in i bs = Some b" using blob_in_iff [OF srt] b(1,2) m(2) by (simp add: meta_at_def)
    moreover have "load_blob_by_id E f i s = (Ok b, data_cache_update (\<lambda>m. m(f := Some c)) s)"
      using c(1,2) Some buf rd off bok b(2)
      by (simp add: load_blob_by_id_def data_cache_entry_def file_stamp_def meta_at_def del: append_assoc)
    ultimately show ?thesis using c(3) by (intro exI [of _ c]) simp
  qed
qed

section \<open>The blobs of a layout\<close>

text \<open>
  The segment index as it is on disk and as an append sees it, the blobs of
  each segment, and how they hang together: every blob lies in the identifier
  range of its segment, the index on disk names the same segments and claims
  no blob for a segment that the current index does not claim for it too.
\<close>

definition index_disk :: "externs \<Rightarrow> 'z index_store_scheme \<Rightarrow> SegmentIndex \<Rightarrow> bool" where
  "index_disk E s idx \<longleftrightarrow>
     (\<exists>h. sealed E s Segment_Index_File h (index_encode idx) \<and> kind h = KSegmentIndex) \<and>
     length (descriptors idx) \<le> MAX_MAINTENANCE_METADATA_RECORDS"

definition index_rep :: "externs \<Rightarrow> 'z index_store_scheme \<Rightarrow> SegmentIndex \<Rightarrow> SegmentIndex \<Rightarrow> bool" where
  "index_rep E s disk idx \<longleftrightarrow> index_disk E s disk \<and>
     idx = (case segment_index_cache s of
              Some c \<Rightarrow> if si_dirty c \<or> si_stamp c = files s Segment_Index_File then si_index c else disk
            | None \<Rightarrow> disk)"

definition index_covers :: "SegmentIndex \<Rightarrow> SegmentIndex \<Rightarrow> bool" where
  "index_covers disk idx \<longleftrightarrow>
     list_all2 (\<lambda>d0 d. segment_seq d0 = segment_seq d \<and> (\<forall>i. contains_blob d0 i \<longrightarrow> contains_blob d i))
       (descriptors disk) (descriptors idx)"

type_synonym segments = "u32 \<Rightarrow> DataBlob list"

definition blobs_rep :: "externs \<Rightarrow> 'z data_store_scheme \<Rightarrow> SegmentIndex \<Rightarrow> segments \<Rightarrow> bool" where
  "blobs_rep E s idx segs \<longleftrightarrow> (\<forall>d\<in>set (descriptors idx).
     data_seg E s (Data_Segment (segment_seq d)) (segs (segment_seq d)) \<and>
     payload_bytes d = of_nat (length (seg_payload (segs (segment_seq d)))) \<and>
     (\<forall>b\<in>set (segs (segment_seq d)). contains_blob d (db_blob_id b)))"

text \<open>
  The part of this that does not depend on the cached index; segments that are
  not there yet have left nothing in the cache.
\<close>

definition segs_rep ::
  "externs \<Rightarrow> 'z data_store_scheme \<Rightarrow> SegmentIndex \<Rightarrow> SegmentIndex \<Rightarrow> segments \<Rightarrow> bool" where
  "segs_rep E s disk idx segs \<longleftrightarrow>
     index_disk E s disk \<and> index_inv idx \<and> index_covers disk idx \<and> blobs_rep E s idx segs \<and>
     (\<forall>q. unat (next_segment_seq idx) \<le> unat q \<longrightarrow> data_cache s (Data_Segment q) = None)"

definition store_rep ::
  "externs \<Rightarrow> 'z data_store_scheme \<Rightarrow> SegmentIndex \<Rightarrow> SegmentIndex \<Rightarrow> segments \<Rightarrow> bool" where
  "store_rep E s disk idx segs \<longleftrightarrow>
     index_rep E s disk idx \<and> segs_rep E s disk idx segs"

text \<open>What reading may change: the cached index and the cached blob lists.\<close>

definition read_step :: "'z data_store_scheme \<Rightarrow> 'z data_store_scheme \<Rightarrow> bool" where
  "read_step s s' \<longleftrightarrow> (\<exists>c d. s' = data_cache_update (\<lambda>_. d) (segment_index_cache_update (\<lambda>_. c) s))"

lemma read_step_refl [simp]: "read_step s s"
  unfolding read_step_def by (rule exI [of _ "segment_index_cache s"], rule exI [of _ "data_cache s"]) simp

lemma read_step_trans: "read_step s s' \<Longrightarrow> read_step s' s'' \<Longrightarrow> read_step s s''"
  by (auto simp: read_step_def) blast

lemma read_step_data: "read_step s (data_cache_update g s)"
  unfolding read_step_def
  by (rule exI [of _ "segment_index_cache s"], rule exI [of _ "g (data_cache s)"]) simp

lemma load_index_run: "index_disk E s idx \<Longrightarrow> load_segment_index E s = (Ok idx, s)"
  using decode_index_encode [of idx] index_encode_fits [of idx]
  by (auto simp: index_disk_def load_segment_index_def read_bounded_sealed)

lemma index_rep_files:
  "files s' Segment_Index_File = files s Segment_Index_File \<Longrightarrow>
     segment_index_cache s' = segment_index_cache s \<Longrightarrow> index_rep E s' disk idx = index_rep E s disk idx"
  by (simp add: index_rep_def index_disk_def sealed_def shaped_def cong: option.case_cong)

lemma load_for_append_run:
  assumes "index_rep E s disk idx"
  shows "\<exists>c. load_segment_index_for_append E s = (Ok idx, segment_index_cache_update (\<lambda>_. Some c) s) \<and>
    index_rep E (segment_index_cache_update (\<lambda>_. Some c) s) disk idx \<and>
    (segment_index_cache s = None \<or> segment_index_cache s = Some c \<or> \<not> si_dirty c)"
proof (cases "\<exists>c. segment_index_cache s = Some c \<and> (si_dirty c \<or> si_stamp c = files s Segment_Index_File)")
  case True
  then obtain c where c: "segment_index_cache s = Some c" "si_dirty c \<or> si_stamp c = files s Segment_Index_File" by blast
  then have "idx = si_index c" using assms by (simp add: index_rep_def)
  moreover have "segment_index_cache_update (\<lambda>_. Some c) s = s" using c by simp
  ultimately show ?thesis
    using assms c by (intro exI [of _ c]) (simp only:, auto simp: load_segment_index_for_append_def Let_def)
next
  case False
  let ?c = "\<lparr>si_index = idx, si_dirty = False, si_generation = 0, si_stamp = files s Segment_Index_File\<rparr>"
  have "idx = disk" "index_disk E s disk"
    using assms False by (auto simp: index_rep_def split: option.splits if_splits)
  moreover have "load_segment_index_for_append E s = (Ok idx, segment_index_cache_update (\<lambda>_. Some ?c) s)"
    using False load_index_run [of E s idx] calculation
    by (auto simp: load_segment_index_for_append_def set_index_cache_def bind_s_def Let_def split: option.splits)
  ultimately show ?thesis
    by (intro exI [of _ ?c]) (simp add: index_rep_def index_disk_def sealed_def shaped_def)
qed

lemma blobs_rep_local:
  assumes "blobs_rep E s idx segs"
    and "\<And>q. q \<in> segment_seq ` set (descriptors idx) \<Longrightarrow>
       data_seg E s (Data_Segment q) (segs q) \<Longrightarrow> data_seg E s' (Data_Segment q) (segs q)"
  shows "blobs_rep E s' idx segs"
  using assms by (auto simp: blobs_rep_def)

lemmas store_rep_defs = store_rep_def segs_rep_def

lemma segs_rep_data_cache:
  assumes rep: "segs_rep E s disk idx segs" and d: "d \<in> set (descriptors idx)" "f = Data_Segment (segment_seq d)"
    and seg: "data_seg E (data_cache_update (\<lambda>m. m(f := Some c)) s) f (segs (segment_seq d))"
  shows "segs_rep E (data_cache_update (\<lambda>m. m(f := Some c)) s) disk idx segs"
proof -
  let ?s = "data_cache_update (\<lambda>m. m(f := Some c)) s"
  have "data_seg E ?s (Data_Segment q) (segs q)" if "data_seg E s (Data_Segment q) (segs q)" for q
  proof (cases "q = segment_seq d")
    case True
    then show ?thesis using seg d by simp
  next
    case False
    then show ?thesis using that d data_seg_local [of ?s "Data_Segment q" s E] by simp
  qed
  moreover have "unat (segment_seq d) < unat (next_segment_seq idx)" using rep d by (simp add: segs_rep_def index_inv_def)
  ultimately show ?thesis using rep d
    by (auto simp: segs_rep_def index_disk_def sealed_def shaped_def intro: blobs_rep_local)
qed

lemma store_rep_data_cache:
  assumes "store_rep E s disk idx segs" "d \<in> set (descriptors idx)" "f = Data_Segment (segment_seq d)"
    and "data_seg E (data_cache_update (\<lambda>m. m(f := Some c)) s) f (segs (segment_seq d))"
  shows "store_rep E (data_cache_update (\<lambda>m. m(f := Some c)) s) disk idx segs"
  using assms segs_rep_data_cache [of E s disk idx segs d f c]
    index_rep_files [of "data_cache_update (\<lambda>m. m(f := Some c)) s" s] by (simp add: store_rep_def)

text \<open>Reading a blob of a segment, and the failing read of one that is not there.\<close>

lemma store_rep_seg:
  "store_rep E s disk idx segs \<Longrightarrow> d \<in> set (descriptors idx) \<Longrightarrow>
     data_seg E s (Data_Segment (segment_seq d)) (segs (segment_seq d))"
  by (simp add: store_rep_defs blobs_rep_def)

lemma store_rep_blob_seg:
  assumes "store_rep E s disk idx segs" "d \<in> set (descriptors idx)" "d' \<in> set (descriptors idx)"
    and "b \<in> set (segs (segment_seq d))" "contains_blob d' (db_blob_id b)"
  shows "d' = d"
proof -
  have "contains_blob d (db_blob_id b)" "index_inv idx" using assms by (auto simp: store_rep_defs blobs_rep_def)
  then show ?thesis using assms(2,3,5) descriptor_for_blob_iff by (metis option.inject)
qed

lemma load_segment_run:
  assumes rep: "store_rep E s disk idx segs" and d: "d \<in> set (descriptors idx)"
  shows "\<exists>s'. load_blob_by_id E (Data_Segment (segment_seq d)) i s =
      (ok_or (blob_in i (segs (segment_seq d))) (NotFound ''data blob not found''), s') \<and>
    store_rep E s' disk idx segs \<and> read_step s s' \<and> segment_index_cache s' = segment_index_cache s"
proof -
  let ?f = "Data_Segment (segment_seq d)"
  obtain c where c: "load_blob_by_id E ?f i s = (ok_or (blob_in i (segs (segment_seq d))) (NotFound ''data blob not found''),
      data_cache_update (\<lambda>m. m(?f := Some c)) s)"
    "data_seg E (data_cache_update (\<lambda>m. m(?f := Some c)) s) ?f (segs (segment_seq d))"
    using load_blob_run [OF store_rep_seg [OF rep d]] by blast
  show ?thesis
    by (rule exI [of _ "data_cache_update (\<lambda>m. m(?f := Some c)) s"])
      (use c store_rep_data_cache [OF rep d refl c(2)] read_step_data in simp)
qed

lemma store_rep_index_cache:
  assumes "store_rep E s disk idx segs" "index_rep E (segment_index_cache_update (\<lambda>_. c) s) disk idx"
  shows "store_rep E (segment_index_cache_update (\<lambda>_. c) s) disk idx segs"
  using assms data_seg_local [of "segment_index_cache_update (\<lambda>_. c) s" _ s E]
  by (auto simp: store_rep_defs index_rep_def intro: blobs_rep_local)

lemma load_for_append_store:
  assumes "store_rep E s disk idx segs"
  shows "\<exists>s'. load_segment_index_for_append E s = (Ok idx, s') \<and> store_rep E s' disk idx segs \<and> read_step s s'"
proof -
  obtain c where "load_segment_index_for_append E s = (Ok idx, segment_index_cache_update (\<lambda>_. Some c) s)"
    "index_rep E (segment_index_cache_update (\<lambda>_. Some c) s) disk idx"
    using load_for_append_run assms unfolding store_rep_def by blast
  moreover have "read_step s (segment_index_cache_update (\<lambda>_. Some c) s)"
    unfolding read_step_def by (rule exI [of _ "Some c"], rule exI [of _ "data_cache s"]) simp
  ultimately show ?thesis using store_rep_index_cache [OF assms] by blast
qed

lemma descriptor_for_segment_inv:
  assumes "index_inv idx" "d \<in> set (descriptors idx)"
  shows "descriptor_for_segment idx (ucast (segment_seq d)) = Some d"
proof -
  have seq: "(ucast (segment_seq x) :: u64) = ucast (segment_seq d) \<longleftrightarrow> segment_seq x = segment_seq d" for x
    by (auto dest!: arg_cong [of _ _ unat] simp: unsigned_ucast_eq take_bit_eq_mod word_unat_eq_iff)
  have "x = d" if "x \<in> set (descriptors idx)" "segment_seq x = segment_seq d" for x
    using assms that unfolding index_inv_def distinct_map by (blast dest: inj_onD)
  then show ?thesis using assms(2) unfolding descriptor_for_segment_def seq
    by (cases "find (\<lambda>x. segment_seq x = segment_seq d) (descriptors idx)")
      (auto simp: find_None_iff dest: find_SomeD)
qed

lemma load_location_run:
  assumes rep: "store_rep E s disk idx segs" and d: "d \<in> set (descriptors idx)"
    and b: "b \<in> set (segs (segment_seq d))"
  shows "\<exists>s'. load_blob_by_location E (ucast (segment_seq d)) (db_blob_id b) s = (Ok b, s') \<and>
    store_rep E s' disk idx segs \<and> read_step s s'"
proof -
  obtain s1 where s1: "load_segment_index_for_append E s = (Ok idx, s1)" "store_rep E s1 disk idx segs" "read_step s s1"
    using load_for_append_store [OF rep] by blast
  obtain s2 where s2: "load_blob_by_id E (Data_Segment (segment_seq d)) (db_blob_id b) s1 =
      (ok_or (blob_in (db_blob_id b) (segs (segment_seq d))) (NotFound ''data blob not found''), s2)"
    "store_rep E s2 disk idx segs" "read_step s1 s2"
    using load_segment_run [OF s1(2) d] by blast
  have "blob_in (db_blob_id b) (segs (segment_seq d)) = Some b"
    using store_rep_seg [OF rep d] b by (simp add: data_seg_def blob_in_iff)
  moreover have "descriptor_for_segment idx (ucast (segment_seq d)) = Some d"
    using rep d by (simp add: store_rep_defs descriptor_for_segment_inv)
  ultimately show ?thesis using s1 s2 read_step_trans
    by (intro exI [of _ s2]) (auto simp: load_blob_by_location_def)
qed

lemma find_segment_run:
  assumes rep: "store_rep E s disk idx segs" and d: "d \<in> set (descriptors idx)"
    and b: "b \<in> set (segs (segment_seq d))"
    and ds: "set (map segment_seq ds) \<subseteq> segment_seq ` set (descriptors idx)" "segment_seq d \<in> set (map segment_seq ds)"
  shows "\<exists>s'. find_blob_segment E (db_blob_id b) ds s = (Ok (ucast (segment_seq d)), s') \<and>
    store_rep E s' disk idx segs \<and> read_step s s'"
  using rep ds
proof (induction ds arbitrary: s)
  case (Cons x ds)
  obtain x' where x': "x' \<in> set (descriptors idx)" "segment_seq x = segment_seq x'" using Cons.prems(2) by auto
  let ?r = "blob_in (db_blob_id b) (segs (segment_seq x'))"
  obtain s1 where s1: "load_blob_by_id E (Data_Segment (segment_seq x)) (db_blob_id b) s =
      (ok_or ?r (NotFound ''data blob not found''), s1)"
    "store_rep E s1 disk idx segs" "read_step s s1"
    using load_segment_run [OF Cons.prems(1) x'(1)] x'(2) by auto
  show ?case
  proof (cases ?r)
    case None
    have "blob_in (db_blob_id b) (segs (segment_seq d)) = Some b"
      using store_rep_seg [OF rep d] b by (simp add: data_seg_def blob_in_iff)
    with None have "segment_seq d \<noteq> segment_seq x" using x'(2) by auto
    then obtain s2 where "find_blob_segment E (db_blob_id b) ds s1 = (Ok (ucast (segment_seq d)), s2)"
      "store_rep E s2 disk idx segs" "read_step s1 s2" using Cons.IH [OF s1(2)] Cons.prems(2,3) by auto
    then show ?thesis using s1 None read_step_trans by (intro exI [of _ s2]) auto
  next
    case (Some y)
    then have y: "y \<in> set (segs (segment_seq x'))" "db_blob_id y = db_blob_id b"
      using store_rep_seg [OF Cons.prems(1) x'(1)] by (auto simp: data_seg_def blob_in_iff)
    moreover have "contains_blob d (db_blob_id b)" using rep d b by (auto simp: store_rep_defs blobs_rep_def)
    ultimately have "d = x'" using store_rep_blob_seg [OF Cons.prems(1) x'(1) d] by simp
    then show ?thesis using s1 Some x'(2) by (intro exI [of _ s1]) auto
  qed
qed simp

lemma index_covers_seqs: "index_covers disk idx \<Longrightarrow> map segment_seq (descriptors disk) = map segment_seq (descriptors idx)"
  by (auto simp: index_covers_def list_all2_conv_all_nth intro: nth_equalityI)

lemma index_covers_desc:
  assumes "index_covers disk idx" "x \<in> set (descriptors disk)"
  obtains x' where "x' \<in> set (descriptors idx)" "segment_seq x = segment_seq x'"
    "\<And>i. contains_blob x i \<Longrightarrow> contains_blob x' i"
proof -
  obtain n where n: "n < length (descriptors disk)" "x = descriptors disk ! n" using assms(2) by (auto simp: in_set_conv_nth)
  then show thesis using assms(1) that [of "descriptors idx ! n"] by (simp add: index_covers_def list_all2_conv_all_nth)
qed

lemma locate_run:
  assumes rep: "store_rep E s disk idx segs" and d: "d \<in> set (descriptors idx)"
    and b: "b \<in> set (segs (segment_seq d))"
  shows "\<exists>s'. locate_blob_segment_id E (db_blob_id b) s = (Ok (ucast (segment_seq d)), s') \<and>
    store_rep E s' disk idx segs \<and> read_step s s'"
proof -
  have disk: "load_segment_index E s = (Ok disk, s)" and cov: "index_covers disk idx"
    using rep load_index_run by (auto simp: store_rep_defs index_rep_def)
  show ?thesis
  proof (cases "descriptor_for_blob disk (db_blob_id b)")
    case None
    have "set (map segment_seq (descriptors disk)) = segment_seq ` set (descriptors idx)"
      using index_covers_seqs [OF cov] by simp
    then show ?thesis using find_segment_run [OF rep d b, of "descriptors disk"] d disk None
      by (simp add: locate_blob_segment_id_def)
  next
    case (Some x)
    then have x: "x \<in> set (descriptors disk)" "contains_blob x (db_blob_id b)"
      unfolding descriptor_for_blob_def by (auto dest: find_SomeD)
    then obtain x' where x': "x' \<in> set (descriptors idx)" "segment_seq x = segment_seq x'" "contains_blob x' (db_blob_id b)"
      using index_covers_desc [OF cov] by metis
    then have "x' = d" using store_rep_blob_seg [OF rep d _ b] by blast
    then show ?thesis using disk Some rep x' by (simp add: locate_blob_segment_id_def)
  qed
qed

section \<open>Appending keeps the blobs\<close>

text \<open>What the append may touch: the index, the data segments and their caches.\<close>

fun is_blob_file :: "layout_file \<Rightarrow> bool" where
  "is_blob_file (Tmp f) = is_blob_file f"
| "is_blob_file (Data_Segment _) = True"
| "is_blob_file f = (f = Segment_Index_File)"

definition data_step :: "'z data_store_scheme \<Rightarrow> 'z data_store_scheme \<Rightarrow> bool" where
  "data_step s s' \<longleftrightarrow>
     (\<forall>g. \<not> is_blob_file g \<longrightarrow> files s' g = files s g \<and> append_file_cache s' g = append_file_cache s g) \<and>
     blk_map_cache s' = blk_map_cache s \<and> lookup_cache s' = lookup_cache s \<and> dedup_cache s' = dedup_cache s \<and>
     checkpoint_cache s' = checkpoint_cache s \<and> pending_sync_writes s' = pending_sync_writes s"

lemma data_step_refl [simp]: "data_step s s" by (simp add: data_step_def)

lemma data_step_trans: "data_step s s' \<Longrightarrow> data_step s' s'' \<Longrightarrow> data_step s s''"
  by (simp add: data_step_def)

lemma data_step_read: "read_step s s' \<Longrightarrow> data_step s s'"
  by (auto simp: read_step_def data_step_def)

lemma frame_data:
  assumes "frame f s s'"
  shows "blk_map_cache s' = blk_map_cache s \<and> lookup_cache s' = lookup_cache s \<and> dedup_cache s' = dedup_cache s \<and>
     segment_index_cache s' = segment_index_cache s \<and> data_cache s' = data_cache s \<and>
     checkpoint_cache s' = checkpoint_cache s \<and> pending_sync_writes s' = pending_sync_writes s"
  using assms by (cases s, cases s') (simp add: frame_def)

lemma data_step_frame: "frame f s s' \<Longrightarrow> is_blob_file f \<Longrightarrow> data_step s s'"
  using frame_data [of f s s'] by (auto simp: data_step_def frame_def others_same_def)

lemma next_blob_id_fresh:
  assumes "next_blob_id idx = Ok i"
  shows "i \<noteq> 0 \<and> (\<forall>d\<in>set (descriptors idx). last_blob_id d < i)"
proof -
  have mx: "x \<le> foldl max a xs \<and> (\<forall>y\<in>set xs. y \<le> foldl max a xs)" if "x \<le> a" for x a :: u64 and xs
    using that by (induction xs arbitrary: a x) (auto simp: le_max_iff_disj)
  let ?m = "foldl max 0 (map last_blob_id (descriptors idx))"
  have i: "unat i = unat ?m + 1"
    using assms by (cases "checked_add ?m 1") (auto simp: next_blob_id_def checked_add_Some)
  have "last_blob_id d < i" if "d \<in> set (descriptors idx)" for d
    using mx [OF order_refl, of 0 "map last_blob_id (descriptors idx)"] that i by (auto simp: word_less_nat_alt word_le_nat_alt)
  then show ?thesis using i by auto
qed

lemma map_update_state:
  "(\<And>d st. g (d\<lparr>sd_state := st\<rparr>) = g d) \<Longrightarrow>
     map g (update_first P (\<lambda>d. d\<lparr>sd_state := st\<rparr>) ds) = map g ds"
  by (induction ds) auto

lemma rotated_maps:
  "map last_blob_id (descriptors (rotated idx)) = map last_blob_id (descriptors idx) @ [0]"
  "map segment_seq (descriptors (rotated idx)) = map segment_seq (descriptors idx) @ [ucast (next_segment_seq idx)]"
  "map (\<lambda>d. (segment_seq d, payload_bytes d, contains_blob d)) (descriptors (rotated idx)) =
     map (\<lambda>d. (segment_seq d, payload_bytes d, contains_blob d)) (descriptors idx) @
     [(ucast (next_segment_seq idx), 0, \<lambda>_. False)]"
proof -
  have "contains_blob (d\<lparr>sd_state := st\<rparr>) = contains_blob d" "contains_blob (empty_descriptor q) = (\<lambda>_. False)" for d st q
    by (rule ext, simp)+
  then show "map last_blob_id (descriptors (rotated idx)) = map last_blob_id (descriptors idx) @ [0]"
    "map segment_seq (descriptors (rotated idx)) = map segment_seq (descriptors idx) @ [ucast (next_segment_seq idx)]"
    "map (\<lambda>d. (segment_seq d, payload_bytes d, contains_blob d)) (descriptors (rotated idx)) =
     map (\<lambda>d. (segment_seq d, payload_bytes d, contains_blob d)) (descriptors idx) @
     [(ucast (next_segment_seq idx), 0, \<lambda>_. False)]"
    by (simp_all add: rotated_def map_update_state, simp add: empty_descriptor_def)
qed

lemma rotated_next_blob_id: "next_blob_id (rotated idx) = next_blob_id idx"
  by (simp add: next_blob_id_def rotated_maps)

lemma rotated_mem:
  assumes "d \<in> set (descriptors (rotated idx))"
  shows "segment_seq d = ucast (next_segment_seq idx) \<and> payload_bytes d = 0 \<or>
    (\<exists>x\<in>set (descriptors idx). segment_seq d = segment_seq x \<and> payload_bytes d = payload_bytes x \<and>
       contains_blob d = contains_blob x)"
proof -
  have "(segment_seq d, payload_bytes d, contains_blob d) \<in>
      set (map (\<lambda>d. (segment_seq d, payload_bytes d, contains_blob d)) (descriptors (rotated idx)))"
    using assms by simp
  then show ?thesis unfolding rotated_maps by auto
qed

lemma index_covers_refl [simp]: "index_covers idx idx"
  by (simp add: index_covers_def list_all2_same)

text \<open>The blobs of a layout, each with the number of its segment.\<close>

definition blob_set :: "SegmentIndex \<Rightarrow> segments \<Rightarrow> (u32 \<times> DataBlob) set" where
  "blob_set idx segs = (SIGMA q:segment_seq ` set (descriptors idx). set (segs q))"

lemma rotated_segs_rep:
  assumes rep: "segs_rep E s disk idx segs" and n: "unat (next_segment_seq idx) < 2 ^ 32"
    and room: "length (descriptors idx) < MAX_MAINTENANCE_METADATA_RECORDS"
  defines "q \<equiv> ucast (next_segment_seq idx) :: u32"
  shows "segs_rep E (rotated_store E idx s) (rotated idx) (rotated idx) (segs(q := []))"
    "blob_set (rotated idx) (segs(q := [])) = blob_set idx segs" "data_step s (rotated_store E idx s)"
proof -
  let ?s = "rotated_store E idx s" and ?segs = "segs(q := [])"
  have inv: "index_inv idx" and blobs: "blobs_rep E s idx segs"
    and above: "\<And>q. unat (next_segment_seq idx) \<le> unat q \<Longrightarrow> data_cache s (Data_Segment q) = None"
    using rep by (simp_all add: segs_rep_def)
  have q: "unat q = unat (next_segment_seq idx)" unfolding q_def by (rule unat_ucast_u32 [OF n])
  have old: "segment_seq x \<noteq> q" if "x \<in> set (descriptors idx)" for x using inv that q by (auto simp: index_inv_def)
  have "length (map segment_seq (descriptors (rotated idx))) = length (descriptors idx) + 1"
    unfolding rotated_maps by simp
  then have len: "length (descriptors (rotated idx)) \<le> MAX_MAINTENANCE_METADATA_RECORDS" using room by simp
  have disk: "index_disk E ?s (rotated idx)"
    using len index_encode_fits [OF len] unfolding index_disk_def
    by (intro conjI exI [of _ "header_new E KSegmentIndex 7 (next_segment_seq (rotated idx)) (index_encode (rotated idx))"]
        sealed_header_new)
      (auto simp: rotated_store_def Let_def MAX_MAINTENANCE_METADATA_BYTES_def)
  have new: "data_seg E ?s (Data_Segment q) []"
    using above q
    by (auto simp: data_seg_def seg_payload_def shaped_def rotated_store_def q_def Let_def append_cache_ok_def
        data_cache_valid_def intro!: exI [of _ "header_new E KData (ucast q) 0 []"])
  have keep: "data_seg E ?s (Data_Segment r) bs = data_seg E s (Data_Segment r) bs" if "r \<noteq> q" for r bs
    by (rule data_seg_local) (use that in \<open>simp_all add: rotated_store_def q_def Let_def\<close>)
  have "blobs_rep E ?s (rotated idx) ?segs" unfolding blobs_rep_def
  proof
    fix d assume "d \<in> set (descriptors (rotated idx))"
    from rotated_mem [OF this] show "data_seg E ?s (Data_Segment (segment_seq d)) (?segs (segment_seq d)) \<and>
      payload_bytes d = of_nat (length (seg_payload (?segs (segment_seq d)))) \<and>
      (\<forall>b\<in>set (?segs (segment_seq d)). contains_blob d (db_blob_id b))"
      by (elim disjE bexE)
        (use new blobs old keep in \<open>simp_all add: q_def [symmetric] seg_payload_def [of "[]"] blobs_rep_def\<close>)
  qed
  moreover have "unat (next_segment_seq (rotated idx)) = unat (next_segment_seq idx) + 1"
    using n by (simp add: rotated_def unat_word_ariths)
  ultimately show "segs_rep E ?s (rotated idx) (rotated idx) ?segs"
    using disk rotated_inv(1) [OF inv n] above by (simp add: segs_rep_def rotated_store_def Let_def)
  have "segment_seq ` set (descriptors (rotated idx)) = insert q (segment_seq ` set (descriptors idx))"
    using arg_cong [OF rotated_maps(2) [of idx], of set] by (auto simp: q_def)
  then show "blob_set (rotated idx) ?segs = blob_set idx segs"
    using old by (auto simp: blob_set_def split: if_splits)
  show "data_step s ?s" by (auto simp: data_step_def rotated_store_def Let_def)
qed

lemma seg_payload_snoc:
  "seg_payload (bs @ [b]) = appended_payload DATA_LOG_PREFIX (seg_payload bs)
     [encode_data_blob_header (db_blob_id b) (db_codec b) (db_logical_len b) (db_stored_len b) (db_payload_checksum b),
      db_bytes b]"
  by (simp add: seg_payload_def appended_payload_def blob_encode_def encode_data_blob_record_def DATA_LOG_PREFIX_def)

lemma append_blob_seg:
  assumes seg: "data_seg E s f bs" and c: "data_cache s f = Some c" "dc_blobs c = metas 100 bs"
    and b: "blob_ok E b" "db_bytes b \<noteq> []" "\<forall>x\<in>set bs. db_blob_id x < db_blob_id b"
    and E: "write_vectored_ok E" and len: "length (seg_payload bs) + length (db_bytes b) < 2 ^ 63"
  shows "\<exists>h s1 s2. append_segment_payload_parts E f KData 1 DATA_LOG_PREFIX
      [encode_data_blob_header (db_blob_id b) (db_codec b) (db_logical_len b) (db_stored_len b) (db_payload_checksum b),
       db_bytes b] en s = (Ok h, s1) \<and>
    push_blob_meta E f h \<lparr>mt_blob_id = db_blob_id b, mt_codec = db_codec b, mt_logical_len = db_logical_len b,
      mt_stored_len = db_stored_len b, mt_payload_checksum = db_payload_checksum b,
      mt_payload_offset = segment_payload_offset h + payload_len h - ucast (db_stored_len b),
      mt_v2_integrity = True\<rparr> s1 = (Ok (), s2) \<and>
    data_seg E s2 f (bs @ [b]) \<and> payload_len h = of_nat (length (seg_payload (bs @ [b]))) \<and>
    frame f s s1 \<and> (\<exists>c. s2 = data_cache_update (\<lambda>m. m(f := Some c)) s1)"
proof -
  let ?hd = "encode_data_blob_header (db_blob_id b) (db_codec b) (db_logical_len b) (db_stored_len b) (db_payload_checksum b)"
  let ?parts = "[?hd, db_bytes b]" and ?p = "seg_payload (bs @ [b])"
  obtain h0 where h0: "shaped E s f h0 (seg_payload bs)" "kind h0 = KData" and app: "append_cache_ok E s f"
    and ok: "list_all (blob_ok E) bs" and srt: "sorted_wrt (<) (map db_blob_id bs)"
    using seg by (auto simp: data_seg_def)
  have hd: "?hd \<noteq> []" using length_blob_header by (metis list.size(3) zero_neq_numeral)
  have parts: "write_all_parts E ?parts = (Ok (), concat ?parts)" "concat ?parts \<noteq> []"
    using write_all_parts_complete [OF E, of ?parts] hd b(2) by auto
  have pre: "seg_payload bs = [] \<or> prefix DATA_LOG_PREFIX (seg_payload bs)" by (simp add: seg_payload_def)
  have fits: "length DATA_LOG_PREFIX + length (seg_payload bs) + length (concat ?parts) + 96 < 2 ^ 64"
    using len by (simp add: DATA_LOG_PREFIX_def)
  obtain h s1 where h: "append_segment_payload_parts E f KData 1 DATA_LOG_PREFIX ?parts en s = (Ok h, s1)"
    "shaped E s1 f h ?p" "kind h = KData" "append_cache_ok E s1 f" "frame f s s1"
    using append_segment_run [OF h0 app pre parts fits, of 1 en, folded seg_payload_snoc] by blast
  let ?buf = "segment_headers E h @ ?p"
  have buf: "files s1 f = Some ?buf" "version h = STORAGE_LAYOUT_VERSION" "payload_len h = of_nat (length ?p)"
    using h(2) by (simp_all add: shaped_def)
  let ?n = "length (concat (map blob_encode bs))"
  let ?m = "\<lparr>mt_blob_id = db_blob_id b, mt_codec = db_codec b, mt_logical_len = db_logical_len b,
      mt_stored_len = db_stored_len b, mt_payload_checksum = db_payload_checksum b,
      mt_payload_offset = segment_payload_offset h + payload_len h - ucast (db_stored_len b), mt_v2_integrity = True\<rparr>"
  have st: "(ucast (db_stored_len b) :: u64) = of_nat (length (db_bytes b))"
    using b(1) unfolding blob_ok_def by (metis of_nat_unat)
  have "?m = meta_at (100 + ?n) b"
    using buf by (simp add: meta_at_def st seg_payload_def segment_payload_offset_def header_sizes DATA_LOG_PREFIX_def
        del: length_concat)
  then have metas: "metas 100 bs @ [?m] = metas 100 (bs @ [b])" by (simp add: metas_append)
  let ?c = "\<lparr>dc_stamp = (if trust_hot_cache E then dc_stamp c else ?buf), dc_sequence = sequence h,
      dc_blobs = metas 100 bs @ [?m], dc_is_log_format = True\<rparr>"
  let ?s2 = "data_cache_update (\<lambda>m. m(f := Some ?c)) s1"
  have "data_cache s1 f = Some c" using frame_data [OF h(5)] c by simp
  then have "push_blob_meta E f h ?m s1 = (Ok (), ?s2)"
    using buf c by (simp add: push_blob_meta_def data_cache_entry_def set_data_cache_def file_stamp_def bind_s_def)
  moreover have "data_seg E ?s2 f (bs @ [b])"
    using h(2,3,4) ok srt b(1,3) metas append_cache_ok_local [of ?s2 f s1 E]
    by (auto simp: data_seg_def shaped_def data_cache_valid_def sorted_wrt_append)
  ultimately show ?thesis using h buf by blast
qed

definition store_room :: "SegmentIndex \<Rightarrow> u64 \<Rightarrow> bool" where
  "store_room idx i \<longleftrightarrow> length (descriptors idx) < MAX_MAINTENANCE_METADATA_RECORDS \<and>
     unat (next_segment_seq idx) < 2 ^ 32 \<and> next_blob_id idx = Ok i"

lemma prepare_segs_run:
  assumes rep: "segs_rep E s disk idx segs" and room: "store_room idx i" and len: "n < 2 ^ 64"
  shows "\<exists>disk' idx' d segs' s'. prepare_active_segment_for_append E idx n p s = (Ok (segment_seq d, idx'), s') \<and>
     segs_rep E s' disk' idx' segs' \<and> active_descriptor idx' = Ok d \<and>
     (payload_bytes d = 0 \<or> unat (payload_bytes d) + n < 2 ^ 32) \<and>
     next_blob_id idx' = Ok i \<and> blob_set idx' segs' = blob_set idx segs \<and> data_step s s'"
proof -
  have inv: "index_inv idx" using rep by (simp add: segs_rep_def)
  have n: "unat (next_segment_seq idx) < 2 ^ 32" and l: "length (descriptors idx) < MAX_MAINTENANCE_METADATA_RECORDS"
    and i: "next_blob_id idx = Ok i" using room by (simp_all add: store_room_def)
  obtain idx' d s' where p: "prepare_active_segment_for_append E idx n p s = (Ok (segment_seq d, idx'), s')"
    "active_descriptor idx' = Ok d" "payload_bytes d = 0 \<or> unat (payload_bytes d) + n \<le> unat (max_segment_size idx)"
    "idx' = idx \<and> s' = s \<or> idx' = rotated idx \<and> s' = rotated_store E idx s"
    using prepare_run [OF inv n len] by blast
  have "unat (max_segment_size idx) < 2 ^ 32" using unat_bound [of "max_segment_size idx"] by simp
  then have r: "payload_bytes d = 0 \<or> unat (payload_bytes d) + n < 2 ^ 32" using p(3) by linarith
  have "\<exists>disk' segs'. segs_rep E s' disk' idx' segs' \<and> blob_set idx' segs' = blob_set idx segs \<and>
      data_step s s' \<and> next_blob_id idx' = Ok i"
    using p(4)
  proof (elim disjE conjE)
    assume "idx' = idx" "s' = s"
    then show ?thesis using rep i by (intro exI [of _ disk] exI [of _ segs]) simp
  next
    assume "idx' = rotated idx" "s' = rotated_store E idx s"
    then show ?thesis using rotated_segs_rep [OF rep n l] i rotated_next_blob_id [of idx]
      by (intro exI [of _ "rotated idx"] exI [of _ "segs(ucast (next_segment_seq idx) := [])"]) simp
  qed
  then show ?thesis using p r by blast
qed

lemma contains_add_blob:
  assumes "i \<noteq> 0" "last_blob_id d < i"
  shows "contains_blob (descriptor_add_blob n i st c d) i"
    "contains_blob d j \<Longrightarrow> contains_blob (descriptor_add_blob n i st c d) j"
  using assms by (auto simp: contains_blob_def descriptor_add_blob_def word_gt_0)

text \<open>The blob lists after the active segment got one more.\<close>

lemma record_segs_rep:
  assumes rep: "segs_rep E s disk idx segs" and act: "active_descriptor idx = Ok d"
    and i: "next_blob_id idx = Ok i" "db_blob_id b = i"
    and seg: "data_seg E s' (Data_Segment (segment_seq d)) (segs (segment_seq d) @ [b])"
    and other: "\<And>g. g \<noteq> Data_Segment (segment_seq d) \<Longrightarrow> g \<noteq> Tmp (Data_Segment (segment_seq d)) \<Longrightarrow>
       files s' g = files s g \<and> append_file_cache s' g = append_file_cache s g \<and> data_cache s' g = data_cache s g"
    and n: "n = of_nat (length (seg_payload (segs (segment_seq d) @ [b])))"
  defines "segs' \<equiv> segs(segment_seq d := segs (segment_seq d) @ [b])"
  shows "\<exists>idx'. record_blob_append idx (segment_seq d) n i st c = Ok idx' \<and> segs_rep E s' disk idx' segs' \<and>
     blob_set idx' segs' = insert (segment_seq d, b) (blob_set idx segs)"
proof -
  let ?add = "descriptor_add_blob n i st c"
  let ?f = "\<lambda>x. if segment_seq x = segment_seq d then ?add x else x"
  have inv: "index_inv idx" and cov: "index_covers disk idx" and blobs: "blobs_rep E s idx segs"
    using rep by (simp_all add: segs_rep_def)
  have fresh: "i \<noteq> 0" "\<forall>x\<in>set (descriptors idx). last_blob_id x < i" using next_blob_id_fresh [OF i(1)] by simp_all
  from record_blob_run [OF inv act fresh, of n st c]
  obtain idx' where r: "record_blob_append idx (segment_seq d) n i st c = Ok idx'" "index_inv idx'"
    "descriptors idx' = map ?f (descriptors idx)" "next_segment_seq idx' = next_segment_seq idx" by blast
  have d: "d \<in> set (descriptors idx)" using act active_descriptor_inv [OF inv] by force
  have f: "segment_seq (?f x) = segment_seq x" "x \<in> set (descriptors idx) \<Longrightarrow> contains_blob x j \<Longrightarrow> contains_blob (?f x) j"
    for x j using contains_add_blob(2) [OF fresh(1), of x] fresh(2) by (auto simp: descriptor_add_blob_def)
  have "index_covers disk idx'" unfolding index_covers_def r(3) list_all2_map2
    using cov f unfolding index_covers_def by (auto simp: list_all2_conv_all_nth)
  moreover have "index_disk E s' disk" using rep other [of Segment_Index_File]
    by (simp add: segs_rep_def index_disk_def sealed_def shaped_def)
  moreover have "blobs_rep E s' idx' segs'" unfolding blobs_rep_def r(3)
  proof (clarsimp simp only: set_map ball_simps)
    fix x assume x: "x \<in> set (descriptors idx)"
    show "data_seg E s' (Data_Segment (segment_seq (?f x))) (segs' (segment_seq (?f x))) \<and>
        payload_bytes (?f x) = of_nat (length (seg_payload (segs' (segment_seq (?f x))))) \<and>
        (\<forall>y\<in>set (segs' (segment_seq (?f x))). contains_blob (?f x) (db_blob_id y))"
    proof (cases "segment_seq x = segment_seq d")
      case True
      then show ?thesis using seg n x blobs f(2) [OF x] contains_add_blob(1) [OF fresh(1), of x] fresh(2) i(2)
        by (auto simp: segs'_def blobs_rep_def descriptor_add_blob_def)
    next
      case False
      then show ?thesis using x blobs data_seg_local [of s' "Data_Segment (segment_seq x)" s E] other
        by (simp add: segs'_def blobs_rep_def)
    qed
  qed
  moreover have "data_cache s' (Data_Segment q) = None" if "unat (next_segment_seq idx) \<le> unat q" for q
  proof -
    have "unat (segment_seq d) < unat (next_segment_seq idx)" using inv d by (simp add: index_inv_def)
    then have "q \<noteq> segment_seq d" using that by auto
    then show ?thesis using that rep other [of "Data_Segment q"] by (simp add: segs_rep_def)
  qed
  ultimately have "segs_rep E s' disk idx' segs'" using r by (simp add: segs_rep_def)
  moreover have "map segment_seq (descriptors idx') = map segment_seq (descriptors idx)"
    by (simp only: r(3) map_map comp_def f(1))
  then have "segment_seq ` set (descriptors idx') = segment_seq ` set (descriptors idx)" by (metis list.set_map)
  then have "blob_set idx' segs' = insert (segment_seq d, b) (blob_set idx segs)"
    unfolding blob_set_def using d by (auto simp: segs'_def split: if_splits)
  ultimately show ?thesis using r(1) by blast
qed

lemma store_index_run:
  "store_segment_index_for_append idx s = (Ok (), segment_index_cache_update (\<lambda>_. Some
     \<lparr>si_index = idx, si_dirty = True,
      si_generation = (case segment_index_cache s of None \<Rightarrow> 1 | Some c \<Rightarrow> saturating_add (si_generation c) 1),
      si_stamp = (case segment_index_cache s of None \<Rightarrow> None | Some c \<Rightarrow> si_stamp c)\<rparr>) s)"
  by (simp add: store_segment_index_for_append_def set_index_cache_def)

lemma segs_rep_index_cache: "segs_rep E (segment_index_cache_update g s) disk idx segs = segs_rep E s disk idx segs"
  using data_seg_local [of "segment_index_cache_update g s" _ s E]
  by (simp add: segs_rep_def index_disk_def sealed_def shaped_def blobs_rep_def)

definition new_blob :: "externs \<Rightarrow> u64 \<Rightarrow> CompressionCodec \<Rightarrow> u32 \<Rightarrow> bytes \<Rightarrow> DataBlob" where
  "new_blob E i codec logical encoded =
     \<lparr>db_blob_id = i, db_codec = codec, db_logical_len = logical, db_stored_len = of_nat (length encoded),
      db_payload_checksum = blob_integrity_checksum E i logical encoded, db_bytes = encoded\<rparr>"

lemma new_blob_simps [simp]:
  "db_blob_id (new_blob E i codec logical encoded) = i" "db_codec (new_blob E i codec logical encoded) = codec"
  "db_logical_len (new_blob E i codec logical encoded) = logical" "db_bytes (new_blob E i codec logical encoded) = encoded"
  "db_stored_len (new_blob E i codec logical encoded) = of_nat (length encoded)"
  "db_payload_checksum (new_blob E i codec logical encoded) = blob_integrity_checksum E i logical encoded"
  by (simp_all add: new_blob_def)

text \<open>The part of an append after the segment is chosen.\<close>

lemma append_active_run:
  assumes rep: "segs_rep E s disk idx segs" and act: "active_descriptor idx = Ok d" and i: "next_blob_id idx = Ok i"
    and room: "payload_bytes d = 0 \<or> unat (payload_bytes d) + (24 + length encoded) < 2 ^ 32"
    and enc: "encoded \<noteq> []" "length encoded < 2 ^ 32" and E: "write_vectored_ok E"
  defines "f \<equiv> Data_Segment (segment_seq d)" and "stored \<equiv> of_nat (length encoded) :: u32"
  shows "\<exists>c h s1 s2 idx' segs'. ensure_data_cache_fresh E f s = (Ok (), data_cache_update (\<lambda>m. m(f := Some c)) s) \<and>
    dc_is_log_format c \<and>
    append_segment_payload_parts E f KData 1 DATA_LOG_PREFIX
      [encode_data_blob_header i codec logical stored (blob_integrity_checksum E i logical encoded), encoded]
      en (data_cache_update (\<lambda>m. m(f := Some c)) s) = (Ok h, s1) \<and>
    push_blob_meta E f h \<lparr>mt_blob_id = i, mt_codec = codec, mt_logical_len = logical,
      mt_stored_len = stored, mt_payload_checksum = blob_integrity_checksum E i logical encoded,
      mt_payload_offset = segment_payload_offset h + payload_len h - ucast stored,
      mt_v2_integrity = True\<rparr> s1 = (Ok (), s2) \<and>
    record_blob_append idx (segment_seq d) (payload_len h) i stored codec = Ok idx' \<and>
    segs_rep E s2 disk idx' segs' \<and>
    blob_set idx' segs' = insert (segment_seq d, new_blob E i codec logical encoded) (blob_set idx segs) \<and>
    data_step s s2"
proof -
  let ?b = "new_blob E i codec logical encoded" and ?bs = "segs (segment_seq d)"
  have d: "d \<in> set (descriptors idx)"
    using rep act active_descriptor_inv [of idx] by (force simp: segs_rep_def)
  have seg: "data_seg E s f ?bs" and pb: "payload_bytes d = of_nat (length (seg_payload ?bs))"
    and ids: "\<forall>x\<in>set ?bs. contains_blob d (db_blob_id x)" using rep d by (simp_all add: segs_rep_def blobs_rep_def f_def)
  obtain c where c: "ensure_data_cache_fresh E f s = (Ok (), data_cache_update (\<lambda>m. m(f := Some c)) s)"
    "dc_blobs c = metas 100 ?bs" "dc_is_log_format c" "data_seg E (data_cache_update (\<lambda>m. m(f := Some c)) s) f ?bs"
    using ensure_fresh_run [OF seg] by blast
  let ?s1 = "data_cache_update (\<lambda>m. m(f := Some c)) s"
  have "length (seg_payload ?bs) + 96 < 2 ^ 64" using seg by (auto simp: data_seg_def shaped_def)
  then have "unat (payload_bytes d) = length (seg_payload ?bs)" using pb by (simp add: unat_of_nat_small)
  then have len: "length (seg_payload ?bs) + length (db_bytes ?b) < 2 ^ 63"
    using room enc(2) by (auto simp: word_unat_eq_iff)
  have ok: "blob_ok E ?b" using enc(2) by (simp add: blob_ok_def unat_of_nat_small)
  have cur: "data_cache ?s1 f = Some c" and ne: "db_bytes ?b \<noteq> []" using enc(1) by simp_all
  have "last_blob_id d < i" using next_blob_id_fresh [OF i] d by blast
  then have lt: "\<forall>x\<in>set ?bs. db_blob_id x < db_blob_id ?b" using ids by (auto simp: contains_blob_def)
  obtain h s2 s3 c' where a: "append_segment_payload_parts E f KData 1 DATA_LOG_PREFIX
      [encode_data_blob_header i codec logical stored (blob_integrity_checksum E i logical encoded), encoded]
      en ?s1 = (Ok h, s2)"
    "push_blob_meta E f h \<lparr>mt_blob_id = i, mt_codec = codec, mt_logical_len = logical,
      mt_stored_len = stored, mt_payload_checksum = blob_integrity_checksum E i logical encoded,
      mt_payload_offset = segment_payload_offset h + payload_len h - ucast stored, mt_v2_integrity = True\<rparr> s2 = (Ok (), s3)"
    "data_seg E s3 f (?bs @ [?b])" "payload_len h = of_nat (length (seg_payload (?bs @ [?b])))"
    "frame f ?s1 s2" "s3 = data_cache_update (\<lambda>m. m(f := Some c')) s2"
    using append_blob_seg [OF c(4) cur c(2) ok ne lt E len, of en, unfolded new_blob_simps, folded stored_def] by blast
  have other: "files s3 g = files s g \<and> append_file_cache s3 g = append_file_cache s g \<and> data_cache s3 g = data_cache s g"
    if "g \<noteq> f" "g \<noteq> Tmp f" for g
    using that a(5,6) frame_data [OF a(5)] by (simp add: frame_def others_same_def)
  have "data_step s s3" using data_step_frame [OF a(5)] a(6) data_step_read [OF read_step_data] data_step_trans
    by (metis f_def is_blob_file.simps(2))
  moreover from record_segs_rep [OF rep act i _ a(3) [unfolded f_def] other [unfolded f_def] a(4), of stored codec]
  obtain idx' where "record_blob_append idx (segment_seq d) (payload_len h) i stored codec = Ok idx'"
    "segs_rep E s3 disk idx' (segs(segment_seq d := ?bs @ [?b]))"
    "blob_set idx' (segs(segment_seq d := ?bs @ [?b])) = insert (segment_seq d, ?b) (blob_set idx segs)"
    by auto
  ultimately show ?thesis using c a by blast
qed

text \<open>Appending a blob: it joins the blobs of the layout under a new identifier.\<close>

lemma append_data_blob_run:
  assumes rep: "store_rep E s disk idx segs" and room: "store_room idx i"
    and enc: "encoded \<noteq> []" "length encoded < 2 ^ 32" and E: "write_vectored_ok E"
  shows "\<exists>q disk' idx' segs' s'. append_data_blob E codec logical encoded en s = (Ok (ucast q, i), s') \<and>
    store_rep E s' disk' idx' segs' \<and>
    blob_set idx' segs' = insert (q, new_blob E i codec logical encoded) (blob_set idx segs) \<and> data_step s s'"
proof -
  obtain s0 where s0: "load_segment_index_for_append E s = (Ok idx, s0)" "segs_rep E s0 disk idx segs" "data_step s s0"
    using load_for_append_store [OF rep] data_step_read unfolding store_rep_def by blast
  have len: "DATA_BLOB_HEADER_SIZE + length encoded < 2 ^ 64" using enc(2) by (simp add: DATA_BLOB_HEADER_SIZE_def)
  obtain disk1 idx1 d segs1 s1 where p:
    "prepare_active_segment_for_append E idx (DATA_BLOB_HEADER_SIZE + length encoded) (length DATA_LOG_PREFIX) s0 =
       (Ok (segment_seq d, idx1), s1)"
    "segs_rep E s1 disk1 idx1 segs1" "active_descriptor idx1 = Ok d"
    "payload_bytes d = 0 \<or> unat (payload_bytes d) + (24 + length encoded) < 2 ^ 32"
    "next_blob_id idx1 = Ok i" "blob_set idx1 segs1 = blob_set idx segs" "data_step s0 s1"
    using prepare_segs_run [OF s0(2) room len] unfolding DATA_BLOB_HEADER_SIZE_def by blast
  let ?f = "Data_Segment (segment_seq d)" and ?st = "of_nat (length encoded) :: u32"
  obtain c h s2 s3 idx' segs' where a:
    "ensure_data_cache_fresh E ?f s1 = (Ok (), data_cache_update (\<lambda>m. m(?f := Some c)) s1)" "dc_is_log_format c"
    "append_segment_payload_parts E ?f KData 1 DATA_LOG_PREFIX
      [encode_data_blob_header i codec logical ?st (blob_integrity_checksum E i logical encoded), encoded]
      en (data_cache_update (\<lambda>m. m(?f := Some c)) s1) = (Ok h, s2)"
    "push_blob_meta E ?f h \<lparr>mt_blob_id = i, mt_codec = codec, mt_logical_len = logical, mt_stored_len = ?st,
      mt_payload_checksum = blob_integrity_checksum E i logical encoded,
      mt_payload_offset = segment_payload_offset h + payload_len h - ucast ?st, mt_v2_integrity = True\<rparr> s2 = (Ok (), s3)"
    "record_blob_append idx1 (segment_seq d) (payload_len h) i ?st codec = Ok idx'"
    "segs_rep E s3 disk1 idx' segs'"
    "blob_set idx' segs' = insert (segment_seq d, new_blob E i codec logical encoded) (blob_set idx1 segs1)"
    "data_step s1 s3"
    using append_active_run [OF p(2,3,5,4) enc E] by blast
  let ?s1c = "data_cache_update (\<lambda>m. m(?f := Some c)) s1"
  have "data_cache_entry ?f ?s1c = (Ok c, ?s1c)" by (simp add: data_cache_entry_def)
  moreover have "checked_u32_len (length encoded) ''encoded payload length'' = Ok ?st"
    using enc(2) by (simp add: checked_u32_len_def try_from_nat_def)
  ultimately have run: "append_data_blob E codec logical encoded en s =
      (Ok (ucast (segment_seq d), i), snd (store_segment_index_for_append idx' s3))"
    using s0(1) p(1,5) a by (simp add: append_data_blob_def Let_def store_index_run)
  have "store_rep E (snd (store_segment_index_for_append idx' s3)) disk1 idx' segs'"
    unfolding store_index_run store_rep_def index_rep_def snd_conv segs_rep_index_cache
    using a(6) by (simp add: segs_rep_def index_disk_def sealed_def shaped_def)
  moreover have "data_step s (snd (store_segment_index_for_append idx' s3))"
    using s0(3) p(7) a(8) by (simp add: store_index_run data_step_def)
  ultimately show ?thesis using run a(7) p(6) by metis
qed

section \<open>Properties\<close>

lemma scan_loop_ends:
  assumes "(unat payload_end - unat off) div 24 < fuel"
  shows "scan_log_loop fuel buf v payload_end off blobs =
    Some (bind_r (scan_log_data_index buf v payload_end off) (\<lambda>rest. Ok (blobs @ rest)))"
  using assms
proof (induction fuel arbitrary: off blobs)
  case (Suc fuel)
  note scan = scan_log_data_index.simps [of buf v payload_end off]
  show ?case
  proof (cases "read_blob_meta buf v off")
    case (Inr meta)
    show ?thesis
    proof (cases "checked_blob_next_offset off (mt_stored_len meta) payload_end")
      case (Inr n)
      then have "unat n = unat off + 24 + unat (mt_stored_len meta)" "unat n \<le> unat payload_end"
        using checked_blob_next_offset_Ok by blast+
      then have "(unat payload_end - unat n) div 24 < fuel" using Suc.prems by linarith
      from Suc.IH [OF this, of "blobs @ [meta]"] show ?thesis using Inr \<open>read_blob_meta buf v off = Inr meta\<close>
        by (cases "scan_log_data_index buf v payload_end n") (auto simp: scan)
    qed (use Inr in \<open>auto simp: scan\<close>)
  qed (auto simp: scan)
qed simp

text \<open>
  C39: The scan of a data segment ends on every file content, damaged or not: the
  loop needs at most one iteration more than the payload has room for record
  headers, and what it collects is what the recursive description gives.
\<close>

theorem scan_terminates:
  "scan_log_loop (Suc ((unat payload_end - unat off) div 24)) buf v payload_end off [] =
     Some (scan_log_data_index buf v payload_end off)"
  using scan_loop_ends [of payload_end off "Suc ((unat payload_end - unat off) div 24)" buf v "[]"]
  by (cases "scan_log_data_index buf v payload_end off") simp_all

end
