(* ===== verification/Data_Path.thy ===== *)
theory Data_Path
  imports Data_Blob Metadata Reclaim
begin

text \<open>
  The data path of a cartridge (\<^verbatim>\<open>storage/data_path.rs\<close>): writing a logical
  block through deduplication, compression, blob store, block map and lookup
  table under the checkpoint page, reading one back, unmapping a range,
  flushing, and the reset before a cartridge is overwritten.  The timing
  trace of a write only prints and is left out.
\<close>

section \<open>Options and reports\<close>

record WriteOptions =
  dedup_enabled :: bool
  preferred_codec :: CompressionCodec
  force_sync :: bool
  payload_checksum_enabled :: bool

definition write_options_default :: WriteOptions where
  "write_options_default =
     \<lparr>dedup_enabled = True, preferred_codec = Lz4, force_sync = False, payload_checksum_enabled = True\<rparr>"

definition throughput_default :: WriteOptions where
  "throughput_default =
     \<lparr>dedup_enabled = False, preferred_codec = CodecNone, force_sync = False, payload_checksum_enabled = False\<rparr>"

datatype IngestFailpoint = AfterDirtyCheckpoint | AfterBlobPersist | AfterBlkMapAppend | AfterLookupAppend

record WriteReport =
  wr_record_id :: u64
  wr_dedup_entry_id :: u64
  wr_dedup_hit :: bool
  wr_collision_detected :: bool
  wr_codec_used :: CompressionCodec
  wr_checkpoint_epoch :: u64

record LogicalReadResult =
  lr_record_id :: u64
  lr_logical_start :: u64
  lr_logical_len :: u32
  lr_dedup_entry_id :: u64
  lr_codec_used :: CompressionCodec
  lr_payload :: bytes

record UnmapReport =
  um_requested_start :: u64
  um_requested_len :: u32
  um_staled_record_ids :: "u64 list"
  um_dedup_refcount_decrements :: u32
  um_reclaim_safe_promotions :: u32

section \<open>Checkpoint and pending writes\<close>

definition set_checkpoint_cache :: "MetadataCheckpoint option \<Rightarrow> ('z data_store_scheme, 'e, unit) stm" where
  "set_checkpoint_cache c = modify_s (checkpoint_cache_update (\<lambda>_. c))"

definition load_checkpoint_cached :: "externs \<Rightarrow> ('z data_store_scheme, StorageError, MetadataCheckpoint) stm" where
  "load_checkpoint_cached E s =
     (case (if trust_hot_cache E then checkpoint_cache s else None) of
        Some c \<Rightarrow> (Ok c, s)
      | None \<Rightarrow>
          bind_s (load_checkpoint_page E Metadata_File) (\<lambda>c.
          bind_s (set_checkpoint_cache (Some c)) (\<lambda>_. ret_s c)) s)"

definition persist_checkpoint_cached ::
  "externs \<Rightarrow> MetadataCheckpoint \<Rightarrow> ('z data_store_scheme, StorageError, unit) stm" where
  "persist_checkpoint_cached E c =
     bind_s (persist_checkpoint_page E Metadata_File c) (\<lambda>_. set_checkpoint_cache (Some c))"

definition next_epoch :: "CheckpointFlags \<Rightarrow> MetadataCheckpoint \<Rightarrow> MetadataCheckpoint" where
  "next_epoch fl c = c\<lparr>epoch := saturating_add (epoch c) 1, flags := fl\<rparr>"

definition mark_checkpoint_dirty :: "externs \<Rightarrow> ('z data_store_scheme, StorageError, MetadataCheckpoint) stm" where
  "mark_checkpoint_dirty E =
     bind_s (load_checkpoint_cached E) (\<lambda>c.
     if flags c = Clean
     then bind_s (persist_checkpoint_cached E (next_epoch Dirty c)) (\<lambda>_. ret_s (next_epoch Dirty c))
     else ret_s c)"

definition mark_checkpoint_clean :: "externs \<Rightarrow> ('z data_store_scheme, StorageError, MetadataCheckpoint) stm" where
  "mark_checkpoint_clean E =
     bind_s (load_checkpoint_cached E) (\<lambda>c.
     bind_s (persist_checkpoint_cached E (next_epoch Clean c)) (\<lambda>_. ret_s (next_epoch Clean c)))"

definition invalidate_checkpoint_cache :: "('z data_store_scheme, StorageError, unit) stm" where
  "invalidate_checkpoint_cache = set_checkpoint_cache None"

definition current_checkpoint :: "externs \<Rightarrow> ('z data_store_scheme, StorageError, MetadataCheckpoint) stm" where
  "current_checkpoint E = load_checkpoint_cached E"

definition DEFAULT_SYNC_EVERY_WRITES :: u32 where "DEFAULT_SYNC_EVERY_WRITES = 64"

definition sync_every_writes :: "externs \<Rightarrow> u32" where
  "sync_every_writes E =
     (case env_var E ''HOLO_STORAGE_SYNC_EVERY_WRITES'' of
        None \<Rightarrow> DEFAULT_SYNC_EVERY_WRITES
      | Some raw \<Rightarrow>
          (case parse_word raw of
             Some v \<Rightarrow> if 0 < v then v else DEFAULT_SYNC_EVERY_WRITES
           | None \<Rightarrow> DEFAULT_SYNC_EVERY_WRITES))"

definition pending_count :: "'z data_store_scheme \<Rightarrow> u32" where
  "pending_count s = (case pending_sync_writes s of Some n \<Rightarrow> n | None \<Rightarrow> 0)"

definition record_pending_write :: "('z data_store_scheme, StorageError, u32) stm" where
  "record_pending_write s =
     (let n = saturating_add (pending_count s) 1 in (Ok n, pending_sync_writes_update (\<lambda>_. Some n) s))"

definition clear_pending_writes :: "('z data_store_scheme, StorageError, unit) stm" where
  "clear_pending_writes = modify_s (pending_sync_writes_update (\<lambda>_. None))"

section \<open>Synchronisation\<close>

text \<open>An open append handle is synced; otherwise the file is opened, which needs it to exist.\<close>

definition sync_segment_file :: "layout_file \<Rightarrow> ('z segment_store_scheme, StorageError, unit) stm" where
  "sync_segment_file f s =
     (if append_file_cache s f = None \<and> files s f = None then (Err (Io IoNotFound), s) else (Ok (), s))"

definition sync_blk_map :: "('z segment_store_scheme, StorageError, unit) stm" where
  "sync_blk_map = sync_segment_file Blk_Map_File"

definition sync_lookup :: "('z segment_store_scheme, StorageError, unit) stm" where
  "sync_lookup = sync_segment_file Lookup_File"

definition sync_dedup :: "('z segment_store_scheme, StorageError, unit) stm" where
  "sync_dedup = sync_segment_file Dedup_File"

definition sync_layout_segments :: "externs \<Rightarrow> ('z data_store_scheme, StorageError, unit) stm" where
  "sync_layout_segments E =
     bind_s (sync_indexed_segments E) (\<lambda>_.
     bind_s (flush_segment_index_for_append E) (\<lambda>_.
     bind_s (sync_segment_file Segment_Index_File) (\<lambda>_.
     bind_s sync_blk_map (\<lambda>_.
     bind_s sync_lookup (\<lambda>_.
     sync_dedup)))))"

definition flush_pending_writes :: "externs \<Rightarrow> ('z data_store_scheme, StorageError, bool) stm" where
  "flush_pending_writes E =
     bind_s (load_checkpoint_cached E) (\<lambda>c s.
     if pending_count s = 0 \<and> flags c = Clean then (Ok False, s)
     else
       bind_s (sync_layout_segments E) (\<lambda>_.
       bind_s (persist_checkpoint_cached E (next_epoch Clean c)) (\<lambda>_.
       bind_s clear_pending_writes (\<lambda>_. ret_s True))) s)"

section \<open>Writing a block\<close>

definition DEFAULT_DEDUP_COLD_LOAD_MAX_BYTES :: u64 where
  "DEFAULT_DEDUP_COLD_LOAD_MAX_BYTES = 8 * 1024 * 1024"

definition dedup_cold_load_max_bytes :: "externs \<Rightarrow> u64 option" where
  "dedup_cold_load_max_bytes E =
     (let limit =
        (case env_var E ''HOLO_TAPE_DEDUP_COLD_LOAD_MAX_BYTES'' of
           None \<Rightarrow> DEFAULT_DEDUP_COLD_LOAD_MAX_BYTES
         | Some raw \<Rightarrow>
             (case parse_word raw of Some v \<Rightarrow> v | None \<Rightarrow> DEFAULT_DEDUP_COLD_LOAD_MAX_BYTES)) in
      if limit = 0 then None else Some limit)"

definition should_skip_cold_dedup :: "externs \<Rightarrow> 'z data_store_scheme \<Rightarrow> bool" where
  "should_skip_cold_dedup E s \<longleftrightarrow>
     \<not> dedup_cache_ready s \<and>
     (case dedup_cold_load_max_bytes E of
        None \<Rightarrow> False
      | Some limit \<Rightarrow>
          (case files s Dedup_File of None \<Rightarrow> False | Some buf \<Rightarrow> unat limit < length buf))"

definition prepare_payload_for_write ::
  "externs \<Rightarrow> CompressionCodec \<Rightarrow> bytes \<Rightarrow> (StorageError, CompressionCodec \<times> bytes \<times> bool) result" where
  "prepare_payload_for_write E codec payload =
     (case codec of CodecNone \<Rightarrow> Ok (CodecNone, payload, False) | _ \<Rightarrow> compress_payload E codec payload)"

text \<open>
  Where a payload was put: the deduplication entry, the blob, its codec and
  stored length, the segment, and what the deduplication index said.
\<close>

record placed =
  pl_entry :: u64
  pl_blob :: u64
  pl_codec :: CompressionCodec
  pl_stored :: u32
  pl_segment :: u64
  pl_hit :: bool
  pl_collision :: bool

definition append_new_blob ::
  "externs \<Rightarrow> WriteOptions \<Rightarrow> bytes \<Rightarrow> u32 \<Rightarrow> ('z data_store_scheme, StorageError, placed) stm" where
  "append_new_blob E opts payload logical =
     bind_s (lift_s (prepare_payload_for_write E (preferred_codec opts) payload)) (\<lambda>(codec, encoded, _).
     bind_s (lift_s (checked_u32_len (length encoded) ''encoded payload length'')) (\<lambda>stored.
     bind_s (append_data_blob E codec logical encoded (payload_checksum_enabled opts)) (\<lambda>(sid, bid).
     ret_s \<lparr>pl_entry = 0, pl_blob = bid, pl_codec = codec, pl_stored = stored, pl_segment = sid,
            pl_hit = False, pl_collision = False\<rparr>)))"

definition new_dedup_entry :: "u64 \<times> u64 \<Rightarrow> u32 \<Rightarrow> u32 \<Rightarrow> placed \<Rightarrow> DedupIndexEntry" where
  "new_dedup_entry fp cks logical p =
     \<lparr>entry_id = 0, fingerprint_hi = fst fp, fingerprint_lo = snd fp, de_payload_checksum = cks,
      de_logical_len = logical, stored_blob_id = pl_blob p, stored_len = pl_stored p,
      de_compression = pl_codec p, identity_version = DEDUP_IDENTITY_BLAKE3_128, ref_count = 1\<rparr>"

text \<open>The place of a blob that an entry already refers to.\<close>

definition place_existing ::
  "externs \<Rightarrow> DedupIndexEntry \<Rightarrow> bool \<Rightarrow> ('z data_store_scheme, StorageError, placed) stm" where
  "place_existing E entry collision =
     bind_s (locate_blob_segment_id E (stored_blob_id entry)) (\<lambda>sid.
     ret_s \<lparr>pl_entry = entry_id entry, pl_blob = stored_blob_id entry, pl_codec = de_compression entry,
            pl_stored = stored_len entry, pl_segment = sid, pl_hit = True, pl_collision = collision\<rparr>)"

definition place_dedup_hit ::
  "externs \<Rightarrow> DedupIndexEntry \<Rightarrow> ('z data_store_scheme, StorageError, placed) stm" where
  "place_dedup_hit E entry =
     bind_s (upsert_dedup_entry E
       (entry\<lparr>entry_id := 0, identity_version := DEDUP_IDENTITY_BLAKE3_128, ref_count := 1\<rparr>)) (\<lambda>_.
     place_existing E entry False)"

definition place_dedup_mismatch ::
  "externs \<Rightarrow> WriteOptions \<Rightarrow> bytes \<Rightarrow> u32 \<Rightarrow> u64 \<times> u64 \<Rightarrow> u32 \<Rightarrow>
   ('z data_store_scheme, StorageError, placed) stm" where
  "place_dedup_mismatch E opts payload logical fp cks =
     bind_s (append_new_blob E opts payload logical) (\<lambda>p.
     bind_s (insert_dedup_collision_entry E (new_dedup_entry fp cks logical p)) (\<lambda>inserted.
     ret_s (p\<lparr>pl_entry := entry_id inserted, pl_collision := True\<rparr>)))"

definition place_dedup_new ::
  "externs \<Rightarrow> WriteOptions \<Rightarrow> bytes \<Rightarrow> u32 \<Rightarrow> u64 \<times> u64 \<Rightarrow> u32 \<Rightarrow> bool \<Rightarrow>
   ('z data_store_scheme, StorageError, placed) stm" where
  "place_dedup_new E opts payload logical fp cks collision =
     bind_s (append_new_blob E opts payload logical) (\<lambda>p.
     bind_s (upsert_dedup_entry E (new_dedup_entry fp cks logical p)) (\<lambda>r.
     case r of
       UpsertHit entry \<Rightarrow> place_existing E entry collision
     | Inserted entry \<Rightarrow> ret_s (p\<lparr>pl_entry := entry_id entry, pl_collision := collision\<rparr>)
     | CollisionInserted entry \<Rightarrow> ret_s (p\<lparr>pl_entry := entry_id entry, pl_collision := True\<rparr>)))"

definition place_payload ::
  "externs \<Rightarrow> WriteOptions \<Rightarrow> bytes \<Rightarrow> u32 \<Rightarrow> u32 \<Rightarrow> ('z data_store_scheme, StorageError, placed) stm" where
  "place_payload E opts payload logical cks s =
     (if dedup_enabled opts \<and> \<not> should_skip_cold_dedup E s
      then
        let fp = fingerprint128 E payload in
        bind_s (lookup_identity E (fst fp, snd fp, cks, logical)) (\<lambda>identity.
        case identity of
          Hit entry \<Rightarrow>
            bind_s (if \<not> should_verify_dedup_hit E entry then ret_s True
                    else dedup_entry_matches_payload E entry payload) (\<lambda>same.
            if same then place_dedup_hit E entry
            else place_dedup_mismatch E opts payload logical fp cks)
        | Collision \<Rightarrow> place_dedup_new E opts payload logical fp cks True
        | Miss \<Rightarrow> place_dedup_new E opts payload logical fp cks False) s
      else append_new_blob E opts payload logical s)"

definition interrupt_at ::
  "IngestFailpoint option \<Rightarrow> IngestFailpoint \<Rightarrow> string \<Rightarrow> ('z data_store_scheme, StorageError, unit) stm" where
  "interrupt_at failpoint here what =
     (if failpoint = Some here then err_s (Conflict (''ingest interrupted after '' @ what)) else ret_s ())"

definition block_record :: "externs \<Rightarrow> WriteOptions \<Rightarrow> u64 \<Rightarrow> u32 \<Rightarrow> bytes \<Rightarrow> u32 \<Rightarrow> placed \<Rightarrow> BlkMapRecord" where
  "block_record E opts start logical payload filemarks p =
     \<lparr>record_id = 0, logical_start = start, logical_len = logical, physical_segment_id = pl_segment p,
      physical_offset = pl_blob p, filemark_count = filemarks, blk_state = Active,
      dedup_entry_id = pl_entry p, compression = pl_codec p, compressed_len = pl_stored p,
      payload_checksum = (if payload_checksum_enabled opts then integrity32 E payload else 0),
      payload_checksum_algorithm = (if payload_checksum_enabled opts then Crc32c else AlgNone)\<rparr>"

definition lookup_for :: "BlkMapRecord \<Rightarrow> MapLookupRecord" where
  "lookup_for r =
     \<lparr>lookup_id = 0, logical_min = logical_start r, logical_max = logical_end r - 1,
      blk_map_ref_start = record_id r, blk_map_ref_end = record_id r\<rparr>"

definition finish_write ::
  "externs \<Rightarrow> WriteOptions \<Rightarrow> IngestFailpoint option \<Rightarrow> MetadataCheckpoint \<Rightarrow>
   ('z data_store_scheme, StorageError, MetadataCheckpoint) stm" where
  "finish_write E opts failpoint c =
     bind_s record_pending_write (\<lambda>pending.
     if force_sync opts \<or> sync_every_writes E \<le> pending \<or> failpoint \<noteq> None
     then
       bind_s (sync_layout_segments E) (\<lambda>_.
       bind_s (persist_checkpoint_cached E (next_epoch Clean c)) (\<lambda>_.
       bind_s clear_pending_writes (\<lambda>_. ret_s (next_epoch Clean c))))
     else ret_s c)"

definition write_logical_block ::
  "externs \<Rightarrow> u64 \<Rightarrow> bytes \<Rightarrow> u32 \<Rightarrow> WriteOptions \<Rightarrow> IngestFailpoint option \<Rightarrow>
   ('z data_store_scheme, StorageError, WriteReport) stm" where
  "write_logical_block E start payload filemarks opts failpoint =
     (if payload = [] then err_s (Conflict ''logical payload cannot be empty'')
      else
        bind_s (mark_checkpoint_dirty E) (\<lambda>c.
        bind_s (interrupt_at failpoint AfterDirtyCheckpoint ''dirty checkpoint'') (\<lambda>_.
        bind_s (lift_s (checked_u32_len (length payload) ''logical payload length'')) (\<lambda>logical.
        bind_s (place_payload E opts payload logical
          (if payload_checksum_enabled opts then checksum32 payload else 0)) (\<lambda>p.
        bind_s (interrupt_at failpoint AfterBlobPersist ''blob persist'') (\<lambda>_.
        bind_s (append_blk_map_record E (block_record E opts start logical payload filemarks p)) (\<lambda>appended.
        bind_s (interrupt_at failpoint AfterBlkMapAppend ''blk_map append'') (\<lambda>_.
        bind_s (append_lookup_record E (lookup_for appended)) (\<lambda>_.
        bind_s (interrupt_at failpoint AfterLookupAppend ''lookup append'') (\<lambda>_.
        bind_s (finish_write E opts failpoint c) (\<lambda>c'.
        ret_s \<lparr>wr_record_id = record_id appended, wr_dedup_entry_id = pl_entry p, wr_dedup_hit = pl_hit p,
               wr_collision_detected = pl_collision p, wr_codec_used = pl_codec p,
               wr_checkpoint_epoch = epoch c'\<rparr>)))))))))))"

section \<open>Reading a block\<close>

definition verify_logical_payload_checksum ::
  "externs \<Rightarrow> PayloadChecksumAlgorithm \<Rightarrow> u32 \<Rightarrow> bytes \<Rightarrow> (StorageError, unit) result" where
  "verify_logical_payload_checksum E alg want payload =
     (if (case alg of
            AlgNone \<Rightarrow> True
          | Fnv1a32 \<Rightarrow> checksum32 payload = want
          | Crc32c \<Rightarrow> integrity32 E payload = want)
      then Ok () else Err (Corrupt ''payload checksum mismatch on read''))"

definition decode_block :: "externs \<Rightarrow> BlkMapRecord \<Rightarrow> bytes \<Rightarrow> (StorageError, bytes) result" where
  "decode_block E r b =
     (if compression r = CodecNone
      then if length b \<noteq> unat (logical_len r) then Err (Corrupt ''raw payload length mismatch'') else Ok b
      else decompress_payload E (compression r) b (unat (logical_len r)))"

definition read_logical_block ::
  "externs \<Rightarrow> u64 \<Rightarrow> ('z data_store_scheme, StorageError, LogicalReadResult option) stm" where
  "read_logical_block E block =
     bind_s (locate_logical_block E block) (\<lambda>found.
     case found of
       None \<Rightarrow> ret_s None
     | Some l \<Rightarrow>
         bind_s (locate_active_record E block (blk_map_ref_start l) (blk_map_ref_end l)) (\<lambda>rec.
         case rec of
           None \<Rightarrow> ret_s None
         | Some r \<Rightarrow>
             bind_s (load_blob_by_location E (physical_segment_id r) (physical_offset r)) (\<lambda>blob.
             bind_s (lift_s (decode_block E r (db_bytes blob))) (\<lambda>payload.
             bind_s (lift_s (verify_logical_payload_checksum E (payload_checksum_algorithm r)
               (payload_checksum r) payload)) (\<lambda>_.
             ret_s (Some \<lparr>lr_record_id = record_id r, lr_logical_start = logical_start r,
                          lr_logical_len = logical_len r, lr_dedup_entry_id = dedup_entry_id r,
                          lr_codec_used = compression r, lr_payload = payload\<rparr>))))))"

section \<open>Unmapping a range\<close>

definition unmap_hits :: "u64 \<Rightarrow> u32 \<Rightarrow> BlkMapRecord \<Rightarrow> bool" where
  "unmap_hits start n r \<longleftrightarrow>
     blk_state r = Active \<and> start < logical_end r \<and> logical_start r < saturating_add start (ucast n)"

definition run_unmap :: "externs \<Rightarrow> u64 \<Rightarrow> u32 \<Rightarrow> ('z data_store_scheme, StorageError, UnmapReport) stm" where
  "run_unmap E start n =
     bind_s (load_blk_map_records E) (\<lambda>(_, rs).
     let overlap = filter (unmap_hits start n) rs;
         ids = map record_id overlap;
         entries = filter (\<lambda>i. 0 < i) (map dedup_entry_id overlap) in
     if ids = []
     then ret_s \<lparr>um_requested_start = start, um_requested_len = n, um_staled_record_ids = [],
                 um_dedup_refcount_decrements = 0, um_reclaim_safe_promotions = 0\<rparr>
     else
       bind_s (mark_blk_map_stale_batch E ids) (\<lambda>updated.
       let staled = map record_id updated in
       bind_s (decrement_ref_counts E entries) (\<lambda>decremented.
       bind_s (rebuild_lookup_from_blk_map E) (\<lambda>_.
       bind_s (upsert_reclaim_candidates E staled Truncated) (\<lambda>_.
       bind_s (refresh_reclaim_safety E) (\<lambda>promoted.
       ret_s \<lparr>um_requested_start = start, um_requested_len = n, um_staled_record_ids = staled,
              um_dedup_refcount_decrements = of_nat (length decremented),
              um_reclaim_safe_promotions = of_nat promoted\<rparr>))))))"

definition current_dedup_refcounts :: "externs \<Rightarrow> ('z data_store_scheme, StorageError, (u64 \<times> u32) list) stm" where
  "current_dedup_refcounts E =
     bind_s (load_dedup_index E) (\<lambda>(_, es). ret_s (map (\<lambda>e. (entry_id e, ref_count e)) es))"

section \<open>Dropping caches and resetting a layout\<close>

definition discard_layout_caches :: "('z data_store_scheme, StorageError, unit) stm" where
  "discard_layout_caches =
     bind_s discard_blk_map_cache (\<lambda>_.
     bind_s discard_lookup_cache (\<lambda>_.
     bind_s invalidate_checkpoint_cache (\<lambda>_.
     bind_s clear_pending_writes (\<lambda>_.
     bind_s (modify_s (data_cache_update (\<lambda>_ _. None))) (\<lambda>_.
     bind_s discard_dedup_cache (\<lambda>_.
     invalidate_segment_index_cache))))))"

definition discard_layout_caches_checked :: "('z data_store_scheme, StorageError, unit) stm" where
  "discard_layout_caches_checked =
     bind_s discard_layout_append_handles (\<lambda>_. discard_layout_caches)"

definition data_segment_name :: "u32 \<Rightarrow> string" where
  "data_segment_name q = ''data_'' @ zero_padded 6 (unat q) @ ''.seg''"

definition indexed_data_segment_seq :: "string \<Rightarrow> u32 option" where
  "indexed_data_segment_seq name =
     (if \<not> prefix ''data_'' name \<or> \<not> suffix ''.seg'' name then None
      else
        let digits = take (length name - 9) (drop 5 name) in
        if length digits = 6 \<and> list_all is_ascii_digit digits then parse_word digits else None)"

definition is_indexed_data_segment :: "layout_file \<Rightarrow> bool" where
  "is_indexed_data_segment f \<longleftrightarrow>
     (case f of Data_Segment q \<Rightarrow> indexed_data_segment_seq (data_segment_name q) \<noteq> None | _ \<Rightarrow> False)"

definition remove_data_segment_files :: "('z data_store_scheme, StorageError, unit) stm" where
  "remove_data_segment_files s =
     (let gone = (\<lambda>f. files s f \<noteq> None \<and> (is_indexed_data_segment f \<or> f = Data_File)) in
      (Ok (), files_update (\<lambda>m f. if gone f then None else m f)
        (data_cache_update (\<lambda>m f. if gone f then None else m f) s)))"

definition reset_layout_for_overwrite :: "externs \<Rightarrow> ('z data_store_scheme, StorageError, unit) stm" where
  "reset_layout_for_overwrite E =
     bind_s (load_checkpoint_cached E) (\<lambda>c0.
     let c1 = next_epoch Dirty c0; idx = index_new (configured_max_segment_size E) in
     bind_s (persist_checkpoint_cached E c1) (\<lambda>_.
     bind_s (persist_blk_map_records E []) (\<lambda>_.
     bind_s (persist_lookup_records E []) (\<lambda>_.
     bind_s (write_segment_file E Reclaim_File KReclaim 4 (epoch c1) []) (\<lambda>_.
     bind_s (persist_dedup_entries E []) (\<lambda>_.
     bind_s remove_data_segment_files (\<lambda>_.
     bind_s (write_segment_file E (Data_Segment 0) KData 1 (epoch c1) []) (\<lambda>_.
     bind_s (persist_segment_index E idx) (\<lambda>_.
     bind_s (store_segment_index_clean idx) (\<lambda>_.
     bind_s (update_data_cache (Data_Segment 0) (epoch c1) []) (\<lambda>_.
     bind_s (persist_checkpoint_cached E
       ((next_epoch Clean c1)\<lparr>active_blk_map_root := 2, active_lookup_root := 3\<rparr>)) (\<lambda>_.
     clear_pending_writes))))))))))))"

section \<open>The parts of the state\<close>

text \<open>
  Each component depends on its own files and caches only.  The relations say
  which of these parts two states share; every operation of a component shares
  all parts but its own.
\<close>

definition same_file :: "layout_file \<Rightarrow> 'z segment_store_scheme \<Rightarrow> 'z segment_store_scheme \<Rightarrow> bool" where
  "same_file f s s' \<longleftrightarrow> files s' f = files s f \<and> append_file_cache s' f = append_file_cache s f"

definition same_blk :: "'z data_store_scheme \<Rightarrow> 'z data_store_scheme \<Rightarrow> bool" where
  "same_blk s s' \<longleftrightarrow> same_file Blk_Map_File s s' \<and> blk_map_cache s' = blk_map_cache s"

definition same_lk :: "'z data_store_scheme \<Rightarrow> 'z data_store_scheme \<Rightarrow> bool" where
  "same_lk s s' \<longleftrightarrow> same_file Lookup_File s s' \<and> lookup_cache s' = lookup_cache s"

definition same_dd :: "'z data_store_scheme \<Rightarrow> 'z data_store_scheme \<Rightarrow> bool" where
  "same_dd s s' \<longleftrightarrow> same_file Dedup_File s s' \<and> dedup_cache s' = dedup_cache s"

definition same_blobs :: "'z data_store_scheme \<Rightarrow> 'z data_store_scheme \<Rightarrow> bool" where
  "same_blobs s s' \<longleftrightarrow> (\<forall>f. is_blob_file f \<longrightarrow> same_file f s s') \<and>
     segment_index_cache s' = segment_index_cache s \<and> data_cache s' = data_cache s"

definition same_ckpt :: "'z data_store_scheme \<Rightarrow> 'z data_store_scheme \<Rightarrow> bool" where
  "same_ckpt s s' \<longleftrightarrow> files s' Metadata_File = files s Metadata_File \<and> checkpoint_cache s' = checkpoint_cache s"

lemmas same_defs = same_file_def same_blk_def same_lk_def same_dd_def same_blobs_def same_ckpt_def

lemma others_same_blobs: "others_same f s s' \<Longrightarrow> \<not> is_blob_file f \<Longrightarrow> is_blob_file g \<Longrightarrow> same_file g s s'"
  by (cases "g = f \<or> g = Tmp f") (auto simp: others_same_def same_file_def)

lemma blk_frame_same:
  assumes "blk_frame s s'"
  shows "same_lk s s' \<and> same_dd s s' \<and> same_blobs s s' \<and> same_ckpt s s' \<and> pending_sync_writes s' = pending_sync_writes s"
proof -
  have "lookup_cache s' = lookup_cache s \<and> dedup_cache s' = dedup_cache s \<and> segment_index_cache s' = segment_index_cache s \<and>
      data_cache s' = data_cache s \<and> checkpoint_cache s' = checkpoint_cache s \<and> pending_sync_writes s' = pending_sync_writes s"
    using assms by (cases s, cases s') (simp add: blk_frame_def)
  moreover have "others_same Blk_Map_File s s'" using assms by (simp add: blk_frame_def)
  moreover from this have "\<forall>g. is_blob_file g \<longrightarrow> same_file g s s'" using others_same_blobs by fastforce
  ultimately show ?thesis using assms unfolding same_blobs_def
    by (simp add: same_file_def same_blk_def same_lk_def same_dd_def same_ckpt_def blk_frame_def others_same_def)
qed

lemma lookup_frame_same:
  assumes "lookup_frame s s'"
  shows "same_blk s s' \<and> same_dd s s' \<and> same_blobs s s' \<and> same_ckpt s s' \<and> pending_sync_writes s' = pending_sync_writes s"
proof -
  have "dedup_cache s' = dedup_cache s \<and> segment_index_cache s' = segment_index_cache s \<and>
      data_cache s' = data_cache s \<and> checkpoint_cache s' = checkpoint_cache s \<and> pending_sync_writes s' = pending_sync_writes s"
    using assms by (cases s, cases s') (simp add: lookup_frame_def)
  moreover have "others_same Lookup_File s s'" using assms by (simp add: lookup_frame_def)
  moreover from this have "\<forall>g. is_blob_file g \<longrightarrow> same_file g s s'" using others_same_blobs by fastforce
  ultimately show ?thesis using assms unfolding same_blobs_def
    by (simp add: same_file_def same_blk_def same_lk_def same_dd_def same_ckpt_def lookup_frame_def others_same_def)
qed

lemma dedup_frame_same:
  assumes "dedup_frame s s'"
  shows "same_blk s s' \<and> same_lk s s' \<and> same_blobs s s' \<and> same_ckpt s s' \<and> pending_sync_writes s' = pending_sync_writes s"
proof -
  have "segment_index_cache s' = segment_index_cache s \<and>
      data_cache s' = data_cache s \<and> checkpoint_cache s' = checkpoint_cache s \<and> pending_sync_writes s' = pending_sync_writes s"
    using assms by (cases s, cases s') (simp add: dedup_frame_def)
  moreover have "others_same Dedup_File s s'" using assms by (simp add: dedup_frame_def)
  moreover from this have "\<forall>g. is_blob_file g \<longrightarrow> same_file g s s'" using others_same_blobs by fastforce
  ultimately show ?thesis using assms unfolding same_blobs_def
    by (simp add: same_file_def same_blk_def same_lk_def same_dd_def same_ckpt_def dedup_frame_def others_same_def)
qed

lemma data_step_same:
  "data_step s s' \<Longrightarrow>
     same_blk s s' \<and> same_lk s s' \<and> same_dd s s' \<and> same_ckpt s s' \<and> pending_sync_writes s' = pending_sync_writes s"
  by (simp add: data_step_def same_defs)

lemma same_blk_rep: "same_blk s s' \<Longrightarrow> blk_rep E s' log = blk_rep E s log"
  using blk_rep_local [of s' s E log] by (simp add: same_defs)

lemma same_lk_rep: "same_lk s s' \<Longrightarrow> lk_rep E s' log = lk_rep E s log"
  using lk.rep_local [of s' s E log] by (simp add: same_defs)

lemma same_dd_rep: "same_dd s s' \<Longrightarrow> dd_rep E s' log = dd_rep E s log"
  using dd.rep_local [of s' s E log] by (simp add: same_defs)

lemma same_blobs_rep:
  assumes "same_blobs s s'"
  shows "store_rep E s' disk idx segs = store_rep E s disk idx segs"
proof -
  have "data_seg E s' (Data_Segment q) bs = data_seg E s (Data_Segment q) bs" for q bs
    by (rule data_seg_local) (use assms in \<open>simp_all add: same_defs\<close>)
  moreover have "index_rep E s' disk idx = index_rep E s disk idx"
    by (rule index_rep_files) (use assms in \<open>simp_all add: same_defs\<close>)
  ultimately show ?thesis using assms
    by (simp add: store_rep_defs blobs_rep_def index_disk_def sealed_def shaped_def same_defs)
qed

section \<open>The checkpoint\<close>

definition ckpt_rep :: "externs \<Rightarrow> 'z data_store_scheme \<Rightarrow> MetadataCheckpoint \<Rightarrow> bool" where
  "ckpt_rep E s c \<longleftrightarrow>
     (\<exists>h. sealed E s Metadata_File h (checkpoint_encode c) \<and> kind h = KMetadata) \<and>
     (trust_hot_cache E \<longrightarrow> checkpoint_cache s \<in> {None, Some c})"

lemma same_ckpt_rep: "same_ckpt s s' \<Longrightarrow> ckpt_rep E s' c = ckpt_rep E s c"
  by (simp add: ckpt_rep_def sealed_def shaped_def same_defs)

definition ckpt_frame :: "'z data_store_scheme \<Rightarrow> 'z data_store_scheme \<Rightarrow> bool" where
  "ckpt_frame s s' \<longleftrightarrow> same_blk s s' \<and> same_lk s s' \<and> same_dd s s' \<and> same_blobs s s'"

lemma load_checkpoint_run:
  assumes "ckpt_rep E s c"
  shows "\<exists>s'. load_checkpoint_cached E s = (Ok c, s') \<and> ckpt_rep E s' c \<and> ckpt_frame s s' \<and>
    pending_sync_writes s' = pending_sync_writes s"
proof -
  have page: "load_checkpoint_page E Metadata_File s = (Ok c, s)"
    using assms by (auto simp: ckpt_rep_def load_checkpoint_page_def read_bounded_sealed
        checkpoint_decode_encode MAX_MAINTENANCE_METADATA_BYTES_def)
  let ?s = "checkpoint_cache_update (\<lambda>_. Some c) s"
  have "load_checkpoint_cached E s \<in> {(Ok c, s), (Ok c, ?s)}"
    using assms page by (auto simp: load_checkpoint_cached_def set_checkpoint_cache_def ckpt_rep_def split: option.splits)
  moreover have "ckpt_rep E ?s c" using assms by (simp add: ckpt_rep_def sealed_def shaped_def)
  ultimately show ?thesis using assms by (auto simp: ckpt_frame_def same_defs)
qed

lemma persist_checkpoint_run:
  "\<exists>s'. persist_checkpoint_cached E c s = (Ok (), s') \<and> ckpt_rep E s' c \<and> ckpt_frame s s' \<and>
    pending_sync_writes s' = pending_sync_writes s"
proof -
  let ?h = "header_new E KMetadata (page_id c) (epoch c) (checkpoint_encode c)"
  obtain s1 where w: "persist_checkpoint_page E Metadata_File c s = (Ok (), s1)"
    "s1 = s\<lparr>files := (files s)(Tmp Metadata_File := None, Metadata_File := Some (segment_headers E ?h @ checkpoint_encode c)),
            append_file_cache := (append_file_cache s)(Metadata_File := None)\<rparr>"
    by (simp add: persist_checkpoint_page_def write_segment_file_run)
  have "sealed E (checkpoint_cache_update (\<lambda>_. Some c) s1) Metadata_File ?h (checkpoint_encode c)"
    by (rule sealed_header_new) (simp_all add: w(2))
  then show ?thesis using w
    by (auto simp: persist_checkpoint_cached_def set_checkpoint_cache_def ckpt_rep_def ckpt_frame_def same_defs
        intro!: exI [of _ ?h])
qed

lemma mark_dirty_run:
  assumes "ckpt_rep E s c"
  shows "\<exists>c' s'. mark_checkpoint_dirty E s = (Ok c', s') \<and> ckpt_rep E s' c' \<and> ckpt_frame s s' \<and> flags c' = Dirty \<and>
    pending_sync_writes s' = pending_sync_writes s"
proof -
  obtain s1 where s1: "load_checkpoint_cached E s = (Ok c, s1)" "ckpt_rep E s1 c" "ckpt_frame s s1"
    "pending_sync_writes s1 = pending_sync_writes s" using load_checkpoint_run [OF assms] by blast
  show ?thesis
  proof (cases "flags c = Clean")
    case True
    obtain s2 where "persist_checkpoint_cached E (next_epoch Dirty c) s1 = (Ok (), s2)" "ckpt_rep E s2 (next_epoch Dirty c)"
      "ckpt_frame s1 s2" "pending_sync_writes s2 = pending_sync_writes s1" using persist_checkpoint_run by blast
    then show ?thesis using s1 True
      by (intro exI [of _ "next_epoch Dirty c"] exI [of _ s2])
        (auto simp: mark_checkpoint_dirty_def next_epoch_def ckpt_frame_def same_defs)
  next
    case False
    then have "flags c = Dirty" by (cases "flags c") auto
    then show ?thesis using s1 False by (intro exI [of _ c] exI [of _ s1]) (simp add: mark_checkpoint_dirty_def)
  qed
qed

section \<open>Synchronising keeps everything\<close>

lemma sync_descriptors_run:
  assumes "\<forall>d\<in>set ds. \<exists>bs. data_seg E s (Data_Segment (segment_seq d)) bs"
  shows "sync_descriptors E ds s = (Ok (), s)"
  using assms
proof (induction ds)
  case (Cons d ds)
  then obtain bs h where h: "shaped E s (Data_Segment (segment_seq d)) h (seg_payload bs)" "kind h = KData"
    by (auto simp: data_seg_def)
  then have "files s (Data_Segment (segment_seq d)) \<noteq> None" by (simp add: shaped_def)
  then show ?case using Cons h by (simp add: validate_segment_shape_shaped file_exists_def)
qed simp

lemma flush_index_run:
  assumes rep: "store_rep E s disk idx segs" and len: "length (descriptors idx) \<le> MAX_MAINTENANCE_METADATA_RECORDS"
  shows "\<exists>disk' s'. flush_segment_index_for_append E s = (Ok (), s') \<and> store_rep E s' disk' idx segs \<and> data_step s s'"
proof (cases "\<exists>c. segment_index_cache s = Some c \<and> si_dirty c")
  case False
  then have "flush_segment_index_for_append E s = (Ok (), s)"
    by (auto simp: flush_segment_index_for_append_def split: option.splits)
  then show ?thesis using rep by auto
next
  case True
  then obtain c where c: "segment_index_cache s = Some c" "si_dirty c" by blast
  have i: "si_index c = idx" and segs: "segs_rep E s disk idx segs" using rep c by (auto simp: store_rep_def index_rep_def)
  let ?h = "header_new E KSegmentIndex 7 (next_segment_seq idx) (index_encode idx)" and ?f = Segment_Index_File
  let ?w = "s\<lparr>files := (files s)(Tmp ?f := None, ?f := Some (segment_headers E ?h @ index_encode idx)),
      append_file_cache := (append_file_cache s)(?f := None)\<rparr>"
  let ?s = "segment_index_cache_update (\<lambda>_. Some (c\<lparr>si_dirty := False, si_stamp := files ?w ?f\<rparr>)) ?w"
  have run: "flush_segment_index_for_append E s = (Ok (), ?s)"
    using c i by (simp add: flush_segment_index_for_append_def persist_segment_index_def write_segment_file_run
        set_index_cache_def)
  have disk: "index_disk E ?s idx" unfolding index_disk_def
    using len index_encode_fits [OF len]
    by (intro conjI exI [of _ ?h] sealed_header_new) (simp_all add: MAX_MAINTENANCE_METADATA_BYTES_def)
  moreover have "data_seg E ?s (Data_Segment q) bs = data_seg E s (Data_Segment q) bs" for q bs
    by (rule data_seg_local) simp_all
  then have "blobs_rep E ?s idx segs" using segs by (simp add: segs_rep_def blobs_rep_def)
  ultimately have "store_rep E ?s idx idx segs"
    using segs i by (simp add: store_rep_def segs_rep_def index_rep_def)
  moreover have "data_step s ?s" by (auto simp: data_step_def)
  ultimately show ?thesis using run by blast
qed

lemma sync_layout_run:
  assumes rep: "store_rep E s disk idx segs" and len: "length (descriptors idx) \<le> MAX_MAINTENANCE_METADATA_RECORDS"
    and there: "files s Blk_Map_File \<noteq> None" "files s Lookup_File \<noteq> None" "files s Dedup_File \<noteq> None"
  shows "\<exists>disk' s'. sync_layout_segments E s = (Ok (), s') \<and> store_rep E s' disk' idx segs \<and> data_step s s'"
proof -
  obtain s1 where s1: "load_segment_index_for_append E s = (Ok idx, s1)" "store_rep E s1 disk idx segs" "read_step s s1"
    using load_for_append_store [OF rep] by blast
  have "sync_descriptors E (descriptors idx) s1 = (Ok (), s1)"
    by (rule sync_descriptors_run) (use store_rep_seg [OF s1(2)] in blast)
  then have sync: "sync_indexed_segments E s = (Ok (), s1)" using s1(1) by (simp add: sync_indexed_segments_def)
  obtain disk' s2 where s2: "flush_segment_index_for_append E s1 = (Ok (), s2)" "store_rep E s2 disk' idx segs" "data_step s1 s2"
    using flush_index_run [OF s1(2) len] by blast
  have step: "data_step s s2" using data_step_trans [OF data_step_read [OF s1(3)] s2(3)] .
  have "files s2 Segment_Index_File \<noteq> None"
    using s2(2) by (auto simp: store_rep_def index_rep_def index_disk_def sealed_def shaped_def)
  moreover have "files s2 Blk_Map_File \<noteq> None" "files s2 Lookup_File \<noteq> None" "files s2 Dedup_File \<noteq> None"
    using there step by (simp_all add: data_step_def)
  ultimately have "sync_layout_segments E s = (Ok (), s2)" using sync s2(1)
    by (simp add: sync_layout_segments_def sync_segment_file_def sync_blk_map_def sync_lookup_def sync_dedup_def)
  then show ?thesis using s2(2) step by blast
qed

section \<open>A whole layout\<close>

text \<open>
  What holds of the records, the lookup entries, the deduplication entries and
  the blobs of a cartridge together: the lookup table matches the active
  records, every active record can be read, every deduplication entry names a
  blob that is there, and every blob can be decoded.
\<close>

definition blob_decodes :: "externs \<Rightarrow> DataBlob \<Rightarrow> bool" where
  "blob_decodes E b \<longleftrightarrow> db_codec b = CodecNone \<or>
     (\<exists>p. decompress_payload E (db_codec b) (db_bytes b) (unat (db_logical_len b)) = Ok p)"

definition readable :: "externs \<Rightarrow> (u32 \<times> DataBlob) set \<Rightarrow> BlkMapRecord \<Rightarrow> bytes \<Rightarrow> bool" where
  "readable E bs r p \<longleftrightarrow> (\<exists>q b. (q, b) \<in> bs \<and> physical_segment_id r = ucast q \<and> physical_offset r = db_blob_id b \<and>
     decode_block E r (db_bytes b) = Ok p \<and>
     verify_logical_payload_checksum E (payload_checksum_algorithm r) (payload_checksum r) p = Ok ())"

definition entry_stored :: "(u32 \<times> DataBlob) set \<Rightarrow> DedupIndexEntry \<Rightarrow> bool" where
  "entry_stored bs e \<longleftrightarrow> (\<exists>q b. (q, b) \<in> bs \<and> stored_blob_id e = db_blob_id b \<and> de_compression e = db_codec b)"

definition layout_inv ::
  "externs \<Rightarrow> BlkMapRecord list \<Rightarrow> MapLookupRecord list \<Rightarrow> DedupIndexEntry list \<Rightarrow> (u32 \<times> DataBlob) set \<Rightarrow> bool" where
  "layout_inv E rs ls es bs \<longleftrightarrow>
     blk_inv rs \<and> lookup_matches ls rs \<and>
     (\<forall>r\<in>set rs. is_active r \<longrightarrow> blk_fits r \<and> (\<exists>p. readable E bs r p)) \<and>
     (\<forall>e\<in>set es. entry_stored bs e) \<and> (\<forall>(q, b)\<in>bs. blob_decodes E b)"

definition layout_rep ::
  "externs \<Rightarrow> 'z data_store_scheme \<Rightarrow> BlkMapRecord list \<Rightarrow> MapLookupRecord list \<Rightarrow> DedupIndexEntry list \<Rightarrow>
   SegmentIndex \<Rightarrow> segments \<Rightarrow> bool" where
  "layout_rep E s bl ll dl idx segs \<longleftrightarrow>
     blk_rep E s bl \<and> lk_rep E s ll \<and> dd_rep E s dl \<and> (\<exists>disk. store_rep E s disk idx segs) \<and> (\<exists>c. ckpt_rep E s c) \<and>
     layout_inv E (blk_view E bl) (lk_view E ll) (dd_view dl) (blob_set idx segs)"

definition read_result :: "BlkMapRecord \<Rightarrow> bytes \<Rightarrow> LogicalReadResult" where
  "read_result r p =
     \<lparr>lr_record_id = record_id r, lr_logical_start = logical_start r, lr_logical_len = logical_len r,
      lr_dedup_entry_id = dedup_entry_id r, lr_codec_used = compression r, lr_payload = p\<rparr>"

text \<open>What reading a block should give, from the records and the blobs.\<close>

definition read_spec ::
  "externs \<Rightarrow> BlkMapRecord list \<Rightarrow> (u32 \<times> DataBlob) set \<Rightarrow> u64 \<Rightarrow> LogicalReadResult option \<Rightarrow> bool" where
  "read_spec E rs bs n res \<longleftrightarrow>
     (case res of
        None \<Rightarrow> \<forall>r\<in>set rs. is_active r \<longrightarrow> \<not> covers n r
      | Some x \<Rightarrow> \<exists>r\<in>set rs. \<exists>p. is_active r \<and> covers n r \<and> readable E bs r p \<and> x = read_result r p)"

lemma blob_set_unique:
  assumes "store_rep E s disk idx segs" "(q, b) \<in> blob_set idx segs" "(q, b') \<in> blob_set idx segs" "db_blob_id b = db_blob_id b'"
  shows "b = b'"
proof -
  obtain d where d: "d \<in> set (descriptors idx)" "q = segment_seq d" using assms(2) by (auto simp: blob_set_def)
  have "sorted_wrt (<) (map db_blob_id (segs q))" using store_rep_seg [OF assms(1) d(1)] d(2) by (simp add: data_seg_def)
  then have "distinct (map db_blob_id (segs q))" by (simp add: strict_sorted_iff)
  then show ?thesis using assms(2-4) by (auto simp: blob_set_def distinct_map dest: inj_onD)
qed

lemma load_in_set:
  assumes "store_rep E s disk idx segs" "(q, b) \<in> blob_set idx segs"
  shows "\<exists>s'. load_blob_by_location E (ucast q) (db_blob_id b) s = (Ok b, s') \<and> store_rep E s' disk idx segs \<and> read_step s s'"
    "\<exists>s'. locate_blob_segment_id E (db_blob_id b) s = (Ok (ucast q), s') \<and> store_rep E s' disk idx segs \<and> read_step s s'"
proof -
  obtain d where d: "d \<in> set (descriptors idx)" "q = segment_seq d" "b \<in> set (segs (segment_seq d))"
    using assms(2) by (auto simp: blob_set_def)
  show "\<exists>s'. load_blob_by_location E (ucast q) (db_blob_id b) s = (Ok b, s') \<and> store_rep E s' disk idx segs \<and> read_step s s'"
    using load_location_run [OF assms(1) d(1,3)] d(2) by simp
  show "\<exists>s'. locate_blob_segment_id E (db_blob_id b) s = (Ok (ucast q), s') \<and> store_rep E s' disk idx segs \<and> read_step s s'"
    using locate_run [OF assms(1) d(1,3)] d(2) by simp
qed

lemma ucast_u32_u64_inj: "(ucast (a :: u32) :: u64) = ucast b \<Longrightarrow> a = b"
  by (auto dest!: arg_cong [of _ _ unat] simp: unsigned_ucast_eq take_bit_eq_mod word_unat_eq_iff)

lemma readable_unique:
  assumes rep: "store_rep E s disk idx segs" and "readable E (blob_set idx segs) r p" "readable E (blob_set idx segs) r p'"
  shows "p = p'"
proof -
  obtain q b q' b' where b: "(q, b) \<in> blob_set idx segs" "(q', b') \<in> blob_set idx segs"
    "(ucast q :: u64) = ucast q'" "db_blob_id b = db_blob_id b'"
    "decode_block E r (db_bytes b) = Ok p" "decode_block E r (db_bytes b') = Ok p'"
    using assms(2,3) by (auto simp: readable_def)
  then have "q = q'" by (simp add: ucast_u32_u64_inj)
  then have "b = b'" using blob_set_unique [OF rep] b by blast
  then show ?thesis using b(5,6) by simp
qed

lemma covers_unique:
  assumes "blk_inv rs" "r \<in> set rs" "r' \<in> set rs" "is_active r" "is_active r'" "covers n r" "covers n r'"
  shows "r = r'"
proof (rule ccontr)
  assume "r \<noteq> r'"
  then have "record_id r \<noteq> record_id r'" using assms(1-3) unfolding blk_inv_def distinct_map by (blast dest: inj_onD)
  then have "\<not> ranges_overlap r r'" using assms unfolding blk_inv_def by blast
  then show False using assms(6,7) by (auto simp: ranges_overlap_def covers_def)
qed

lemma read_spec_unique:
  assumes rep: "store_rep E s disk idx segs" and inv: "blk_inv rs"
    and a: "read_spec E rs (blob_set idx segs) n x" and b: "read_spec E rs (blob_set idx segs) n y"
  shows "x = y"
proof (cases x)
  case None
  then show ?thesis using a b by (cases y) (auto simp: read_spec_def)
next
  case (Some u)
  then obtain r p where r: "r \<in> set rs" "is_active r" "covers n r" "readable E (blob_set idx segs) r p" "u = read_result r p"
    using a by (auto simp: read_spec_def)
  then obtain v r' p' where r': "y = Some v" "r' \<in> set rs" "is_active r'" "covers n r'"
    "readable E (blob_set idx segs) r' p'" "v = read_result r' p'"
    using b by (cases y) (auto simp: read_spec_def)
  then have "r = r'" using covers_unique [OF inv] r by blast
  then show ?thesis using readable_unique [OF rep] r r' Some by blast
qed

text \<open>A state that shares the parts of a layout with another represents the same layout.\<close>

lemma layout_repE:
  assumes "layout_rep E s bl ll dl idx segs"
  obtains disk c where "blk_rep E s bl" "lk_rep E s ll" "dd_rep E s dl" "store_rep E s disk idx segs" "ckpt_rep E s c"
    "layout_inv E (blk_view E bl) (lk_view E ll) (dd_view dl) (blob_set idx segs)"
  using assms by (auto simp: layout_rep_def)

lemma layout_lk_inv:
  assumes "layout_inv E rs ls es bs"
  shows "lk_inv ls"
  using assms lookup_matches_inv [of rs ls] by (auto simp: layout_inv_def)

lemma lookup_active:
  assumes inv: "layout_inv E rs ls es bs" and l: "l \<in> set ls" "lk_covers n l"
  shows "\<exists>r\<in>set rs. is_active r \<and> covers n r \<and> blk_map_ref_start l = record_id r \<and> blk_map_ref_end l = record_id r"
proof -
  obtain r where r: "r \<in> set rs" "is_active r" "l = lookup_of (lookup_id l) r"
    using inv l(1) by (auto simp: layout_inv_def lookup_matches_def)
  then have "blk_fits r" using inv by (simp add: layout_inv_def)
  then have "covers n r" using blk_fits_range(2) l(2) r(3) by metis
  moreover have "blk_map_ref_start l = record_id r" "blk_map_ref_end l = record_id r" by (subst r(3), simp)+
  ultimately show ?thesis using r(1,2) by blast
qed

lemma active_lookup:
  assumes inv: "layout_inv E rs ls es bs" and r: "r \<in> set rs" "is_active r" "covers n r"
  shows "\<exists>l\<in>set ls. lk_covers n l"
proof -
  have "blk_fits r" and "\<exists>i. lookup_of i r \<in> set ls" using inv r by (auto simp: layout_inv_def lookup_matches_def)
  then show ?thesis using blk_fits_range(2) r(3) by blast
qed

lemma read_run:
  assumes rep: "layout_rep E s bl ll dl idx segs" and E: "hash_order_ok E"
  shows "\<exists>res s'. read_logical_block E n s = (Ok res, s') \<and> layout_rep E s' bl ll dl idx segs \<and>
    read_spec E (blk_view E bl) (blob_set idx segs) n res \<and> pending_sync_writes s' = pending_sync_writes s"
proof -
  let ?rs = "blk_view E bl" and ?ls = "lk_view E ll" and ?bs = "blob_set idx segs"
  obtain disk c where st: "blk_rep E s bl" "lk_rep E s ll" "dd_rep E s dl" "store_rep E s disk idx segs" "ckpt_rep E s c"
    and inv: "layout_inv E ?rs ?ls (dd_view dl) ?bs" using rep by (rule layout_repE)
  have binv: "blk_inv ?rs" using inv by (simp add: layout_inv_def)
  obtain found cl where f: "locate_logical_block E n s = (Ok found, lookup_cache_update (\<lambda>_. Some cl) s)"
    "\<And>l. found = Some l \<longleftrightarrow> l \<in> set ?ls \<and> lk_covers n l" "lk_rep E (lookup_cache_update (\<lambda>_. Some cl) s) ll"
    using locate_logical_run [OF st(2) layout_lk_inv [OF inv] E] by blast
  let ?s1 = "lookup_cache_update (\<lambda>_. Some cl) s"
  have "lookup_frame s ?s1" by (simp add: lookup_frame_def others_same_def)
  note same = lookup_frame_same [OF this]
  have st1: "blk_rep E ?s1 bl" "dd_rep E ?s1 dl" "store_rep E ?s1 disk idx segs" "ckpt_rep E ?s1 c"
    using st same same_blk_rep same_dd_rep same_blobs_rep same_ckpt_rep by blast+
  show ?thesis
  proof (cases found)
    case None
    then have "read_spec E ?rs ?bs n None" using f(2) active_lookup [OF inv] by (auto simp: read_spec_def)
    moreover have "layout_rep E ?s1 bl ll dl idx segs" using st1 f(3) inv by (auto simp: layout_rep_def)
    ultimately show ?thesis using f(1) None by (auto simp: read_logical_block_def)
  next
    case (Some l)
    then obtain r where r: "r \<in> set ?rs" "is_active r" "covers n r" "blk_map_ref_start l = record_id r"
      "blk_map_ref_end l = record_id r" using lookup_active [OF inv] f(2) by blast
    obtain p where "readable E ?bs r p" using inv r(1,2) by (auto simp: layout_inv_def)
    then obtain q b where p: "readable E ?bs r p" "(q, b) \<in> ?bs" "physical_segment_id r = ucast q" "physical_offset r = db_blob_id b"
      "decode_block E r (db_bytes b) = Ok p"
      "verify_logical_payload_checksum E (payload_checksum_algorithm r) (payload_checksum r) p = Ok ()"
      by (auto simp: readable_def)
    obtain s2 where s2: "locate_active_record E n (record_id r) (record_id r) ?s1 = (Ok (Some r), s2)"
      "blk_rep E s2 bl" "blk_frame ?s1 s2"
      using locate_active_run [OF st1(1) binv E, of n "record_id r" "record_id r"] r(1,2,3) by force
    note same2 = blk_frame_same [OF s2(3)]
    have st2: "lk_rep E s2 ll" "dd_rep E s2 dl" "store_rep E s2 disk idx segs" "ckpt_rep E s2 c"
      using st1 f(3) same2 same_lk_rep same_dd_rep same_blobs_rep same_ckpt_rep by blast+
    obtain s3 where s3: "load_blob_by_location E (ucast q) (db_blob_id b) s2 = (Ok b, s3)" "store_rep E s3 disk idx segs" "read_step s2 s3"
      using load_in_set(1) [OF st2(3) p(2)] by blast
    note same3 = data_step_same [OF data_step_read [OF s3(3)]]
    have "layout_rep E s3 bl ll dl idx segs" using s2(2) st2 s3(2) inv same3
        same_blk_rep same_lk_rep same_dd_rep same_ckpt_rep unfolding layout_rep_def by blast
    moreover have "read_spec E ?rs ?bs n (Some (read_result r p))" using r p(1) by (auto simp: read_spec_def)
    moreover have "read_logical_block E n s = (Ok (Some (read_result r p)), s3)"
      using f(1) Some r(4,5) s2(1) s3(1) p(3-6) by (simp add: read_logical_block_def read_result_def)
    ultimately show ?thesis using same same2 same3 by auto
  qed
qed

section \<open>Placing a payload\<close>

text \<open>The blob bytes are the payload under the codec.\<close>

definition stored_form :: "externs \<Rightarrow> CompressionCodec \<Rightarrow> bytes \<Rightarrow> bytes \<Rightarrow> bool" where
  "stored_form E codec b payload \<longleftrightarrow>
     (if codec = CodecNone then b = payload else decompress_payload E codec b (length payload) = Ok payload)"

lemma prepare_payload_stores:
  assumes p: "prepare_payload_for_write E codec payload = Ok (c, encoded, x)"
    and len: "payload \<noteq> []" "length payload \<le> MAX_DECOMPRESSED_PAYLOAD_LEN" and E: "lz4_ok E" "zlib_ok E"
  shows "stored_form E c encoded payload \<and> encoded \<noteq> [] \<and> length encoded \<le> length payload"
proof (cases "codec = CodecNone")
  case True
  then show ?thesis using p len(1) by (simp add: prepare_payload_for_write_def stored_form_def)
next
  case False
  then have cp: "compress_payload E codec payload = Ok (c, encoded, x)"
    using p by (cases codec) (simp_all add: prepare_payload_for_write_def)
  have d: "decompress_payload E c encoded (length payload) = Ok payload" by (rule decompress_compress [OF cp len(2) E])
  then have "c = CodecNone \<Longrightarrow> encoded = payload" by (auto simp: decompress_payload_def split: if_splits)
  moreover have "encoded \<noteq> []"
  proof
    assume "encoded = []"
    then have "c = Zlib" using d len(1)
      by (cases c) (auto simp: decompress_payload_def rle_decode_def decoded_of_length_def lz4_prepended_len_def
          split: if_splits)
    then show False using \<open>encoded = []\<close> cp E(2)
      by (auto simp: compress_payload_def keep_if_smaller_cases zlib_ok_def split: CompressionCodec.splits if_splits)
  qed
  ultimately show ?thesis using d compress_payload_length [OF cp] by (simp add: stored_form_def)
qed

definition placing_rep :: "externs \<Rightarrow> 'z data_store_scheme \<Rightarrow> DedupIndexEntry list \<Rightarrow> SegmentIndex \<Rightarrow> segments \<Rightarrow> bool" where
  "placing_rep E s dl idx segs \<longleftrightarrow> dd_rep E s dl \<and> (\<exists>disk. store_rep E s disk idx segs) \<and>
     (\<forall>e\<in>set (dd_view dl). entry_stored (blob_set idx segs) e) \<and> (\<forall>(q, b)\<in>blob_set idx segs. blob_decodes E b)"

definition place_step :: "'z data_store_scheme \<Rightarrow> 'z data_store_scheme \<Rightarrow> bool" where
  "place_step s s' \<longleftrightarrow> same_blk s s' \<and> same_lk s s' \<and> same_ckpt s s' \<and> pending_sync_writes s' = pending_sync_writes s"

definition placed_ok :: "externs \<Rightarrow> (u32 \<times> DataBlob) set \<Rightarrow> placed \<Rightarrow> bytes \<Rightarrow> bool" where
  "placed_ok E bs p payload \<longleftrightarrow> (\<exists>q b. (q, b) \<in> bs \<and> pl_segment p = ucast q \<and> pl_blob p = db_blob_id b \<and>
     stored_form E (pl_codec p) (db_bytes b) payload)"

lemma place_step_trans: "place_step s s' \<Longrightarrow> place_step s' s'' \<Longrightarrow> place_step s s''"
  by (simp add: place_step_def same_defs)

lemma place_step_dedup: "dedup_frame s s' \<Longrightarrow> place_step s s'"
  by (auto simp: place_step_def dest: dedup_frame_same)

lemma place_step_data: "data_step s s' \<Longrightarrow> place_step s s'"
  by (auto simp: place_step_def dest: data_step_same)

lemma entry_stored_mono: "entry_stored bs e \<Longrightarrow> bs \<subseteq> bs' \<Longrightarrow> entry_stored bs' e"
  by (auto simp: entry_stored_def)

lemma append_new_run:
  assumes rep: "placing_rep E s dl idx segs" and room: "store_room idx i"
    and len: "payload \<noteq> []" "length payload \<le> MAX_DECOMPRESSED_PAYLOAD_LEN"
    and prep: "prepare_payload_for_write E (preferred_codec opts) payload = Ok (c, encoded, x)"
    and E: "lz4_ok E" "zlib_ok E" "write_vectored_ok E"
  shows "\<exists>p q idx' segs' s'. append_new_blob E opts payload (of_nat (length payload)) s = (Ok p, s') \<and>
    placing_rep E s' dl idx' segs' \<and> blob_set idx segs \<subseteq> blob_set idx' segs' \<and>
    (q, new_blob E i c (of_nat (length payload)) encoded) \<in> blob_set idx' segs' \<and>
    p = \<lparr>pl_entry = 0, pl_blob = i, pl_codec = c, pl_stored = of_nat (length encoded), pl_segment = ucast q,
         pl_hit = False, pl_collision = False\<rparr> \<and>
    placed_ok E (blob_set idx' segs') p payload \<and> place_step s s'"
proof -
  obtain disk where st: "dd_rep E s dl" "store_rep E s disk idx segs"
    "\<forall>e\<in>set (dd_view dl). entry_stored (blob_set idx segs) e" "\<forall>(q, b)\<in>blob_set idx segs. blob_decodes E b"
    using rep by (auto simp: placing_rep_def)
  have enc: "stored_form E c encoded payload" "encoded \<noteq> []" "length encoded \<le> length payload"
    using prepare_payload_stores [OF prep len E(1,2)] by simp_all
  have lt: "length encoded < 2 ^ 32" "unat (of_nat (length payload) :: u32) = length payload"
    using len(2) enc(3) by (simp_all add: MAX_DECOMPRESSED_PAYLOAD_LEN_def unat_of_nat_small)
  let ?l = "of_nat (length payload) :: u32"
  let ?b = "new_blob E i c ?l encoded"
  obtain q disk' idx' segs' s' where a: "append_data_blob E c ?l encoded (payload_checksum_enabled opts) s = (Ok (ucast q, i), s')"
    "store_rep E s' disk' idx' segs'" "blob_set idx' segs' = insert (q, ?b) (blob_set idx segs)" "data_step s s'"
    using append_data_blob_run [OF st(2) room enc(2) lt(1) E(3)] by blast
  have "blob_decodes E ?b" using enc(1) lt(2) by (auto simp: blob_decodes_def stored_form_def split: if_splits)
  moreover have "dd_rep E s' dl" using st(1) data_step_same [OF a(4)] same_dd_rep by blast
  moreover have "\<forall>e\<in>set (dd_view dl). entry_stored (blob_set idx' segs') e"
    using st(3) entry_stored_mono a(3) by (metis subset_insertI)
  ultimately have "placing_rep E s' dl idx' segs'"
    using st(4) a(2) unfolding placing_rep_def a(3) by auto
  moreover have "append_new_blob E opts payload ?l s = (Ok \<lparr>pl_entry = 0, pl_blob = i, pl_codec = c,
      pl_stored = of_nat (length encoded), pl_segment = ucast q, pl_hit = False, pl_collision = False\<rparr>, s')"
    using prep a(1) lt(1) by (simp add: append_new_blob_def checked_u32_len_def try_from_nat_def)
  moreover have "placed_ok E (blob_set idx' segs') \<lparr>pl_entry = 0, pl_blob = i, pl_codec = c,
      pl_stored = of_nat (length encoded), pl_segment = ucast q, pl_hit = False, pl_collision = False\<rparr> payload"
    unfolding placed_ok_def a(3) by (intro exI [of _ q] exI [of _ ?b]) (use enc(1) in simp)
  ultimately show ?thesis using a(3) place_step_data [OF a(4)] by blast
qed

lemma placing_read_step:
  assumes "placing_rep E s dl idx segs" "store_rep E s' disk idx segs" "read_step s s'"
  shows "placing_rep E s' dl idx segs" "place_step s s'"
proof -
  have "same_dd s s'" using data_step_same [OF data_step_read [OF assms(3)]] by blast
  then show "placing_rep E s' dl idx segs" using assms(1,2) same_dd_rep unfolding placing_rep_def by blast
  show "place_step s s'" by (rule place_step_data [OF data_step_read [OF assms(3)]])
qed

text \<open>Comparing a hit with the payload: the answer yes means that the blob of the entry stores it.\<close>

lemma matches_run:
  assumes rep: "placing_rep E s dl idx segs" and e: "e \<in> set (dd_view dl)"
  shows "\<exists>same s'. dedup_entry_matches_payload E e payload s = (Ok same, s') \<and> placing_rep E s' dl idx segs \<and>
    place_step s s' \<and> (same \<longrightarrow> (\<exists>q b. (q, b) \<in> blob_set idx segs \<and> stored_blob_id e = db_blob_id b \<and>
       stored_form E (de_compression e) (db_bytes b) payload))"
proof (cases "unat (de_logical_len e) = length payload")
  case False
  then show ?thesis using rep by (auto simp: dedup_entry_matches_payload_def place_step_def same_defs)
next
  case True
  obtain disk q b where st: "store_rep E s disk idx segs" "(q, b) \<in> blob_set idx segs" "stored_blob_id e = db_blob_id b"
    "de_compression e = db_codec b" "blob_decodes E b"
    using rep e by (fastforce simp: placing_rep_def entry_stored_def)
  obtain s1 where s1: "locate_blob_segment_id E (db_blob_id b) s = (Ok (ucast q), s1)" "store_rep E s1 disk idx segs" "read_step s s1"
    using load_in_set(2) [OF st(1,2)] by blast
  obtain s2 where s2: "load_blob_by_location E (ucast q) (db_blob_id b) s1 = (Ok b, s2)" "store_rep E s2 disk idx segs" "read_step s1 s2"
    using load_in_set(1) [OF s1(2) st(2)] by blast
  note keep = placing_read_step [OF rep s2(2) read_step_trans [OF s1(3) s2(3)]]
  let ?sz = "db_logical_len b \<noteq> de_logical_len e \<or> db_stored_len b \<noteq> stored_len e"
  obtain p where p: "db_codec b = CodecNone \<and> p = db_bytes b \<or>
      db_codec b \<noteq> CodecNone \<and> decompress_payload E (db_codec b) (db_bytes b) (unat (db_logical_len b)) = Ok p"
    using st(5) unfolding blob_decodes_def by blast
  have run: "dedup_entry_matches_payload E e payload s = (Ok (\<not> ?sz \<and> p = payload), s2)"
    using True s1(1) s2(1) st(3) p by (auto simp: dedup_entry_matches_payload_def)
  have "stored_form E (de_compression e) (db_bytes b) payload" if "\<not> ?sz \<and> p = payload"
    using that p True st(4) by (auto simp: stored_form_def)
  then show ?thesis using run keep st(2,3) by blast
qed

lemma upsert_placing_run:
  assumes rep: "placing_rep E s dl idx segs" and room: "length dl < MAX_MAINTENANCE_METADATA_RECORDS"
    and ok: "dedup_upsert_spec entry (dd_view dl) = Ok (r, es)" "\<forall>e\<in>set es. entry_stored (blob_set idx segs) e"
    and E: "hash_order_ok E" "crc_ok E" "integrity32 E (dd_encode_log_payload dl) \<noteq> 0"
  shows "\<exists>dl' s'. upsert_dedup_entry E entry s = (Ok r, s') \<and> placing_rep E s' dl' idx segs \<and> place_step s s'"
proof -
  have dd: "dd_rep E s dl" using rep by (simp add: placing_rep_def)
  obtain e s' where u: "upsert_dedup_entry E entry s = (Ok r, s')" "dd_rep_any E s' (dl @ [e])" "dd_view (dl @ [e]) = es"
    "dedup_frame s s'" using upsert_run [OF dd E, of entry] ok(1) by auto
  have "dd_rep E s' (dl @ [e])" using u(2) room by (simp add: table_rep_def)
  moreover have "same_blobs s s'" using dedup_frame_same [OF u(4)] by blast
  ultimately have "placing_rep E s' (dl @ [e]) idx segs"
    using rep ok(2) u(3) same_blobs_rep unfolding placing_rep_def by blast
  then show ?thesis using u(1) place_step_dedup [OF u(4)] by blast
qed

lemma insert_placing_run:
  assumes rep: "placing_rep E s dl idx segs" and room: "length dl < MAX_MAINTENANCE_METADATA_RECORDS"
    and id: "next_id entry_id (dd_view dl) \<noteq> - 1" and new: "entry_stored (blob_set idx segs) entry"
    and E: "hash_order_ok E" "crc_ok E" "integrity32 E (dd_encode_log_payload dl) \<noteq> 0"
  shows "\<exists>dl' s'. insert_dedup_collision_entry E entry s = (Ok (entry\<lparr>entry_id := next_id entry_id (dd_view dl)\<rparr>), s') \<and>
    placing_rep E s' dl' idx segs \<and> place_step s s'"
proof -
  let ?e = "entry\<lparr>entry_id := next_id entry_id (dd_view dl)\<rparr>"
  have dd: "dd_rep E s dl" using rep by (simp add: placing_rep_def)
  obtain c payload where o: "dd_ensure_cache_fresh E s = (Ok (), dedup_cache_update (\<lambda>_. Some c) s)"
    "dd_ensure_log_format_cached E (dedup_cache_update (\<lambda>_. Some c) s) = (Ok (), dedup_cache_update (\<lambda>_. Some c) s)"
    "dd_cache_entry (dedup_cache_update (\<lambda>_. Some c) s) = (Ok c, dedup_cache_update (\<lambda>_. Some c) s)"
    and c: "c = build_cached_dedup (dd_stamp c) (dd_sequence c) (dd_view dl) (dd_log_format c)"
    and p: "log_sealed E (dedup_cache_update (\<lambda>_. Some c) s) Dedup_File KDedup payload"
    "payload_of DD_LOG_PREFIX dd_encode dl payload"
    using dd_open_run [OF dd E(1)] by blast
  have cur: "dedup_cache (dedup_cache_update (\<lambda>_. Some c) s) = Some c" by simp
  have le: "length dl \<le> MAX_MAINTENANCE_METADATA_RECORDS" using room by simp
  obtain s' where i: "dd_insert_entry E c entry (dedup_cache_update (\<lambda>_. Some c) s) = (Ok ?e, s')"
    "dd_rep_any E s' (dl @ [?e])" "dd_view (dl @ [?e]) = dd_view dl @ [?e]" "dedup_frame (dedup_cache_update (\<lambda>_. Some c) s) s'"
    using dd_insert_run [OF p cur c le id E(2,3), of entry] by (auto simp: Let_def)
  have fr: "dedup_frame s s'" using i(4) by simp
  have "dd_rep E s' (dl @ [?e])" using i(2) room by (simp add: table_rep_def)
  moreover have "same_blobs s s'" using dedup_frame_same [OF fr] by blast
  moreover have "entry_stored (blob_set idx segs) ?e" using new by (simp add: entry_stored_def)
  ultimately have "placing_rep E s' (dl @ [?e]) idx segs"
    using rep i(3) same_blobs_rep unfolding placing_rep_def by (simp, blast)
  then show ?thesis using o i(1) place_step_dedup [OF fr] by (auto simp: insert_dedup_collision_entry_def)
qed

text \<open>The room a write needs: identifiers, records, counters and a payload that can be compressed.\<close>

definition place_room :: "externs \<Rightarrow> WriteOptions \<Rightarrow> bytes \<Rightarrow> DedupIndexEntry list \<Rightarrow> SegmentIndex \<Rightarrow> bool" where
  "place_room E opts payload dl idx \<longleftrightarrow>
     payload \<noteq> [] \<and> length payload \<le> MAX_DECOMPRESSED_PAYLOAD_LEN \<and>
     (\<exists>x. prepare_payload_for_write E (preferred_codec opts) payload = Ok x) \<and>
     (\<exists>i. store_room idx i) \<and> length dl < MAX_MAINTENANCE_METADATA_RECORDS \<and>
     next_id entry_id (dd_view dl) \<noteq> - 1 \<and> integrity32 E (dd_encode_log_payload dl) \<noteq> 0 \<and>
     (\<forall>e\<in>set (dd_view dl). ref_count e \<noteq> - 1) \<and>
     (dedup_enabled opts \<longrightarrow> (\<forall>e. should_verify_dedup_hit E e))"

lemma upsert_spec_hit:
  assumes e: "find (\<lambda>x. identity_key_for x = identity_key_for u) (rev es) = Some e" and r: "ref_count e \<noteq> - 1"
  shows "\<exists>res es'. dedup_upsert_spec u es = Ok (res, es') \<and>
    (\<forall>x\<in>set es'. \<exists>y\<in>set es. stored_blob_id x = stored_blob_id y \<and> de_compression x = de_compression y)"
proof -
  let ?hit = "e\<lparr>ref_count := ref_count e + 1,
      identity_version := (if identity_version e = 0 then identity_version u else identity_version e)\<rparr>"
  let ?es = "map (\<lambda>x. if entry_id x = entry_id ?hit then ?hit else x) es"
  have "e \<in> set es" using find_SomeD [OF e] by simp
  then have "\<exists>y\<in>set es. stored_blob_id x = stored_blob_id y \<and> de_compression x = de_compression y" if "x \<in> set ?es" for x
    using that by (cases "x = ?hit") (auto split: if_splits)
  moreover have "dedup_upsert_spec u es = Ok (UpsertHit ?hit, ?es)"
    using e r by (simp add: dedup_upsert_spec_def Let_def)
  ultimately show ?thesis by blast
qed

lemma place_hit_run:
  assumes rep: "placing_rep E s dl idx segs" and room: "place_room E opts payload dl idx"
    and e: "find (\<lambda>x. identity_key_for x = key) (rev (dd_view dl)) = Some e"
    and b: "(q, b) \<in> blob_set idx segs" "stored_blob_id e = db_blob_id b" "stored_form E (de_compression e) (db_bytes b) payload"
    and E: "hash_order_ok E" "crc_ok E"
  shows "\<exists>p dl' s'. place_dedup_hit E e s = (Ok p, s') \<and> placing_rep E s' dl' idx segs \<and>
    placed_ok E (blob_set idx segs) p payload \<and> place_step s s'"
proof -
  let ?u = "e\<lparr>entry_id := 0, identity_version := DEDUP_IDENTITY_BLAKE3_128, ref_count := 1\<rparr>"
  have key: "identity_key_for ?u = key" and mem: "e \<in> set (dd_view dl)"
    using find_SomeD [OF e] by (simp_all add: identity_key_for_def)
  have r: "ref_count e \<noteq> - 1" "length dl < MAX_MAINTENANCE_METADATA_RECORDS" "integrity32 E (dd_encode_log_payload dl) \<noteq> 0"
    using room mem by (auto simp: place_room_def)
  obtain res es where spec: "dedup_upsert_spec ?u (dd_view dl) = Ok (res, es)"
    "\<forall>x\<in>set es. \<exists>y\<in>set (dd_view dl). stored_blob_id x = stored_blob_id y \<and> de_compression x = de_compression y"
    using upsert_spec_hit [of ?u "dd_view dl" e] e r(1) unfolding key by blast
  have "\<forall>x\<in>set es. entry_stored (blob_set idx segs) x"
    using spec(2) rep unfolding placing_rep_def entry_stored_def by metis
  then obtain dl' s1 where u: "upsert_dedup_entry E ?u s = (Ok res, s1)" "placing_rep E s1 dl' idx segs" "place_step s s1"
    using upsert_placing_run [OF rep r(2) spec(1) _ E r(3)] by blast
  obtain disk where st: "store_rep E s1 disk idx segs" using u(2) by (auto simp: placing_rep_def)
  obtain s2 where s2: "locate_blob_segment_id E (db_blob_id b) s1 = (Ok (ucast q), s2)" "store_rep E s2 disk idx segs" "read_step s1 s2"
    using load_in_set(2) [OF st b(1)] by blast
  let ?p = "\<lparr>pl_entry = entry_id e, pl_blob = stored_blob_id e, pl_codec = de_compression e,
      pl_stored = stored_len e, pl_segment = ucast q, pl_hit = True, pl_collision = False\<rparr>"
  have "place_dedup_hit E e s = (Ok ?p, s2)" using u(1) s2(1) b(2) by (simp add: place_dedup_hit_def place_existing_def)
  moreover have "placed_ok E (blob_set idx segs) ?p payload" using b by (auto simp: placed_ok_def)
  ultimately show ?thesis using placing_read_step [OF u(2) s2(2,3)] place_step_trans [OF u(3)] by blast
qed

lemma placed_ok_upd [simp]:
  "placed_ok E bs (p\<lparr>pl_entry := a, pl_collision := c\<rparr>) payload = placed_ok E bs p payload"
  by (simp add: placed_ok_def)

lemma append_room_run:
  assumes rep: "placing_rep E s dl idx segs" and room: "place_room E opts payload dl idx" and E: "externs_ok E"
  shows "\<exists>p q b idx' segs' s'. append_new_blob E opts payload (of_nat (length payload)) s = (Ok p, s') \<and>
    placing_rep E s' dl idx' segs' \<and> blob_set idx segs \<subseteq> blob_set idx' segs' \<and>
    (q, b) \<in> blob_set idx' segs' \<and> pl_blob p = db_blob_id b \<and> pl_codec p = db_codec b \<and>
    placed_ok E (blob_set idx' segs') p payload \<and> place_step s s'"
proof -
  let ?l = "of_nat (length payload) :: u32"
  obtain i c enc x where i: "store_room idx i" and prep: "prepare_payload_for_write E (preferred_codec opts) payload = Ok (c, enc, x)"
    using room by (auto simp: place_room_def)
  have r: "payload \<noteq> []" "length payload \<le> MAX_DECOMPRESSED_PAYLOAD_LEN" using room by (auto simp: place_room_def)
  have ext: "lz4_ok E" "zlib_ok E" "write_vectored_ok E" using E by (auto simp: externs_ok_def)
  obtain p q idx' segs' s' where a: "append_new_blob E opts payload ?l s = (Ok p, s')" "placing_rep E s' dl idx' segs'"
    "blob_set idx segs \<subseteq> blob_set idx' segs'" "(q, new_blob E i c ?l enc) \<in> blob_set idx' segs'"
    "p = \<lparr>pl_entry = 0, pl_blob = i, pl_codec = c, pl_stored = of_nat (length enc), pl_segment = ucast q,
         pl_hit = False, pl_collision = False\<rparr>" "placed_ok E (blob_set idx' segs') p payload" "place_step s s'"
    using append_new_run [OF rep i r prep ext] by blast
  moreover have "pl_blob p = db_blob_id (new_blob E i c ?l enc)" "pl_codec p = db_codec (new_blob E i c ?l enc)"
    using a(5) by simp_all
  ultimately show ?thesis by blast
qed

lemma new_entry_stored:
  "(q, b) \<in> bs \<Longrightarrow> pl_blob p = db_blob_id b \<Longrightarrow> pl_codec p = db_codec b \<Longrightarrow>
     entry_stored bs ((new_dedup_entry fp cks l p)\<lparr>entry_id := i\<rparr>)"
  by (auto simp: entry_stored_def new_dedup_entry_def)

lemma place_new_run:
  assumes rep: "placing_rep E s dl idx segs" and room: "place_room E opts payload dl idx" and E: "externs_ok E"
    and miss: "find (\<lambda>x. identity_key_for x = (fst fp, snd fp, cks, of_nat (length payload))) (rev (dd_view dl)) = None"
  shows "\<exists>p dl' idx' segs' s'. place_dedup_new E opts payload (of_nat (length payload)) fp cks col s = (Ok p, s') \<and>
    placing_rep E s' dl' idx' segs' \<and> blob_set idx segs \<subseteq> blob_set idx' segs' \<and>
    placed_ok E (blob_set idx' segs') p payload \<and> place_step s s'"
proof -
  let ?l = "of_nat (length payload) :: u32"
  have r: "length dl < MAX_MAINTENANCE_METADATA_RECORDS" "next_id entry_id (dd_view dl) \<noteq> - 1"
    "integrity32 E (dd_encode_log_payload dl) \<noteq> 0" "hash_order_ok E" "crc_ok E"
    using room E by (auto simp: place_room_def externs_ok_def)
  obtain p q b idx' segs' s1 where a: "append_new_blob E opts payload ?l s = (Ok p, s1)" "placing_rep E s1 dl idx' segs'"
    "blob_set idx segs \<subseteq> blob_set idx' segs'" "(q, b) \<in> blob_set idx' segs'" "pl_blob p = db_blob_id b" "pl_codec p = db_codec b"
    "placed_ok E (blob_set idx' segs') p payload" "place_step s s1"
    using append_room_run [OF rep room E] by blast
  let ?e = "new_dedup_entry fp cks ?l p"
  let ?n = "?e\<lparr>entry_id := next_id entry_id (dd_view dl)\<rparr>"
  have k: "identity_key_for ?e = (fst fp, snd fp, cks, ?l)" by (simp add: identity_key_for_def new_dedup_entry_def)
  let ?res = "if fingerprint_key_for ?e \<in> fingerprint_key_for ` set (dd_view dl) then CollisionInserted ?n else Inserted ?n"
  have spec: "dedup_upsert_spec ?e (dd_view dl) = Ok (?res, dd_view dl @ [?n])"
    using miss r(2) by (simp add: dedup_upsert_spec_def k Let_def)
  have "\<forall>e\<in>set (dd_view dl @ [?n]). entry_stored (blob_set idx' segs') e"
    using a(2) new_entry_stored [OF a(4-6)] by (simp add: placing_rep_def)
  then obtain dl' s2 where u: "upsert_dedup_entry E ?e s1 = (Ok ?res, s2)" "placing_rep E s2 dl' idx' segs'" "place_step s1 s2"
    using upsert_placing_run [OF a(2) r(1) spec _ r(4,5,3)] by blast
  have "\<exists>y z. place_dedup_new E opts payload ?l fp cks col s = (Ok (p\<lparr>pl_entry := y, pl_collision := z\<rparr>), s2)"
    using a(1) u(1) by (simp add: place_dedup_new_def split: if_splits) blast+
  then show ?thesis using a(3,7) u(2) place_step_trans [OF a(8) u(3)] placed_ok_upd by blast
qed

lemma place_mismatch_run:
  assumes rep: "placing_rep E s dl idx segs" and room: "place_room E opts payload dl idx" and E: "externs_ok E"
  shows "\<exists>p dl' idx' segs' s'. place_dedup_mismatch E opts payload (of_nat (length payload)) fp cks s = (Ok p, s') \<and>
    placing_rep E s' dl' idx' segs' \<and> blob_set idx segs \<subseteq> blob_set idx' segs' \<and>
    placed_ok E (blob_set idx' segs') p payload \<and> place_step s s'"
proof -
  let ?l = "of_nat (length payload) :: u32"
  obtain p q b idx' segs' s1 where a: "append_new_blob E opts payload ?l s = (Ok p, s1)" "placing_rep E s1 dl idx' segs'"
    "blob_set idx segs \<subseteq> blob_set idx' segs'" "(q, b) \<in> blob_set idx' segs'" "pl_blob p = db_blob_id b" "pl_codec p = db_codec b"
    "placed_ok E (blob_set idx' segs') p payload" "place_step s s1"
    using append_room_run [OF rep room E] by blast
  have r: "length dl < MAX_MAINTENANCE_METADATA_RECORDS" "next_id entry_id (dd_view dl) \<noteq> - 1"
    "integrity32 E (dd_encode_log_payload dl) \<noteq> 0" "hash_order_ok E" "crc_ok E"
    using room E by (auto simp: place_room_def externs_ok_def)
  have "entry_stored (blob_set idx' segs') (new_dedup_entry fp cks ?l p)"
    using a(4-6) by (auto simp: entry_stored_def new_dedup_entry_def)
  from insert_placing_run [OF a(2) r(1,2) this r(4,5,3)]
  obtain e dl' s2 where u: "insert_dedup_collision_entry E (new_dedup_entry fp cks ?l p) s1 = (Ok e, s2)"
    "placing_rep E s2 dl' idx' segs'" "place_step s1 s2" by blast
  have "place_dedup_mismatch E opts payload ?l fp cks s = (Ok (p\<lparr>pl_entry := entry_id e, pl_collision := True\<rparr>), s2)"
    using a(1) u(1) by (simp add: place_dedup_mismatch_def)
  then show ?thesis using a(3,7) u(2) place_step_trans [OF a(8) u(3)] placed_ok_upd by blast
qed

lemma place_payload_run:
  assumes rep: "placing_rep E s dl idx segs" and room: "place_room E opts payload dl idx" and E: "externs_ok E"
  shows "\<exists>p dl' idx' segs' s'. place_payload E opts payload (of_nat (length payload)) cks s = (Ok p, s') \<and>
    placing_rep E s' dl' idx' segs' \<and> blob_set idx segs \<subseteq> blob_set idx' segs' \<and>
    placed_ok E (blob_set idx' segs') p payload \<and> place_step s s'"
proof (cases "dedup_enabled opts \<and> \<not> should_skip_cold_dedup E s")
  case False
  then show ?thesis using append_room_run [OF rep room E] by (simp add: place_payload_def) blast
next
  case True
  let ?fp = "fingerprint128 E payload" and ?l = "of_nat (length payload) :: u32"
  let ?key = "(fst ?fp, snd ?fp, cks, ?l)"
  have ext: "hash_order_ok E" "crc_ok E" using E by (auto simp: externs_ok_def)
  have ver: "should_verify_dedup_hit E e" for e using room True by (simp add: place_room_def)
  obtain c where l: "lookup_identity E ?key s = (Ok (dedup_lookup_spec ?key (dd_view dl)), dedup_cache_update (\<lambda>_. Some c) s)"
    "dd_rep E (dedup_cache_update (\<lambda>_. Some c) s) dl"
    using lookup_identity_run [of E s dl ?key] rep ext(1) unfolding placing_rep_def by blast
  let ?s = "dedup_cache_update (\<lambda>_. Some c) s"
  have fr: "dedup_frame s ?s" by simp
  have rep1: "placing_rep E ?s dl idx segs"
    using rep l(2) dedup_frame_same [OF fr] same_blobs_rep unfolding placing_rep_def by blast
  note step1 = place_step_dedup [OF fr]
  note unf = place_payload_def Let_def l(1) dedup_lookup_spec_def
  show ?thesis
  proof (cases "find (\<lambda>e. identity_key_for e = ?key) (rev (dd_view dl))")
    case None
    let ?col = "?fp \<in> fingerprint_key_for ` set (dd_view dl)"
    have "place_payload E opts payload ?l cks s = place_dedup_new E opts payload ?l ?fp cks ?col ?s"
      using True None by (simp add: unf)
    then show ?thesis using place_new_run [OF rep1 room E None, of ?col] place_step_trans [OF step1] by simp blast
  next
    case (Some e)
    have e: "e \<in> set (dd_view dl)" using find_SomeD [OF Some] by simp
    obtain same s2 where m: "dedup_entry_matches_payload E e payload ?s = (Ok same, s2)" "placing_rep E s2 dl idx segs"
      "place_step ?s s2" "same \<Longrightarrow> \<exists>q b. (q, b) \<in> blob_set idx segs \<and> stored_blob_id e = db_blob_id b \<and>
         stored_form E (de_compression e) (db_bytes b) payload"
      using matches_run [OF rep1 e] by blast
    have run: "place_payload E opts payload ?l cks s =
        (if same then place_dedup_hit E e s2 else place_dedup_mismatch E opts payload ?l ?fp cks s2)"
      using True Some ver m(1) by (simp add: unf)
    show ?thesis
    proof (cases same)
      case True
      then obtain p dl' s' where "place_dedup_hit E e s2 = (Ok p, s')" "placing_rep E s' dl' idx segs"
        "placed_ok E (blob_set idx segs) p payload" "place_step s2 s'"
        using m(4) place_hit_run [OF m(2) room Some _ _ _ ext] by blast
      then show ?thesis using run True place_step_trans [OF place_step_trans [OF step1 m(3)]] by auto
    next
      case False
      then show ?thesis using run place_mismatch_run [OF m(2) room E, of ?fp cks]
          place_step_trans [OF place_step_trans [OF step1 m(3)]] by simp blast
    qed
  qed
qed

section \<open>A written block\<close>

lemma lookup_matches_add:
  assumes m: "lookup_matches ls rs" and r: "is_active r" "record_id r \<notin> record_id ` set rs"
    and ms: "mset rs' = add_mset r (mset rs)" "mset ls' = add_mset (lookup_of i r) (mset ls)"
  shows "lookup_matches ls' rs'"
proof -
  let ?l = "lookup_of i r"
  have sets: "set rs' = insert r (set rs)" "set ls' = insert ?l (set ls)"
    using ms by (metis set_mset_add_mset_insert set_mset_mset)+
  have refs: "blk_map_ref_start ` set ls \<subseteq> record_id ` set rs"
  proof (rule image_subsetI)
    fix l assume "l \<in> set ls"
    then obtain x where "x \<in> set rs" "l = lookup_of (lookup_id l) x" using m by (auto simp: lookup_matches_def)
    then show "blk_map_ref_start l \<in> record_id ` set rs" by (metis lookup_of_sel(3) imageI)
  qed
  then have "inj_on blk_map_ref_start (set ls')" unfolding sets
    using m r(2) by (auto simp: lookup_matches_def inj_on_insert)
  moreover have "\<exists>x\<in>set rs'. is_active x \<and> l = lookup_of (lookup_id l) x" if "l \<in> set ls'" for l
  proof (cases "l = ?l")
    case True
    then show ?thesis using r(1) sets(1) by (intro bexI [of _ r]) simp_all
  next
    case False
    then have "l \<in> set ls" using that sets(2) by simp
    then show ?thesis using m sets(1) unfolding lookup_matches_def by blast
  qed
  moreover have "\<exists>j. lookup_of j x \<in> set ls'" if "x \<in> set rs'" "is_active x" for x
  proof (cases "x = r")
    case False
    then have "x \<in> set rs" using that(1) sets(1) by simp
    then show ?thesis using that(2) m sets(2) by (auto simp: lookup_matches_def)
  qed (use sets(2) in auto)
  ultimately show ?thesis unfolding lookup_matches_def by (intro conjI ballI impI) simp_all
qed

lemma layout_inv_add:
  assumes inv: "layout_inv E rs ls es bs" and r: "is_active r" "blk_fits r" "readable E bs r p" "record_id r \<notin> record_id ` set rs"
    and ms: "mset rs' = add_mset r (mset rs)" "mset ls' = add_mset (lookup_of i r) (mset ls)" and binv: "blk_inv rs'"
  shows "layout_inv E rs' ls' es bs"
proof -
  have "set rs' = insert r (set rs)" using ms(1) by (metis set_mset_add_mset_insert set_mset_mset)
  moreover have "lookup_matches ls' rs'"
    using inv by (intro lookup_matches_add [OF _ r(1,4) ms]) (simp add: layout_inv_def)
  ultimately show ?thesis using inv r binv by (auto simp: layout_inv_def)
qed

lemma readable_mono: "readable E bs r p \<Longrightarrow> bs \<subseteq> bs' \<Longrightarrow> readable E bs' r p"
  by (auto simp: readable_def)

lemma store_rep_length: "store_rep E s disk idx segs \<Longrightarrow> length (descriptors idx) \<le> MAX_MAINTENANCE_METADATA_RECORDS"
  by (auto simp: store_rep_defs index_covers_def index_disk_def dest: list_all2_lengthD)

lemma layout_files_there:
  assumes "layout_rep E s bl ll dl idx segs"
  shows "files s Blk_Map_File \<noteq> None" "files s Lookup_File \<noteq> None" "files s Dedup_File \<noteq> None"
  using assms by (auto simp: layout_rep_def blk_rep_defs table_defs log_sealed_def sealed_def shaped_def)

lemma layout_rep_ckpt_frame:
  assumes "layout_rep E s bl ll dl idx segs" "ckpt_frame s s'" "ckpt_rep E s' c"
  shows "layout_rep E s' bl ll dl idx segs"
  using assms same_blk_rep same_lk_rep same_dd_rep same_blobs_rep
  unfolding layout_rep_def ckpt_frame_def by blast

lemma layout_rep_data_step:
  assumes "layout_rep E s bl ll dl idx segs" "data_step s s'" "store_rep E s' disk idx segs"
  shows "layout_rep E s' bl ll dl idx segs"
proof -
  have "same_blk s s'" "same_lk s s'" "same_dd s s'" "same_ckpt s s'" using data_step_same [OF assms(2)] by simp_all
  then show ?thesis using assms(1,3) same_blk_rep same_lk_rep same_dd_rep same_ckpt_rep
    unfolding layout_rep_def by blast
qed

lemma layout_rep_pending: "layout_rep E (pending_sync_writes_update f s) bl ll dl idx segs = layout_rep E s bl ll dl idx segs"
proof -
  have p: "same_blk s (pending_sync_writes_update f s)" "same_lk s (pending_sync_writes_update f s)"
    "same_dd s (pending_sync_writes_update f s)" "same_blobs s (pending_sync_writes_update f s)"
    "same_ckpt s (pending_sync_writes_update f s)" by (simp_all add: same_defs)
  show ?thesis
    by (simp only: layout_rep_def same_blk_rep [OF p(1)] same_lk_rep [OF p(2)] same_dd_rep [OF p(3)]
        same_blobs_rep [OF p(4)] same_ckpt_rep [OF p(5)])
qed

text \<open>Synchronising and closing the checkpoint, as a write and a flush do.\<close>

lemma close_run:
  assumes rep: "layout_rep E s bl ll dl idx segs"
  shows "\<exists>s1 s2. sync_layout_segments E s = (Ok (), s1) \<and> persist_checkpoint_cached E c s1 = (Ok (), s2) \<and>
    layout_rep E s2 bl ll dl idx segs \<and> ckpt_rep E s2 c"
proof -
  obtain disk where st: "store_rep E s disk idx segs" using rep by (auto simp: layout_rep_def)
  obtain disk' s1 where s1: "sync_layout_segments E s = (Ok (), s1)" "store_rep E s1 disk' idx segs" "data_step s s1"
    using sync_layout_run [OF st store_rep_length [OF st] layout_files_there [OF rep]] by blast
  obtain s2 where s2: "persist_checkpoint_cached E c s1 = (Ok (), s2)" "ckpt_rep E s2 c" "ckpt_frame s1 s2"
    using persist_checkpoint_run by blast
  have "layout_rep E s2 bl ll dl idx segs"
    by (rule layout_rep_ckpt_frame [OF layout_rep_data_step [OF rep s1(3,2)] s2(3,2)])
  then show ?thesis using s1(1) s2(1,2) by blast
qed

lemma finish_write_run:
  assumes rep: "layout_rep E s bl ll dl idx segs"
  shows "\<exists>c' s'. finish_write E opts None c s = (Ok c', s') \<and> layout_rep E s' bl ll dl idx segs"
proof -
  let ?n = "saturating_add (pending_count s) 1"
  let ?s = "pending_sync_writes_update (\<lambda>_. Some ?n) s"
  have rep1: "layout_rep E ?s bl ll dl idx segs" using rep by (simp add: layout_rep_pending)
  have pend: "record_pending_write s = (Ok ?n, ?s)" by (simp add: record_pending_write_def Let_def)
  obtain s1 s2 where "sync_layout_segments E ?s = (Ok (), s1)" "persist_checkpoint_cached E (next_epoch Clean c) s1 = (Ok (), s2)"
    "layout_rep E s2 bl ll dl idx segs" using close_run [OF rep1] by blast
  then show ?thesis using pend rep1
    by (auto simp: finish_write_def clear_pending_writes_def layout_rep_pending)
qed

definition write_room ::
  "externs \<Rightarrow> WriteOptions \<Rightarrow> u64 \<Rightarrow> bytes \<Rightarrow> BlkMapRecord list \<Rightarrow> MapLookupRecord list \<Rightarrow> DedupIndexEntry list \<Rightarrow>
   SegmentIndex \<Rightarrow> bool" where
  "write_room E opts start payload bl ll dl idx \<longleftrightarrow>
     place_room E opts payload dl idx \<and>
     length bl < MAX_MAINTENANCE_METADATA_RECORDS \<and> length ll < MAX_MAINTENANCE_METADATA_RECORDS \<and>
     next_record_id (blk_view E bl) \<noteq> - 1 \<and> next_lookup_id (lk_view E ll) \<noteq> - 1 \<and>
     integrity32 E (blk_encode_log_payload bl) \<noteq> 0 \<and> integrity32 E (log_payload LK_LOG_PREFIX lk_encode ll) \<noteq> 0 \<and>
     unat start + length payload < 2 ^ 64 \<and>
     (\<forall>r\<in>set (blk_view E bl). is_active r \<longrightarrow>
        unat (logical_end r) \<le> unat start \<or> unat start + length payload \<le> unat (logical_start r))"

lemma block_record_facts:
  assumes len: "length payload < 2 ^ 32" "payload \<noteq> []" "unat start + length payload < 2 ^ 64"
    and r_def: "r = block_record E opts start (of_nat (length payload)) payload fm p"
  shows "is_active r" "blk_wf r" "blk_fits r" "record_id r = 0" "logical_start r = start"
    "unat (logical_end r) = unat start + length payload" "logical_start r < logical_end r"
    "placed_ok E bs p payload \<Longrightarrow> readable E bs (r\<lparr>record_id := i\<rparr>) payload"
proof -
  have l: "unat (of_nat (length payload) :: u32) = length payload" using len(1) by (simp add: unat_of_nat_small)
  have pos: "0 < length payload" using len(2) by simp
  show simple: "is_active r" "blk_wf r" "record_id r = 0" "logical_start r = start"
    by (simp_all add: r_def block_record_def is_active_def blk_wf_def)
  have ll: "logical_len r = of_nat (length payload)" by (simp add: r_def block_record_def)
  then show "blk_fits r" using len(3) l pos simple(4) by (simp add: blk_fits_def word_less_nat_alt)
  show e: "unat (logical_end r) = unat start + length payload"
    using len(3) l simple(4) by (simp add: logical_end_def ll unat_saturating_add)
  show "logical_start r < logical_end r" using e pos simple(4) by (simp add: word_less_nat_alt)
  assume "placed_ok E bs p payload"
  then obtain q b where b: "(q, b) \<in> bs" "pl_segment p = ucast q" "pl_blob p = db_blob_id b"
    "stored_form E (pl_codec p) (db_bytes b) payload" by (auto simp: placed_ok_def)
  have "decode_block E (r\<lparr>record_id := i\<rparr>) (db_bytes b) = Ok payload"
    using b(4) l by (auto simp: decode_block_def r_def block_record_def stored_form_def split: if_splits)
  then show "readable E bs (r\<lparr>record_id := i\<rparr>) payload" unfolding readable_def
    using b by (intro exI [of _ q] exI [of _ b]) (simp add: r_def block_record_def verify_logical_payload_checksum_def)
qed

lemma lookup_for_eq:
  assumes "blk_fits r"
  shows "(lookup_for r)\<lparr>lookup_id := i\<rparr> = lookup_of i r"
proof -
  have "unat (logical_end r - 1) = unat (logical_start r + (ucast (logical_len r) - 1))"
    using assms by (simp add: blk_fits_def logical_end_def unat_saturating_add unat_sub_if' unat_word_ariths
        word_less_nat_alt) (metis less_imp_diff_less mod_less)
  then show ?thesis by (simp add: lookup_for_def lookup_of_def word_unat_eq_iff)
qed

text \<open>
  The records of a write, after its payload is placed: the block map and the
  lookup table get one entry each, and the block can be read.
\<close>

lemma record_write_run:
  assumes blk: "blk_rep E s bl" and lk: "lk_rep E s ll" and pl: "placing_rep E s dl' idx' segs'" and ck: "ckpt_rep E s c"
    and inv: "layout_inv E (blk_view E bl) (lk_view E ll) es bs" and sub: "bs \<subseteq> blob_set idx' segs'"
    and room: "write_room E opts start payload bl ll dl idx" and p: "placed_ok E (blob_set idx' segs') p payload"
    and E: "externs_ok E"
    and r0_def: "r0 = block_record E opts start (of_nat (length payload)) payload fm p"
  shows "\<exists>r l s1 s2. append_blk_map_record E r0 s = (Ok r, s1) \<and> append_lookup_record E (lookup_for r) s1 = (Ok l, s2) \<and>
    r = r0\<lparr>record_id := next_record_id (blk_view E bl)\<rparr> \<and> layout_rep E s2 (bl @ [r]) (ll @ [l]) dl' idx' segs' \<and>
    ckpt_rep E s2 c \<and> mset (blk_view E (bl @ [r])) = add_mset r (mset (blk_view E bl)) \<and>
    readable E (blob_set idx' segs') r payload"
proof -
  let ?rs = "blk_view E bl" and ?bs = "blob_set idx' segs'"
  let ?r = "r0\<lparr>record_id := next_record_id ?rs\<rparr>"
  have w: "length payload < 2 ^ 32" "payload \<noteq> []" "unat start + length payload < 2 ^ 64"
    "length bl < MAX_MAINTENANCE_METADATA_RECORDS" "length ll < MAX_MAINTENANCE_METADATA_RECORDS"
    "next_record_id ?rs \<noteq> - 1" "next_lookup_id (lk_view E ll) \<noteq> - 1"
    "integrity32 E (blk_encode_log_payload bl) \<noteq> 0" "integrity32 E (log_payload LK_LOG_PREFIX lk_encode ll) \<noteq> 0"
    using room by (auto simp: write_room_def place_room_def MAX_DECOMPRESSED_PAYLOAD_LEN_def)
  note r0 = block_record_facts [OF w(1-3) r0_def]
  have ext: "hash_order_ok E" "crc_ok E" using E by (auto simp: externs_ok_def)
  have free: "\<not> (\<exists>x\<in>set ?rs. is_active x \<and> ranges_overlap x r0)"
    using room r0(5,6) by (force simp: write_room_def ranges_overlap_def word_less_nat_alt)
  obtain s1 where s1: "append_blk_map_record E r0 s = (Ok ?r, s1)" "blk_frame s s1"
    "mset (blk_view E (bl @ [?r])) = add_mset ?r (mset ?rs)" "blk_inv (blk_view E (bl @ [?r]))" "blk_rep E s1 (bl @ [?r])"
    using append_blk_step [OF blk _ r0(4,7,2) free w(6) ext w(8) refl] inv w(4) by (auto simp: layout_inv_def)
  note same1 = blk_frame_same [OF s1(2)]
  have lk1: "lk_rep E s1 ll" using lk same1 same_lk_rep by blast
  have fits: "blk_fits ?r" "is_active ?r" using r0(1,3) by (simp_all add: blk_fits_def is_active_def)
  let ?l = "lookup_of (next_lookup_id (lk_view E ll)) ?r"
  obtain s2 where s2: "append_lookup_record E (lookup_for ?r) s1 = (Ok ?l, s2)" "lk_rep E s2 (ll @ [?l])" "lookup_frame s1 s2"
    "mset (lk_view E (ll @ [?l])) = add_mset ?l (mset (lk_view E ll))"
    using append_lookup_step [OF lk1 _ w(7) ext w(9,5) lookup_for_eq [OF fits(1), symmetric]] by (auto simp: lookup_for_def)
  note same2 = lookup_frame_same [OF s2(3)]
  have fresh: "record_id ?r \<notin> record_id ` set ?rs" using next_record_id_fresh [OF w(6)] by force
  have "layout_inv E ?rs (lk_view E ll) (dd_view dl') ?bs"
    using inv pl sub readable_mono unfolding layout_inv_def placing_rep_def by blast
  from layout_inv_add [OF this fits(2,1) r0(8) [OF p] fresh s1(3) s2(4) s1(4)]
  have "layout_inv E (blk_view E (bl @ [?r])) (lk_view E (ll @ [?l])) (dd_view dl') ?bs" .
  moreover have "blk_rep E s2 (bl @ [?r])" using s1(5) same2 same_blk_rep by blast
  moreover have eq: "same_dd s s1" "same_dd s1 s2" "same_blobs s s1" "same_blobs s1 s2" "same_ckpt s s1" "same_ckpt s1 s2"
    using same1 same2 by simp_all
  have "dd_rep E s2 dl'" "\<exists>disk. store_rep E s2 disk idx' segs'" "ckpt_rep E s2 c"
    using pl ck by (simp_all add: placing_rep_def same_dd_rep [OF eq(2)] same_dd_rep [OF eq(1)]
        same_blobs_rep [OF eq(4)] same_blobs_rep [OF eq(3)] same_ckpt_rep [OF eq(6)] same_ckpt_rep [OF eq(5)])
  ultimately have "layout_rep E s2 (bl @ [?r]) (ll @ [?l]) dl' idx' segs'" "ckpt_rep E s2 c"
    using s2(2) unfolding layout_rep_def by blast+
  then show ?thesis using s1(1,3) s2(1) r0(8) [OF p] by blast
qed

lemma write_run:
  assumes rep: "layout_rep E s bl ll dl idx segs" and room: "write_room E opts start payload bl ll dl idx" and E: "externs_ok E"
  shows "\<exists>w r l dl' idx' segs' s'. write_logical_block E start payload fm opts None s = (Ok w, s') \<and>
    layout_rep E s' (bl @ [r]) (ll @ [l]) dl' idx' segs' \<and> blob_set idx segs \<subseteq> blob_set idx' segs' \<and>
    mset (blk_view E (bl @ [r])) = add_mset r (mset (blk_view E bl)) \<and> readable E (blob_set idx' segs') r payload \<and>
    is_active r \<and> logical_start r = start \<and> unat (logical_end r) = unat start + length payload \<and>
    logical_len r = of_nat (length payload) \<and> wr_record_id w = record_id r"
proof -
  let ?l = "of_nat (length payload) :: u32" and ?cks = "if payload_checksum_enabled opts then checksum32 payload else 0"
  obtain disk c0 where st: "blk_rep E s bl" "lk_rep E s ll" "dd_rep E s dl" "store_rep E s disk idx segs" "ckpt_rep E s c0"
    and inv: "layout_inv E (blk_view E bl) (lk_view E ll) (dd_view dl) (blob_set idx segs)" using rep by (rule layout_repE)
  have pr: "place_room E opts payload dl idx" and len: "payload \<noteq> []" "length payload < 2 ^ 32" "unat start + length payload < 2 ^ 64"
    using room by (auto simp: write_room_def place_room_def MAX_DECOMPRESSED_PAYLOAD_LEN_def)
  obtain c s1 where s1: "mark_checkpoint_dirty E s = (Ok c, s1)" "ckpt_rep E s1 c" "ckpt_frame s s1"
    using mark_dirty_run [OF st(5)] by blast
  have eq: "same_blk s s1" "same_lk s s1" "same_dd s s1" "same_blobs s s1" using s1(3) by (simp_all add: ckpt_frame_def)
  have "placing_rep E s1 dl idx segs" using st(3,4) inv
    by (auto simp: placing_rep_def layout_inv_def same_dd_rep [OF eq(3)] same_blobs_rep [OF eq(4)])
  from place_payload_run [OF this pr E, of ?cks]
  obtain p dl' idx' segs' s2 where s2: "place_payload E opts payload ?l ?cks s1 = (Ok p, s2)" "placing_rep E s2 dl' idx' segs'"
    "blob_set idx segs \<subseteq> blob_set idx' segs'" "placed_ok E (blob_set idx' segs') p payload" "place_step s1 s2" by blast
  have eq2: "same_blk s1 s2" "same_lk s1 s2" "same_ckpt s1 s2" using s2(5) by (simp_all add: place_step_def)
  have st2: "blk_rep E s2 bl" "lk_rep E s2 ll" "ckpt_rep E s2 c" using st(1,2) s1(2)
    by (simp_all add: same_blk_rep [OF eq2(1)] same_blk_rep [OF eq(1)] same_lk_rep [OF eq2(2)] same_lk_rep [OF eq(2)]
        same_ckpt_rep [OF eq2(3)])
  let ?r0 = "block_record E opts start ?l payload fm p"
  obtain r l s3 s4 where s4: "append_blk_map_record E ?r0 s2 = (Ok r, s3)" "append_lookup_record E (lookup_for r) s3 = (Ok l, s4)"
    "r = ?r0\<lparr>record_id := next_record_id (blk_view E bl)\<rparr>" "layout_rep E s4 (bl @ [r]) (ll @ [l]) dl' idx' segs'"
    "mset (blk_view E (bl @ [r])) = add_mset r (mset (blk_view E bl))" "readable E (blob_set idx' segs') r payload"
    using record_write_run [OF st2(1,2) s2(2) st2(3) inv s2(3) room s2(4) E refl] by blast
  obtain c' s5 where s5: "finish_write E opts None c s4 = (Ok c', s5)" "layout_rep E s5 (bl @ [r]) (ll @ [l]) dl' idx' segs'"
    using finish_write_run [OF s4(4)] by blast
  note r0 = block_record_facts [OF len(2,1,3), of ?r0, OF refl]
  have "is_active r \<and> logical_start r = start \<and> unat (logical_end r) = unat start + length payload \<and>
      logical_len r = ?l"
    using r0(1,5,6) s4(3) by (simp add: is_active_def logical_end_def block_record_def)
  moreover have "\<exists>w. write_logical_block E start payload fm opts None s = (Ok w, s5) \<and> wr_record_id w = record_id r"
    using len(1,2) s1(1) s2(1) s4(1,2) s5(1)
    by (simp add: write_logical_block_def interrupt_at_def checked_u32_len_def try_from_nat_def)
  ultimately show ?thesis using s4(5,6) s5(2) s2(3) by blast
qed

lemma read_spec_new:
  assumes "mset rs' = add_mset r (mset rs)" "readable E bs r p" "is_active r" "covers n r"
  shows "read_spec E rs' bs n (Some (read_result r p))"
proof -
  have "set rs' = insert r (set rs)" using assms(1) by (metis set_mset_add_mset_insert set_mset_mset)
  then show ?thesis using assms by (auto simp: read_spec_def)
qed

lemma read_spec_old:
  assumes "mset rs' = add_mset r (mset rs)" "bs \<subseteq> bs'" "\<not> covers n r" "read_spec E rs bs n res"
  shows "read_spec E rs' bs' n res"
proof -
  have "set rs' = insert r (set rs)" using assms(1) by (metis set_mset_add_mset_insert set_mset_mset)
  then show ?thesis using assms(3,4) readable_mono [OF _ assms(2)]
    by (cases res) (auto simp: read_spec_def, blast)
qed

lemma read_determined:
  assumes "layout_rep E s bl ll dl idx segs" "hash_order_ok E" "read_spec E (blk_view E bl) (blob_set idx segs) n res"
  shows "fst (read_logical_block E n s) = Ok res"
proof -
  obtain disk where d: "store_rep E s disk idx segs" "blk_inv (blk_view E bl)"
    using assms(1) by (auto simp: layout_rep_def layout_inv_def)
  show ?thesis using read_run [OF assms(1,2), of n] read_spec_unique [OF d _ assms(3)] by fastforce
qed

end
