(* ===== verification/Overwrite.thy ===== *)
theory Overwrite
  imports Data_Path
begin

text \<open>
  The reset of a cartridge before it is overwritten, the data path on a
  cartridge as a whole, and its properties: a written block is read back, a
  reset cartridge is empty, unmapped blocks are gone.
\<close>

section \<open>Names of data segments\<close>

lemma decimal_length: "n < 10 ^ k \<Longrightarrow> 0 < k \<Longrightarrow> length (decimal n) \<le> k"
proof (induction k arbitrary: n)
  case (Suc k)
  show ?case
  proof (cases "n < 10")
    case False
    then have "n div 10 < 10 ^ k" "0 < k" using Suc.prems(1) by (auto intro!: Nat.gr0I)
    then show ?thesis using Suc.IH [of "n div 10"] False by (simp add: decimal.simps [of n])
  qed (simp add: decimal.simps [of n])
qed simp

lemma decimal_bound: "n < 10 ^ length (decimal n)"
proof (induction n rule: decimal.induct)
  case (1 n)
  show ?case
  proof (cases "n < 10")
    case False
    then have "n div 10 < 10 ^ length (decimal (n div 10))" using 1 by simp
    then have "n < 10 * 10 ^ length (decimal (n div 10))" by linarith
    then show ?thesis using False by (simp add: decimal.simps [of n])
  qed (simp add: decimal.simps [of n])
qed

lemma parse_zero_padded: "parse_nat (zero_padded w n) = Some n"
proof -
  have zeros: "decimal_value (replicate k (CHR ''0'') @ ds) = decimal_value ds" for k ds
  proof (induction k)
    case (Suc k)
    then show ?case by (simp add: decimal_value_def digit_value_def char_code_def)
  qed simp
  have d: "is_ascii_digit (CHR ''0'')" by (simp add: is_ascii_digit_def char_code_def)
  show ?thesis
  proof (cases "w - length (decimal n)")
    case 0
    then show ?thesis by (simp add: zero_padded_def parse_decimal)
  next
    case (Suc k)
    then show ?thesis using decimal_digits [of n] zeros [of "Suc k" "decimal n"] decimal_value_decimal [of n] d
      by (auto simp: zero_padded_def parse_nat_def list_all_iff)
  qed
qed

lemma length_zero_padded: "length (zero_padded w n) = max w (length (decimal n))"
  by (simp add: zero_padded_def)

text \<open>The six digits of a name hold exactly the numbers below a million.\<close>

lemma indexed_segment_name:
  "indexed_data_segment_seq (data_segment_name q) = (if unat q < 1000000 then Some q else None)"
proof -
  let ?z = "zero_padded 6 (unat q)"
  have pre: "prefix ''data_'' (data_segment_name q)" "suffix ''.seg'' (data_segment_name q)"
    by (simp_all add: data_segment_name_def suffix_def)
  have dg: "take (length (data_segment_name q) - 9) (drop 5 (data_segment_name q)) = ?z"
    by (simp add: data_segment_name_def)
  have "list_all is_ascii_digit ?z"
    using decimal_digits [of "unat q"] by (auto simp: zero_padded_def list_all_iff is_ascii_digit_def char_code_def)
  moreover have "length ?z = 6 \<longleftrightarrow> unat q < 1000000"
    using decimal_length [of "unat q" 6] decimal_bound [of "unat q"]
      power_increasing [of "length (decimal (unat q))" 6 "10::nat"] by (auto simp: length_zero_padded max_def)
  moreover have "parse_word ?z = Some q"
    using unat_bound [of q] by (simp add: parse_word_def parse_zero_padded try_from_nat_def)
  ultimately show ?thesis using pre dg by (simp add: indexed_data_segment_seq_def Let_def)
qed

section \<open>Resetting\<close>

lemma persist_blk_empty_run:
  assumes E: "hash_order_ok E"
  shows "\<exists>s'. persist_blk_map_records E [] s = (Ok (), s') \<and> blk_rep E s' [] \<and> blk_frame s s'"
proof -
  have len: "length (blk_encode_log_payload []) + 96 < 2 ^ 64" by (simp add: blk_encode_log_payload_def BLK_LOG_PREFIX_def)
  obtain s1 where w: "write_segment_file E Blk_Map_File KBlkMap 2 (blk_sequence []) (blk_encode_log_payload []) s = (Ok (), s1)"
    "log_sealed E s1 Blk_Map_File KBlkMap (blk_encode_log_payload [])" "frame Blk_Map_File s s1"
    using write_log_sealed [OF len] by (metis (no_types) surj_pair)
  then obtain h where h: "sealed E s1 Blk_Map_File h (blk_encode_log_payload [])" "kind h = KBlkMap" "append_cache_ok E s1 Blk_Map_File"
    by (auto simp: log_sealed_def)
  have "mset (blk_view E []) = {#}" using keys_latest_values [OF E, of record_id "[]"] by (simp add: blk_view_def)
  then obtain s2 where s2: "blk_update_cache (blk_sequence []) [] s1 = (Ok (), s2)" "blk_rep E s2 []" "blk_frame s1 s2"
    using blk_rep_updated [OF h] by (auto simp: MAX_MAINTENANCE_METADATA_RECORDS_def)
  have "blk_frame s s1" using w(3) segment_more_blk [of s1 s] by (simp add: frame_def blk_frame_def)
  then show ?thesis using w(1) s2 blk_frame_trans by (auto simp: persist_blk_map_records_def)
qed

lemma persist_dedup_empty_run: "\<exists>s'. persist_dedup_entries E [] s = (Ok (), s') \<and> dd_rep E s' [] \<and> dedup_frame s s'"
proof -
  have v: "dd_view [] = []" by (simp add: dd_view_def latest_by_def)
  have len: "length (log_payload DD_LOG_PREFIX dd_encode []) + 96 < 2 ^ 64" using dd.length_log_payload [of "[]"] by simp
  obtain s1 where w: "write_segment_file E Dedup_File KDedup 5 0 (log_payload DD_LOG_PREFIX dd_encode []) s = (Ok (), s1)"
    "log_sealed E s1 Dedup_File KDedup (log_payload DD_LOG_PREFIX dd_encode [])" "frame Dedup_File s s1"
    using write_log_sealed [OF len] by (metis (no_types) surj_pair)
  obtain s2 where s2: "dd_update_cache 0 (dd_view []) s1 = (Ok (), s2)" "dd_rep_any E s2 []" "dedup_frame s1 s2"
    using dd_update_cache_run [OF w(2)] by blast
  have "persist_dedup_entries E [] s = (Ok (), s2)"
    using w(1) s2(1) v by (simp add: persist_dedup_entries_def dd_encode_log_payload_eq)
  moreover have "dd_rep E s2 []" using s2(2) by (simp add: table_rep_def)
  ultimately show ?thesis using dedup_frame_trans [OF frame_dedup_frame [OF w(3)] s2(3)] by blast
qed

lemma index_new_facts:
  "index_inv (index_new mx)" "descriptors (index_new mx) = [empty_descriptor 0]" "next_segment_seq (index_new mx) = 1"
  using index_inv_single [of "index_new mx" "empty_descriptor 0"] by (simp_all add: index_new_def)

text \<open>A cached blob list belongs to a segment file that a reset recognises by its name.\<close>

definition cached_segments_named :: "'z data_store_scheme \<Rightarrow> bool" where
  "cached_segments_named s \<longleftrightarrow>
     (\<forall>q. data_cache s (Data_Segment q) \<noteq> None \<longrightarrow> files s (Data_Segment q) \<noteq> None \<and> unat q < 1000000)"

lemma reset_blobs_run:
  assumes named: "cached_segments_named s"
    and idx_def: "idx = index_new mx"
  shows "\<exists>s1 s2 s3 s4 s5. remove_data_segment_files s = (Ok (), s1) \<and>
    write_segment_file E (Data_Segment 0) KData 1 e [] s1 = (Ok (), s2) \<and>
    persist_segment_index E idx s2 = (Ok (), s3) \<and> store_segment_index_clean idx s3 = (Ok (), s4) \<and>
    update_data_cache (Data_Segment 0) e [] s4 = (Ok (), s5) \<and>
    store_rep E s5 idx idx (\<lambda>_. []) \<and> same_blk s s5 \<and> same_lk s s5 \<and> same_dd s s5 \<and> same_ckpt s s5"
proof -
  let ?f = "Data_Segment 0" and ?g = Segment_Index_File
  let ?hf = "header_new E KData 1 e []" and ?hg = "header_new E KSegmentIndex 7 (next_segment_seq idx) (index_encode idx)"
  define s1 where "s1 = snd (remove_data_segment_files s)"
  define s2 where "s2 = s1\<lparr>files := (files s1)(Tmp ?f := None, ?f := Some (segment_headers E ?hf)),
      append_file_cache := (append_file_cache s1)(?f := None)\<rparr>"
  define s3 where "s3 = s2\<lparr>files := (files s2)(Tmp ?g := None, ?g := Some (segment_headers E ?hg @ index_encode idx)),
      append_file_cache := (append_file_cache s2)(?g := None)\<rparr>"
  define s4 where "s4 = snd (store_segment_index_clean idx s3)"
  define c where "c = \<lparr>dc_stamp = segment_headers E ?hf, dc_sequence = e, dc_blobs = [], dc_is_log_format = True\<rparr>"
  define s5 where "s5 = data_cache_update (\<lambda>m. m(?f := Some c)) s4"
  have s1: "remove_data_segment_files s = (Ok (), s1)" by (simp add: s1_def remove_data_segment_files_def Let_def)
  have s4: "store_segment_index_clean idx s3 = (Ok (), s4)"
    by (simp add: s4_def store_segment_index_clean_def set_index_cache_def)
  have ff: "files s4 ?f = Some (segment_headers E ?hf)" "append_file_cache s4 ?f = None"
    by (simp_all add: s4_def store_segment_index_clean_def set_index_cache_def s3_def s2_def)
  have run: "write_segment_file E ?f KData 1 e [] s1 = (Ok (), s2)" "persist_segment_index E idx s2 = (Ok (), s3)"
    "update_data_cache ?f e [] s4 = (Ok (), s5)"
    using ff by (simp_all add: write_segment_file_run s2_def persist_segment_index_def s3_def update_data_cache_def
        file_stamp_def set_data_cache_def s5_def c_def)
  have cache0: "data_cache s1 (Data_Segment q) = None" for q
    using named indexed_segment_name [of q]
    by (auto simp: s1_def remove_data_segment_files_def Let_def is_indexed_data_segment_def cached_segments_named_def)
  have dc: "data_cache s5 = (data_cache s1)(?f := Some c)"
    by (simp add: s5_def s4_def store_segment_index_clean_def set_index_cache_def s3_def s2_def)
  have "data_seg E s5 ?f []"
    using ff by (auto simp: data_seg_def seg_payload_def shaped_def s5_def c_def append_cache_ok_def data_cache_valid_def
        intro!: exI [of _ ?hf])
  then have "blobs_rep E s5 idx (\<lambda>_. [])"
    by (simp add: blobs_rep_def idx_def index_new_facts seg_payload_def)
  moreover have len: "length (descriptors idx) \<le> MAX_MAINTENANCE_METADATA_RECORDS"
    by (simp add: idx_def index_new_facts MAX_MAINTENANCE_METADATA_RECORDS_def)
  have gf: "files s5 ?g = Some (segment_headers E ?hg @ index_encode idx)"
    by (simp add: s5_def s4_def store_segment_index_clean_def set_index_cache_def s3_def)
  have "index_disk E s5 idx" unfolding index_disk_def using len index_encode_fits [OF len] gf
    by (intro conjI exI [of _ ?hg] sealed_header_new) (simp_all add: MAX_MAINTENANCE_METADATA_BYTES_def)
  moreover have "data_cache s5 (Data_Segment q) = None" if "unat (next_segment_seq idx) \<le> unat q" for q
    using that cache0 [of q] by (auto simp: dc idx_def index_new_facts)
  ultimately have "segs_rep E s5 idx idx (\<lambda>_. [])" by (simp add: segs_rep_def idx_def index_new_facts(1))
  moreover from this have "index_rep E s5 idx idx"
    by (simp add: segs_rep_def index_rep_def s5_def s4_def store_segment_index_clean_def set_index_cache_def)
  moreover have "same_blk s s5 \<and> same_lk s s5 \<and> same_dd s s5 \<and> same_ckpt s s5"
    by (simp add: same_defs s5_def s4_def store_segment_index_clean_def set_index_cache_def s3_def s2_def s1_def
        remove_data_segment_files_def Let_def is_indexed_data_segment_def)
  ultimately show ?thesis using s1 s4 run unfolding store_rep_def by blast
qed

lemma empty_layout_inv: "hash_order_ok E \<Longrightarrow> layout_inv E (blk_view E []) (lk_view E []) (dd_view []) (blob_set idx (\<lambda>_. []))"
  using keys_latest_values [of E "record_id :: BlkMapRecord \<Rightarrow> u64" "[]"]
    keys_latest_values [of E "lookup_id :: MapLookupRecord \<Rightarrow> u64" "[]"]
  by (simp add: layout_inv_def blk_view_def lk_view_def dd_view_def blob_set_def lookup_matches_def)

text \<open>The reset leaves an empty cartridge behind.\<close>

lemma reset_run:
  assumes ck: "ckpt_rep E s c" and named: "cached_segments_named s" and E: "hash_order_ok E"
  shows "\<exists>s'. reset_layout_for_overwrite E s = (Ok (), s') \<and>
    layout_rep E s' [] [] [] (index_new (configured_max_segment_size E)) (\<lambda>_. [])"
proof -
  let ?idx = "index_new (configured_max_segment_size E)" and ?c1 = "next_epoch Dirty c"
  let ?c2 = "(next_epoch Clean ?c1)\<lparr>active_blk_map_root := 2, active_lookup_root := 3\<rparr>"
  obtain s1 where s1: "load_checkpoint_cached E s = (Ok c, s1)" "ckpt_frame s s1" using load_checkpoint_run [OF ck] by blast
  obtain s2 where s2: "persist_checkpoint_cached E ?c1 s1 = (Ok (), s2)" "ckpt_frame s1 s2" using persist_checkpoint_run by blast
  obtain s3 where s3: "persist_blk_map_records E [] s2 = (Ok (), s3)" "blk_rep E s3 []" "blk_frame s2 s3"
    using persist_blk_empty_run [OF E] by blast
  obtain s4 where s4: "persist_lookup_records E [] s3 = (Ok (), s4)" "lk_rep E s4 []" "lookup_frame s3 s4"
    using persist_lookup_run [of "[]" E s3] E by auto
  obtain s5 where s5: "write_segment_file E Reclaim_File KReclaim 4 (epoch ?c1) [] s4 = (Ok (), s5)" "frame Reclaim_File s4 s5"
    using write_log_sealed [of "[]" E Reclaim_File KReclaim 4 "epoch ?c1" s4]
    by (cases "write_segment_file E Reclaim_File KReclaim 4 (epoch ?c1) [] s4") auto
  obtain s6 where s6: "persist_dedup_entries E [] s5 = (Ok (), s6)" "dd_rep E s6 []" "dedup_frame s5 s6"
    using persist_dedup_empty_run by blast
  note fr = s1(2) s2(2) blk_frame_same [OF s3(3)] lookup_frame_same [OF s4(3)] dedup_frame_same [OF s6(3)]
  have "same_blk s4 s5 \<and> same_lk s4 s5 \<and> same_blobs s4 s5"
    using s5(2) frame_data [OF s5(2)] others_same_blobs [OF frame_others [OF s5(2)]]
    by (auto simp: same_defs frame_def others_same_def)
  with fr have eq: "same_blobs s s6" "same_blk s3 s6" "same_lk s4 s6" by (auto simp: same_defs ckpt_frame_def)
  have "cached_segments_named s6" using named eq(1) by (simp add: cached_segments_named_def same_defs)
  from reset_blobs_run [OF this refl, of E "epoch ?c1" "configured_max_segment_size E"]
  obtain t1 t2 t3 t4 t5 where t: "remove_data_segment_files s6 = (Ok (), t1)"
    "write_segment_file E (Data_Segment 0) KData 1 (epoch ?c1) [] t1 = (Ok (), t2)"
    "persist_segment_index E ?idx t2 = (Ok (), t3)" "store_segment_index_clean ?idx t3 = (Ok (), t4)"
    "update_data_cache (Data_Segment 0) (epoch ?c1) [] t4 = (Ok (), t5)" "store_rep E t5 ?idx ?idx (\<lambda>_. [])"
    and te: "same_blk s6 t5" "same_lk s6 t5" "same_dd s6 t5" by blast
  obtain u where u: "persist_checkpoint_cached E ?c2 t5 = (Ok (), u)" "ckpt_rep E u ?c2" "ckpt_frame t5 u"
    using persist_checkpoint_run by blast
  have "blk_rep E t5 []" "lk_rep E t5 []" "dd_rep E t5 []"
    using s3(2) s4(2) s6(2) same_blk_rep [OF eq(2)] same_blk_rep [OF te(1)] same_lk_rep [OF eq(3)] same_lk_rep [OF te(2)]
      same_dd_rep [OF te(3)] by simp_all
  then have "layout_rep E u [] [] [] ?idx (\<lambda>_. [])"
    using t(6) u(2,3) empty_layout_inv [OF E] same_blk_rep same_lk_rep same_dd_rep same_blobs_rep
    unfolding layout_rep_def ckpt_frame_def by blast
  then show ?thesis
    using s1(1) s2(1) s3(1) s4(1) s5(1) s6(1) t(1-5) u(1)
    by (auto simp: reset_layout_for_overwrite_def Let_def clear_pending_writes_def layout_rep_pending)
qed

section \<open>An empty cartridge\<close>

definition sample_checkpoint :: MetadataCheckpoint where
  "sample_checkpoint =
     \<lparr>page_id = 1, epoch = 1, active_blk_map_root = 2, active_lookup_root = 3, flags = Clean\<rparr>"

definition sample_cartridge :: "'z \<Rightarrow> 'z data_store_scheme" where
  "sample_cartridge z =
     \<lparr>files = (\<lambda>f. if f = Metadata_File
        then Some (segment_headers plain_externs (header_new plain_externs KMetadata 1 1 (checkpoint_encode sample_checkpoint)) @
          checkpoint_encode sample_checkpoint) else None),
      append_file_cache = (\<lambda>_. None), blk_map_cache = None, lookup_cache = None, dedup_cache = None,
      segment_index_cache = None, data_cache = (\<lambda>_. None), checkpoint_cache = None, pending_sync_writes = None, \<dots> = z\<rparr>"

lemma sample_cartridge_ok: "ckpt_rep plain_externs (sample_cartridge z) sample_checkpoint" "cached_segments_named (sample_cartridge z)"
proof -
  have "sealed plain_externs (sample_cartridge z) Metadata_File
      (header_new plain_externs KMetadata 1 1 (checkpoint_encode sample_checkpoint)) (checkpoint_encode sample_checkpoint)"
    by (rule sealed_header_new) (simp_all add: sample_cartridge_def)
  then show "ckpt_rep plain_externs (sample_cartridge z) sample_checkpoint"
    by (auto simp: ckpt_rep_def sample_cartridge_def intro!: exI [of _ "header_new plain_externs KMetadata 1 1 (checkpoint_encode sample_checkpoint)"])
  show "cached_segments_named (sample_cartridge z)" by (simp add: cached_segments_named_def sample_cartridge_def)
qed

lemma sample_reset:
  obtains s where "reset_layout_for_overwrite plain_externs (sample_cartridge z) = (Ok (), s)"
    "layout_rep plain_externs s [] [] [] (index_new (configured_max_segment_size plain_externs)) (\<lambda>_. [])"
  using reset_run [OF sample_cartridge_ok plain_externs_ok(7), of z] that by blast

lemma empty_views: "hash_order_ok E \<Longrightarrow> blk_view E [] = []" "hash_order_ok E \<Longrightarrow> lk_view E [] = []" "dd_view [] = []"
  using keys_latest_values [of E "record_id :: BlkMapRecord \<Rightarrow> u64" "[]"]
    keys_latest_values [of E "lookup_id :: MapLookupRecord \<Rightarrow> u64" "[]"]
  by (simp_all add: blk_view_def lk_view_def dd_view_def)

lemma sample_write_room:
  "write_room plain_externs write_options_default 5 [1, 2, 3] [] [] [] (index_new (configured_max_segment_size plain_externs))"
proof -
  let ?E = plain_externs
  have "integrity32 ?E (blk_encode_log_payload []) \<noteq> 0" "integrity32 ?E (log_payload LK_LOG_PREFIX lk_encode []) \<noteq> 0"
    "integrity32 ?E (dd_encode_log_payload []) \<noteq> 0"
    by (intro plain_integrity32_ne;
        simp add: blk_encode_log_payload_def BLK_LOG_PREFIX_def log_payload_def LK_LOG_PREFIX_def
          dd_encode_log_payload_eq DD_LOG_PREFIX_def)+
  moreover have "store_room (index_new (configured_max_segment_size ?E)) 1"
    by (simp add: store_room_def index_new_facts next_blob_id_def empty_descriptor_def checked_add_def
        MAX_MAINTENANCE_METADATA_RECORDS_def)
  moreover have "\<exists>x. prepare_payload_for_write ?E Lz4 [1, 2, 3] = Ok x"
    by (simp add: prepare_payload_for_write_def compress_payload_def del: split_paired_Ex)
  moreover have "should_verify_dedup_hit ?E e" for e
    by (simp add: should_verify_dedup_hit_def switch_unless_def plain_externs_def)
  ultimately show ?thesis using plain_externs_ok(7)
    by (auto simp: write_room_def place_room_def write_options_default_def empty_views MAX_DECOMPRESSED_PAYLOAD_LEN_def
        MAX_MAINTENANCE_METADATA_RECORDS_def next_id_def next_record_id_def next_lookup_id_def)
qed

section \<open>Properties\<close>

text \<open>
  C1: A block written to a well-formed cartridge is read back at every address it
  covers, with or without deduplication and under every codec; every other
  address reads as it did before, and the cartridge stays well formed.
\<close>

theorem read_after_write:
  assumes "layout_rep E s bl ll dl idx segs" "write_room E opts start payload bl ll dl idx" "externs_ok E"
  shows "\<exists>w s'. write_logical_block E start payload filemarks opts None s = (Ok w, s') \<and>
    (\<exists>bl' ll' dl' idx' segs'. layout_rep E s' bl' ll' dl' idx' segs') \<and>
    (\<forall>n. unat start \<le> unat n \<and> unat n < unat start + length payload \<longrightarrow>
       (\<exists>x. fst (read_logical_block E n s') = Ok (Some x) \<and> lr_payload x = payload \<and>
          lr_logical_start x = start \<and> lr_record_id x = wr_record_id w)) \<and>
    (\<forall>n. \<not> (unat start \<le> unat n \<and> unat n < unat start + length payload) \<longrightarrow>
       fst (read_logical_block E n s') = fst (read_logical_block E n s))"
proof -
  obtain w r l dl' idx' segs' s' where w: "write_logical_block E start payload filemarks opts None s = (Ok w, s')"
    "layout_rep E s' (bl @ [r]) (ll @ [l]) dl' idx' segs'" "blob_set idx segs \<subseteq> blob_set idx' segs'"
    "mset (blk_view E (bl @ [r])) = add_mset r (mset (blk_view E bl))" "readable E (blob_set idx' segs') r payload"
    "is_active r" "logical_start r = start" "unat (logical_end r) = unat start + length payload" "wr_record_id w = record_id r"
    using write_run [OF assms] by blast
  have E: "hash_order_ok E" using assms(3) by (simp add: externs_ok_def)
  have cov: "covers n r \<longleftrightarrow> unat start \<le> unat n \<and> unat n < unat start + length payload" for n
    using w(7,8) by (simp add: covers_def word_le_nat_alt word_less_nat_alt)
  have "fst (read_logical_block E n s') = Ok (Some (read_result r payload))" if "covers n r" for n
    using read_determined [OF w(2) E] read_spec_new [OF w(4,5,6) that] by blast
  moreover have "fst (read_logical_block E n s') = fst (read_logical_block E n s)" if "\<not> covers n r" for n
    using read_run [OF assms(1) E, of n] read_spec_old [OF w(4,3) that] read_determined [OF w(2) E] by fastforce
  ultimately show ?thesis using w(1,2,7,9) unfolding cov by (fastforce simp: read_result_def)
qed

theorem read_after_write_witness:
  "\<exists>s w s' x. reset_layout_for_overwrite plain_externs (sample_cartridge ()) = (Ok (), s) \<and>
     write_logical_block plain_externs 5 [1, 2, 3] 0 write_options_default None s = (Ok w, s') \<and>
     fst (read_logical_block plain_externs 6 s') = Ok (Some x) \<and> lr_payload x = [1, 2, 3] \<and>
     fst (read_logical_block plain_externs 8 s') = fst (read_logical_block plain_externs 8 s)"
proof -
  obtain s where s: "reset_layout_for_overwrite plain_externs (sample_cartridge ()) = (Ok (), s)"
    "layout_rep plain_externs s [] [] [] (index_new (configured_max_segment_size plain_externs)) (\<lambda>_. [])"
    by (rule sample_reset)
  from read_after_write [OF s(2) sample_write_room plain_externs_ok(1), of 0]
  obtain w s' where w: "write_logical_block plain_externs 5 [1, 2, 3] 0 write_options_default None s = (Ok w, s')"
    "\<forall>n. unat (5::u64) \<le> unat n \<and> unat n < unat (5::u64) + length [1, 2, 3::u8] \<longrightarrow>
       (\<exists>x. fst (read_logical_block plain_externs n s') = Ok (Some x) \<and> lr_payload x = [1, 2, 3] \<and>
          lr_logical_start x = 5 \<and> lr_record_id x = wr_record_id w)"
    "\<forall>n. \<not> (unat (5::u64) \<le> unat n \<and> unat n < unat (5::u64) + length [1, 2, 3::u8]) \<longrightarrow>
       fst (read_logical_block plain_externs n s') = fst (read_logical_block plain_externs n s)"
    by blast
  have "\<exists>x. fst (read_logical_block plain_externs 6 s') = Ok (Some x) \<and> lr_payload x = [1, 2, 3]"
    using w(2) [rule_format, of 6] by auto
  moreover have "fst (read_logical_block plain_externs 8 s') = fst (read_logical_block plain_externs 8 s)"
    using w(3) [rule_format, of 8] by simp
  ultimately show ?thesis using s(1) w(1) by blast
qed

text \<open>
  C38: Resetting a cartridge for overwriting succeeds from any state whose
  checkpoint can be read, whatever the other files hold; afterwards no block
  is mapped.
\<close>

theorem reset_empties:
  assumes "ckpt_rep E s c" "cached_segments_named s" "hash_order_ok E"
  shows "\<exists>s'. reset_layout_for_overwrite E s = (Ok (), s') \<and> (\<forall>n. fst (read_logical_block E n s') = Ok None)"
proof -
  obtain s' where s': "reset_layout_for_overwrite E s = (Ok (), s')"
    "layout_rep E s' [] [] [] (index_new (configured_max_segment_size E)) (\<lambda>_. [])"
    using reset_run [OF assms] by blast
  have "fst (read_logical_block E n s') = Ok None" for n
    by (rule read_determined [OF s'(2) assms(3)]) (simp add: read_spec_def empty_views(1) [OF assms(3)])
  then show ?thesis using s'(1) by blast
qed

theorem reset_empties_witness:
  "\<exists>s'. reset_layout_for_overwrite plain_externs (sample_cartridge ()) = (Ok (), s') \<and>
     fst (read_logical_block plain_externs 0 s') = Ok None"
  using reset_empties [OF sample_cartridge_ok plain_externs_ok(7), of "()"] by blast

end
