(* ===== verification/Layout_Boot.thy ===== *)
theory Layout_Boot
  imports Overwrite
begin

text \<open>
  Bringing up the layout of a cartridge (\<^verbatim>\<open>initialize_layout\<close>,
  \<^verbatim>\<open>load_layout\<close> and the bootstrap of a mount in \<^verbatim>\<open>storage/layout.rs\<close>, the
  storage roots of \<^verbatim>\<open>storage/metadata.rs\<close>): missing files are created, the
  existing ones are read and validated.
\<close>

definition create_segment_unless_there ::
  "externs \<Rightarrow> layout_file \<Rightarrow> SegmentKind \<Rightarrow> u64 \<Rightarrow> ('z segment_store_scheme, StorageError, unit) stm" where
  "create_segment_unless_there E f k sid s =
     (if files s f = None then write_segment_file E f k sid 0 [] s else (Ok (), s))"

definition initial_checkpoint :: MetadataCheckpoint where
  "initial_checkpoint =
     \<lparr>page_id = 1, epoch = 1, active_blk_map_root = 2, active_lookup_root = 3, flags = Clean\<rparr>"

text \<open>The data segments the index names have the shape of a segment.\<close>

primrec validate_segments ::
  "externs \<Rightarrow> SegmentDescriptor list \<Rightarrow> ('z segment_store_scheme, StorageError, unit) stm" where
  "validate_segments E [] = ret_s ()"
| "validate_segments E (d # ds) =
     bind_s (validate_segment_shape E (Data_Segment (segment_seq d)) KData) (\<lambda>_. validate_segments E ds)"

definition load_layout :: "externs \<Rightarrow> ('z data_store_scheme, StorageError, MetadataCheckpoint) stm" where
  "load_layout E =
     bind_s (initialize_segment_index E) (\<lambda>idx.
     bind_s (validate_segments E (descriptors idx)) (\<lambda>_.
     bind_s (read_segment_file E Blk_Map_File KBlkMap) (\<lambda>_.
     bind_s (read_segment_file E Lookup_File KLookup) (\<lambda>_.
     bind_s (read_segment_file E Reclaim_File KReclaim) (\<lambda>_.
     bind_s (read_segment_file E Dedup_File KDedup) (\<lambda>_.
     load_checkpoint_page E Metadata_File))))))"

definition initialize_layout :: "externs \<Rightarrow> ('z data_store_scheme, StorageError, MetadataCheckpoint) stm" where
  "initialize_layout E =
     bind_s (initialize_segment_index E) (\<lambda>_.
     bind_s (create_segment_unless_there E Blk_Map_File KBlkMap 2) (\<lambda>_.
     bind_s (create_segment_unless_there E Lookup_File KLookup 3) (\<lambda>_.
     bind_s (create_segment_unless_there E Reclaim_File KReclaim 4) (\<lambda>_.
     bind_s (create_segment_unless_there E Dedup_File KDedup 5) (\<lambda>_.
     bind_s (\<lambda>s. if files s Metadata_File = None
       then persist_checkpoint_page E Metadata_File initial_checkpoint s else (Ok (), s)) (\<lambda>_.
     load_layout E))))))"

end
