(* ===== verification/Runtime_State.thy ===== *)
theory Runtime_State
  imports Layout Record_Log
begin

text \<open>
  The two small state files of a layout (\<^verbatim>\<open>storage/runtime_state.rs\<close>):
  the positions of the filemarks and the retention flags, both replaced
  atomically through a temporary file.
\<close>

definition MAX_FILEMARKS :: nat where "MAX_FILEMARKS = 1000000"

definition MAX_FILEMARKS_STATE_BYTES :: nat where
  "MAX_FILEMARKS_STATE_BYTES = 8 + MAX_FILEMARKS * 8"

record RetentionRuntimeState =
  rt_worm_media :: bool
  rt_locked :: bool

definition atomic_write :: "layout_file \<Rightarrow> bytes \<Rightarrow> ('z layout_files_scheme, StorageError, unit) stm" where
  "atomic_write f payload =
     bind_s (put_file (Tmp f) payload) (\<lambda>_. rename_file (Tmp f) f)"

definition filemarks_payload :: "u64 list \<Rightarrow> bytes" where
  "filemarks_payload ms = to_le_bytes (of_nat (length ms) :: u64) @ concat (map to_le_bytes ms)"

definition persist_filemarks :: "u64 list \<Rightarrow> ('z layout_files_scheme, StorageError, unit) stm" where
  "persist_filemarks ms = atomic_write Filemarks_File (filemarks_payload ms)"

definition decode_filemarks :: "bytes \<Rightarrow> (StorageError, u64 list) result" where
  "decode_filemarks bytes =
     bind_r (guard (length bytes \<le> MAX_FILEMARKS_STATE_BYTES)
       (Corrupt ''filemarks state exceeds maximum supported size'')) (\<lambda>_.
     bind_r (guard (8 \<le> length bytes) (Corrupt ''filemarks state too short'')) (\<lambda>_.
     let n = unat (from_le_bytes (slice 0 8 bytes) :: u64) in
     bind_r (guard (n \<le> MAX_FILEMARKS)
       (Corrupt ''filemarks count exceeds maximum supported entries'')) (\<lambda>_.
     bind_r (guard (length bytes = 8 + n * 8) (Corrupt ''filemarks state length mismatch'')) (\<lambda>_.
     Ok (map (\<lambda>i. from_le_bytes (slice (8 + 8 * i) 8 bytes)) [0..<n])))))"

definition load_filemarks :: "('z layout_files_scheme, StorageError, u64 list) stm" where
  "load_filemarks s =
     (case files s Filemarks_File of
        None \<Rightarrow> (Ok [], s)
      | Some bytes \<Rightarrow> (decode_filemarks bytes, s))"

definition persist_retention_state ::
  "bool \<Rightarrow> bool \<Rightarrow> ('z layout_files_scheme, StorageError, unit) stm" where
  "persist_retention_state worm locked =
     (let flags = [of_bool worm, of_bool locked] in
      atomic_write Retention_File (flags @ to_le_bytes (ucast (checksum32 flags) :: u16)))"

definition load_retention_state ::
  "('z layout_files_scheme, StorageError, RetentionRuntimeState option) stm" where
  "load_retention_state s =
     (case files s Retention_File of
        None \<Rightarrow> (Ok None, s)
      | Some bytes \<Rightarrow>
          (bind_r (guard (4 \<le> length bytes) (Io IoUnexpectedEof)) (\<lambda>_.
           let found = ucast (from_le_bytes (slice 2 2 bytes) :: u16) :: u32;
               expected = checksum32 (slice 0 2 bytes) AND 0xFFFF in
           bind_r (guard (found = expected) (Corrupt ''retention state checksum mismatch'')) (\<lambda>_.
           Ok (Some \<lparr>rt_worm_media = byte_at 0 bytes \<noteq> 0, rt_locked = byte_at 1 bytes \<noteq> 0\<rparr>))), s))"

section \<open>What survives\<close>

lemma atomic_write_run:
  "atomic_write f payload s = (Ok (), files_update (\<lambda>m. m(Tmp f := None, f := Some payload)) s)"
  by (simp add: atomic_write_def put_file_def rename_file_def bind_s_def comp_def fun_upd_twist)

lemma slice_words:
  "i < length ms \<Longrightarrow> slice (8 * i) 8 (concat (map to_le_bytes ms)) = to_le_bytes (ms ! i :: u64)"
proof (induction ms arbitrary: i)
  case (Cons m ms)
  show ?case
  proof (cases i)
    case (Suc j)
    then have "slice (8 * i) 8 (concat (map to_le_bytes (m # ms))) =
        slice (8 * j) 8 (concat (map to_le_bytes ms))" by simp
    with Cons Suc show ?thesis by simp
  qed simp
qed simp

lemma length_filemarks_payload: "length (filemarks_payload ms) = 8 + 8 * length ms"
  by (induction ms) (simp_all add: filemarks_payload_def)

lemma decode_filemarks_payload:
  "decode_filemarks (filemarks_payload ms) =
     (if length ms \<le> MAX_FILEMARKS then Ok ms
      else Err (Corrupt ''filemarks state exceeds maximum supported size''))"
proof (cases "length ms \<le> MAX_FILEMARKS")
  case True
  then have n: "unat (of_nat (length ms) :: u64) = length ms"
    by (intro unat_of_nat_small) (simp add: MAX_FILEMARKS_def)
  have "map (\<lambda>i. from_le_bytes (slice (8 + 8 * i) 8 (filemarks_payload ms))) [0..<length ms] = ms"
    by (rule nth_equalityI) (simp_all add: filemarks_payload_def slice_words)
  moreover have "slice 0 8 (filemarks_payload ms) = to_le_bytes (of_nat (length ms) :: u64)"
    by (simp add: filemarks_payload_def)
  ultimately show ?thesis using True n
    by (simp add: decode_filemarks_def length_filemarks_payload MAX_FILEMARKS_STATE_BYTES_def Let_def
        guard_def)
next
  case False
  then show ?thesis
    by (simp add: decode_filemarks_def length_filemarks_payload MAX_FILEMARKS_STATE_BYTES_def guard_def)
qed

lemma load_persisted_filemarks:
  "load_filemarks (snd (persist_filemarks ms s)) =
     (if length ms \<le> MAX_FILEMARKS then Ok ms
      else Err (Corrupt ''filemarks state exceeds maximum supported size''),
      snd (persist_filemarks ms s))"
  by (simp add: persist_filemarks_def atomic_write_run load_filemarks_def decode_filemarks_payload)

lemma ucast_u16_u32: "ucast (ucast (w :: u32) :: u16) = w AND 0xFFFF"
proof -
  have "w AND 0xFFFF = take_bit 16 w" by (simp add: take_bit_eq_mask mask_eq_exp_minus_1)
  moreover have "unat (ucast (ucast w :: u16) :: u32) = unat (take_bit 16 w)"
    by (simp add: unsigned_ucast_eq unsigned_take_bit_eq)
  ultimately show ?thesis by (simp add: word_unat_eq_iff)
qed

lemma load_persisted_retention:
  "load_retention_state (snd (persist_retention_state w l s)) =
     (Ok (Some \<lparr>rt_worm_media = w, rt_locked = l\<rparr>), snd (persist_retention_state w l s))"
proof -
  have "slice 0 2 ([a, b] @ c) = [a, b]" for a b :: u8 and c by (simp add: slice_def numeral_eq_Suc)
  then show ?thesis
    by (simp add: persist_retention_state_def atomic_write_run load_retention_state_def guard_def
      ucast_u16_u32 byte_at_def Let_def)
qed

text \<open>
  C35: the retention flags that were persisted are loaded back, and so are the
  filemarks as long as there are at most a million of them; one more and the
  file that was written is refused.
\<close>

theorem runtime_state_roundtrip:
  "load_filemarks (snd (persist_filemarks ms s)) =
     (if length ms \<le> 1000000 then Ok ms
      else Err (Corrupt ''filemarks state exceeds maximum supported size''),
      snd (persist_filemarks ms s)) \<and>
   load_retention_state (snd (persist_retention_state w l s)) =
     (Ok (Some \<lparr>rt_worm_media = w, rt_locked = l\<rparr>), snd (persist_retention_state w l s))"
  using load_persisted_filemarks [of ms s] load_persisted_retention [of w l s]
  by (simp only: MAX_FILEMARKS_def)

end
