(* ===== verification/Reservation.thy ===== *)
theory Reservation
  imports Tape_State
begin

text \<open>
  Persistent reservations (\<^verbatim>\<open>scsi_tape/reservation.rs\<close>): the operations, the
  state machine of successful commands from the state after a mount, its
  invariant, and who can take the reservation away from its holder.
\<close>

section \<open>Operations\<close>

record ReservationSnapshot =
  snap_generation :: u32
  registration_count :: nat
  snap_registrations :: "(string \<times> u64) list"
  snap_owner :: "string option"
  snap_key :: "u64 option"

definition validate_initiator :: "string \<Rightarrow> (TapeError, unit) result" where
  "validate_initiator initiator =
     guard (trim initiator \<noteq> []) (InvalidArgument ''initiator id must not be empty'')"

definition validate_key :: "u64 \<Rightarrow> string \<Rightarrow> (TapeError, unit) result" where
  "validate_key key op = guard (key \<noteq> 0) (InvalidReservationKey (op @ '' requires non-zero key''))"

text \<open>The registered key of an initiator, which the command must present.\<close>

definition presented_key :: "ReservationState \<Rightarrow> string \<Rightarrow> u64 \<Rightarrow> string \<Rightarrow> (TapeError, unit) result" where
  "presented_key r initiator key mismatch =
     bind_r (ok_or (map_of (registrations r) initiator)
       (InvalidReservationKey (''initiator '' @ initiator @ '' has no registered key''))) (\<lambda>registered.
     guard (registered = key) (InvalidReservationKey mismatch))"

definition owner_conflict :: "string \<Rightarrow> TapeError" where
  "owner_conflict owner = ReservationConflict (''reservation owner is '' @ owner)"

definition on_reservation ::
  "(ReservationState \<Rightarrow> (TapeError, ReservationState) result) \<Rightarrow> (TapeState, TapeError, unit) stm" where
  "on_reservation f t =
     (case f (reservation_state t) of
        Inl e \<Rightarrow> (Err e, t)
      | Inr r \<Rightarrow> (Ok (), t\<lparr>reservation_state := r\<lparr>generation := generation r + 1\<rparr>\<rparr>))"

definition register_r :: "string \<Rightarrow> u64 \<Rightarrow> ReservationState \<Rightarrow> (TapeError, ReservationState) result" where
  "register_r initiator key r =
     bind_r (validate_initiator initiator) (\<lambda>_.
     bind_r (validate_key key ''register'') (\<lambda>_.
     Ok (r\<lparr>registrations := bt_insert initiator key (registrations r),
           active_key := (if active_owner r = Some initiator then Some key else active_key r)\<rparr>)))"

definition register_key :: "string \<Rightarrow> u64 \<Rightarrow> (TapeState, TapeError, unit) stm" where
  "register_key initiator key = on_reservation (register_r initiator key)"

definition register_ignore_existing :: "string \<Rightarrow> u64 \<Rightarrow> (TapeState, TapeError, unit) stm" where
  "register_ignore_existing initiator service_key = register_key initiator service_key"

definition reserve_r :: "string \<Rightarrow> u64 \<Rightarrow> ReservationState \<Rightarrow> (TapeError, ReservationState) result" where
  "reserve_r initiator key r =
     bind_r (validate_initiator initiator) (\<lambda>_.
     bind_r (validate_key key ''reserve'') (\<lambda>_.
     bind_r (presented_key r initiator key (''reserve key mismatch for initiator '' @ initiator)) (\<lambda>_.
     bind_r (case active_owner r of
               None \<Rightarrow> Ok ()
             | Some owner \<Rightarrow> if owner = initiator then Ok () else Err (owner_conflict owner)) (\<lambda>_.
     Ok (r\<lparr>active_owner := Some initiator, active_key := Some key\<rparr>)))))"

definition reserve_key :: "string \<Rightarrow> u64 \<Rightarrow> (TapeState, TapeError, unit) stm" where
  "reserve_key initiator key = on_reservation (reserve_r initiator key)"

definition preempt_r ::
  "string \<Rightarrow> u64 \<Rightarrow> u64 \<Rightarrow> ReservationState \<Rightarrow> (TapeError, ReservationState) result" where
  "preempt_r initiator key service_key r =
     bind_r (validate_initiator initiator) (\<lambda>_.
     bind_r (validate_key key ''preempt'') (\<lambda>_.
     bind_r (validate_key service_key ''preempt service'') (\<lambda>_.
     bind_r (presented_key r initiator key (''preempt key mismatch for initiator '' @ initiator)) (\<lambda>_.
     Ok (r\<lparr>registrations :=
             filter (\<lambda>e. fst e = initiator \<or> snd e \<noteq> service_key) (registrations r),
           active_owner := Some initiator, active_key := Some key\<rparr>)))))"

definition preempt_key :: "string \<Rightarrow> u64 \<Rightarrow> u64 \<Rightarrow> (TapeState, TapeError, unit) stm" where
  "preempt_key initiator key service_key = on_reservation (preempt_r initiator key service_key)"

definition register_and_move_r ::
  "string \<Rightarrow> u64 \<Rightarrow> u64 \<Rightarrow> string \<Rightarrow> bool \<Rightarrow> ReservationState \<Rightarrow> (TapeError, ReservationState) result" where
  "register_and_move_r initiator key service_key target unregister_source r =
     bind_r (validate_initiator initiator) (\<lambda>_.
     bind_r (validate_initiator target) (\<lambda>_.
     bind_r (validate_key key ''register and move'') (\<lambda>_.
     bind_r (validate_key service_key ''register and move service'') (\<lambda>_.
     bind_r (guard (initiator \<noteq> target)
       (InvalidArgument ''register and move target must differ from source'')) (\<lambda>_.
     bind_r (presented_key r initiator key
       (''register and move key mismatch for initiator '' @ initiator)) (\<lambda>_.
     bind_r (guard (active_owner r = Some initiator)
       (InvalidReservationKey ''register and move requires source reservation owner'')) (\<lambda>_.
     let registered = bt_insert target service_key (registrations r) in
     Ok (r\<lparr>registrations := (if unregister_source then bt_remove initiator registered else registered),
           active_owner := Some target, active_key := Some service_key\<rparr>))))))))"

definition register_and_move_key ::
  "string \<Rightarrow> u64 \<Rightarrow> u64 \<Rightarrow> string \<Rightarrow> bool \<Rightarrow> (TapeState, TapeError, unit) stm" where
  "register_and_move_key initiator key service_key target unregister_source =
     on_reservation (register_and_move_r initiator key service_key target unregister_source)"

definition release_r :: "string \<Rightarrow> u64 \<Rightarrow> ReservationState \<Rightarrow> (TapeError, ReservationState) result" where
  "release_r initiator key r =
     bind_r (validate_initiator initiator) (\<lambda>_.
     bind_r (validate_key key ''release'') (\<lambda>_.
     bind_r (ok_or (active_owner r) (InvalidReservationRelease ''no active reservation'')) (\<lambda>owner.
     bind_r (guard (owner = initiator) (owner_conflict owner)) (\<lambda>_.
     bind_r (guard (active_key r = Some key)
       (InvalidReservationKey ''release key does not match owner key'')) (\<lambda>_.
     Ok (r\<lparr>active_owner := None, active_key := None\<rparr>))))))"

definition release_key :: "string \<Rightarrow> u64 \<Rightarrow> (TapeState, TapeError, unit) stm" where
  "release_key initiator key = on_reservation (release_r initiator key)"

definition clear_r :: "string \<Rightarrow> u64 \<Rightarrow> ReservationState \<Rightarrow> (TapeError, ReservationState) result" where
  "clear_r initiator key r =
     bind_r (validate_initiator initiator) (\<lambda>_.
     bind_r (validate_key key ''clear'') (\<lambda>_.
     bind_r (presented_key r initiator key ''clear key does not match registered key'') (\<lambda>_.
     Ok (r\<lparr>registrations := [], active_owner := None, active_key := None\<rparr>))))"

definition clear_keys :: "string \<Rightarrow> u64 \<Rightarrow> (TapeState, TapeError, unit) stm" where
  "clear_keys initiator key = on_reservation (clear_r initiator key)"

definition ensure_reservation_access :: "TapeState \<Rightarrow> string \<Rightarrow> (TapeError, unit) result" where
  "ensure_reservation_access t initiator =
     bind_r (validate_initiator initiator) (\<lambda>_.
     case active_owner (reservation_state t) of
       None \<Rightarrow> Ok ()
     | Some owner \<Rightarrow> guard (owner = initiator) (owner_conflict owner))"

definition reservation_snapshot :: "TapeState \<Rightarrow> ReservationSnapshot" where
  "reservation_snapshot t =
     (let r = reservation_state t in
      \<lparr>snap_generation = generation r, registration_count = length (registrations r),
       snap_registrations = registrations r, snap_owner = active_owner r, snap_key = active_key r\<rparr>)"

section \<open>The state machine of reservation commands\<close>

datatype pr_command =
    Pr_Register string u64
  | Pr_Register_Ignore string u64
  | Pr_Reserve string u64
  | Pr_Preempt string u64 u64
  | Pr_Move string u64 u64 string bool
  | Pr_Release string u64
  | Pr_Clear string u64

fun run_pr :: "pr_command \<Rightarrow> (TapeState, TapeError, unit) stm" where
  "run_pr (Pr_Register i k) = register_key i k"
| "run_pr (Pr_Register_Ignore i k) = register_ignore_existing i k"
| "run_pr (Pr_Reserve i k) = reserve_key i k"
| "run_pr (Pr_Preempt i k sk) = preempt_key i k sk"
| "run_pr (Pr_Move i k sk j u) = register_and_move_key i k sk j u"
| "run_pr (Pr_Release i k) = release_key i k"
| "run_pr (Pr_Clear i k) = clear_keys i k"

fun pr_initiator :: "pr_command \<Rightarrow> string" where
  "pr_initiator (Pr_Register i k) = i"
| "pr_initiator (Pr_Register_Ignore i k) = i"
| "pr_initiator (Pr_Reserve i k) = i"
| "pr_initiator (Pr_Preempt i k sk) = i"
| "pr_initiator (Pr_Move i k sk j u) = i"
| "pr_initiator (Pr_Release i k) = i"
| "pr_initiator (Pr_Clear i k) = i"

text \<open>A command takes effect when it succeeds; a refused command changes nothing.\<close>

inductive pr_step :: "TapeState \<Rightarrow> pr_command \<Rightarrow> TapeState \<Rightarrow> bool" where
  "run_pr c t = (Ok (), t') \<Longrightarrow> pr_step t c t'"

inductive pr_reachable :: "TapeState \<Rightarrow> TapeState \<Rightarrow> bool" for t0 where
  pr_start: "pr_reachable t0 t0"
| pr_next: "pr_reachable t0 t \<Longrightarrow> pr_step t c t' \<Longrightarrow> pr_reachable t0 t'"

inductive_simps pr_step_iff: "pr_step t c t'"

text \<open>
  The keys are nonzero and belong to named initiators, there is an owner
  exactly when there is a reservation key, and the owner is registered with
  that key.
\<close>

definition pr_inv :: "ReservationState \<Rightarrow> bool" where
  "pr_inv r \<longleftrightarrow> bt_ok (registrations r) \<and>
     (\<forall>i k. map_of (registrations r) i = Some k \<longrightarrow> k \<noteq> 0 \<and> trim i \<noteq> []) \<and>
     (case active_owner r of
        None \<Rightarrow> active_key r = None
      | Some owner \<Rightarrow> active_key r \<noteq> None \<and> map_of (registrations r) owner = active_key r)"

lemmas pr_ops = register_key_def register_ignore_existing_def reserve_key_def preempt_key_def
  register_and_move_key_def release_key_def clear_keys_def

lemmas pr_rules = register_r_def reserve_r_def preempt_r_def register_and_move_r_def release_r_def
  clear_r_def presented_key_def validate_initiator_def validate_key_def

lemma on_reservation_Ok:
  "on_reservation f t = (Ok (), t') \<longleftrightarrow>
     (\<exists>r. f (reservation_state t) = Ok r \<and> t' = t\<lparr>reservation_state := r\<lparr>generation := generation r + 1\<rparr>\<rparr>)"
  by (auto simp: on_reservation_def split: sum.splits)

lemma on_reservation_Err: "on_reservation f t = (Err e, t') \<Longrightarrow> t' = t"
  by (auto simp: on_reservation_def split: sum.splits)

lemma run_pr_refused: "run_pr c t = (Err e, t') \<Longrightarrow> t' = t"
  by (cases c) (auto simp: pr_ops dest: on_reservation_Err)

lemma pr_inv_generation [simp]: "pr_inv (r\<lparr>generation := g\<rparr>) = pr_inv r"
  by (simp add: pr_inv_def split: option.split)

lemma pr_inv_step:
  assumes "pr_inv (reservation_state t)" "pr_step t c t'"
  shows "pr_inv (reservation_state t')"
proof (cases c)
  case (Pr_Preempt i k sk)
  with assms show ?thesis
    by (auto simp: pr_step_iff pr_ops on_reservation_Ok pr_rules pr_inv_def map_of_bt_filter
        split: option.splits if_splits)
qed (use assms in \<open>auto simp: pr_step_iff pr_ops on_reservation_Ok pr_rules pr_inv_def Let_def
    split: option.splits if_splits\<close>)

lemma pr_step_rest: "pr_step t c t' \<Longrightarrow> t' = t\<lparr>reservation_state := reservation_state t'\<rparr>"
  by (cases c) (auto simp: pr_step_iff pr_ops on_reservation_Ok)

lemma pr_reachable_inv:
  assumes "pr_reachable t0 t" "pr_inv (reservation_state t0)"
  shows "pr_inv (reservation_state t) \<and> t = t0\<lparr>reservation_state := reservation_state t\<rparr>"
  using assms
proof (induction rule: pr_reachable.induct)
  case (pr_next t c t')
  from pr_next have t: "t = t0\<lparr>reservation_state := reservation_state t\<rparr>" by simp
  have "t' = t\<lparr>reservation_state := reservation_state t'\<rparr>" by (rule pr_step_rest) (rule pr_next)
  also have "\<dots> = t0\<lparr>reservation_state := reservation_state t'\<rparr>" by (subst t) simp
  finally show ?case using pr_next pr_inv_step by blast
qed simp

lemma pr_inv_default [simp]: "pr_inv reservation_default"
  by (simp add: pr_inv_def reservation_default_def)

lemma mounted_reservation [simp]:
  "reservation_state (tape (tape_mount cartridge root m)) = reservation_default"
  by (simp add: tape_mount_def Let_def push_unit_attention_def persist_usage_counters_def
      usage_counter_path_def at_layout_def persist_usage_to_path_def bind_s_def put_file_def
      rename_file_def)

definition sample_machine :: "layout_files machine" where
  "sample_machine = \<lparr>tape = tape_new plain_externs ''drive-1'', stores = (\<lambda>_. \<lparr>files = (\<lambda>_. None)\<rparr>)\<rparr>"

text \<open>One initiator registers a key and reserves.\<close>

definition sample_reserved :: TapeState where
  "sample_reserved = (tape (tape_mount ''CAR1'' [''pool''] sample_machine))
     \<lparr>reservation_state := \<lparr>generation = 2, registrations = [(''host-a'', 7)],
        active_owner = Some ''host-a'', active_key = Some 7\<rparr>\<rparr>"

lemma sample_reserved_reachable:
  "pr_reachable (tape (tape_mount ''CAR1'' [''pool''] sample_machine)) sample_reserved"
proof (rule pr_next [OF pr_next [OF pr_start]])
  let ?t0 = "tape (tape_mount ''CAR1'' [''pool''] sample_machine)"
  let ?t1 = "?t0\<lparr>reservation_state := \<lparr>generation = 1, registrations = [(''host-a'', 7)],
    active_owner = None, active_key = None\<rparr>\<rparr>"
  have trim: "trim ''host-a'' = ''host-a''"
    by (rule trim_id) (auto simp: is_whitespace_def char_code_def)
  show "pr_step ?t0 (Pr_Register ''host-a'' 7) ?t1"
    by (simp add: pr_step_iff pr_ops on_reservation_Ok pr_rules trim reservation_default_def)
  show "pr_step ?t1 (Pr_Reserve ''host-a'' 7) sample_reserved"
    by (simp add: pr_step_iff pr_ops on_reservation_Ok pr_rules trim sample_reserved_def)
qed

text \<open>
  C32: after a mount, whatever reservation commands succeed, the registered
  keys are nonzero and belong to named initiators in order, there is a
  reservation key exactly when there is an owner, and the owner is registered
  with that key; no other part of the drive state changes.
\<close>

theorem reservation_invariant:
  assumes "pr_reachable (tape (tape_mount cartridge root m)) t"
  shows "pr_inv (reservation_state t) \<and>
    t = (tape (tape_mount cartridge root m))\<lparr>reservation_state := reservation_state t\<rparr>"
  using pr_reachable_inv [OF assms] by simp

theorem reservation_invariant_witness:
  "pr_inv (reservation_state sample_reserved)"
  using reservation_invariant [OF sample_reserved_reachable] by blast

text \<open>
  C33: while an initiator holds the reservation, exactly its own accesses are
  admitted, and it loses the reservation only by its own release or move, or
  by a preempt or clear of an initiator that presents its registered key.
\<close>

theorem reservation_exclusive:
  assumes "pr_reachable (tape (tape_mount cartridge root m)) t"
    and "active_owner (reservation_state t) = Some owner"
  shows "(\<forall>i. ensure_reservation_access t i = Ok () \<longleftrightarrow> i = owner) \<and>
    (\<forall>c t'. pr_step t c t' \<longrightarrow> active_owner (reservation_state t') = Some owner \<or>
      (\<exists>k. map_of (registrations (reservation_state t)) (pr_initiator c) = Some k \<and>
         (c = Pr_Release owner k \<or> (\<exists>sk j u. c = Pr_Move owner k sk j u) \<or>
          (\<exists>sk. c = Pr_Preempt (pr_initiator c) k sk) \<or> c = Pr_Clear (pr_initiator c) k)))"
proof -
  have inv: "pr_inv (reservation_state t)" using pr_reachable_inv [OF assms(1)] by simp
  then have reg: "map_of (registrations (reservation_state t)) owner = active_key (reservation_state t)"
    "active_key (reservation_state t) \<noteq> None" and "trim owner \<noteq> []"
    using assms(2) by (auto simp: pr_inv_def)
  then have "ensure_reservation_access t i = Ok () \<longleftrightarrow> i = owner" for i
    using assms(2) by (auto simp: ensure_reservation_access_def validate_initiator_def)
  moreover have "active_owner (reservation_state t') = Some owner \<or>
      (\<exists>k. map_of (registrations (reservation_state t)) (pr_initiator c) = Some k \<and>
         (c = Pr_Release owner k \<or> (\<exists>sk j u. c = Pr_Move owner k sk j u) \<or>
          (\<exists>sk. c = Pr_Preempt (pr_initiator c) k sk) \<or> c = Pr_Clear (pr_initiator c) k))"
    if "pr_step t c t'" for c t'
    using that assms(2) reg
    by (cases c) (auto simp: pr_step_iff pr_ops on_reservation_Ok pr_rules Let_def split: if_splits)
  ultimately show ?thesis by blast
qed

theorem reservation_exclusive_witness:
  "ensure_reservation_access sample_reserved ''host-b'' \<noteq> Ok () \<and>
   ensure_reservation_access sample_reserved ''host-a'' = Ok ()"
proof -
  have "active_owner (reservation_state sample_reserved) = Some ''host-a''"
    by (simp add: sample_reserved_def)
  from reservation_exclusive [OF sample_reserved_reachable this] show ?thesis by simp
qed

end
