(* ===== verification/Session.thy ===== *)
theory Session
  imports Tape_State
begin

text \<open>
  The session of a client (\<^verbatim>\<open>iscsi/session.rs\<close>) brackets its I/O by the busy
  state of the drive; \<^verbatim>\<open>worm/enforcer.rs\<close> refuses writes to locked media.
\<close>

record Session =
  client_id :: string
  drive_state :: TapeState

definition session_new :: "externs \<Rightarrow> string \<Rightarrow> string \<Rightarrow> Session" where
  "session_new E client drive = \<lparr>client_id = client, drive_state = tape_new E drive\<rparr>"

definition begin_io :: "(Session, TapeError, unit) stm" where
  "begin_io s =
     (if mount_state (drive_state s) \<noteq> Loaded then (Err InvalidTransition, s)
      else (Ok (), drive_state_update (mount_state_update (\<lambda>_. Busy)) s))"

definition end_io :: "Session \<Rightarrow> Session" where
  "end_io s =
     (if mount_state (drive_state s) = Busy
      then drive_state_update (mount_state_update (\<lambda>_. Loaded)) s else s)"

datatype RetentionState = Retention_None | Retention_Locked | Retention_Expired

definition enforce_write :: "RetentionState \<Rightarrow> (TapeError, unit) result" where
  "enforce_write r = guard (r \<noteq> Retention_Locked) WormWriteProtected"

end
