(* ===== verification/Command_Chain.thy ===== *)
theory Command_Chain
  imports Tape_Position Layout_Boot Runtime_State Reservation Session
begin

text \<open>
  The tape commands (\<^verbatim>\<open>scsi_tape/command_chain.rs\<close>) on the drive and the
  layout of its cartridge: reading and writing blocks and filemarks, erasing,
  moving, the mode and log pages, the reservation commands, and the queue of
  reads ahead.  Acquiring and detaching a cartridge is in \<^verbatim>\<open>Mount_Bridge\<close>.

  A read ahead runs in a thread of its own.  No command changes the contents of
  a layout before it has joined all threads of that layout, so here the read
  of a job happens when the job is joined.  The degraded mode after a poisoned
  mutex is not modelled, since no holder of these locks panics.
\<close>

section \<open>Reads ahead\<close>

record tape_store = data_store +
  read_prefetch_jobs :: "u64 list option"

definition read_prefetch_enabled :: "externs \<Rightarrow> bool" where
  "read_prefetch_enabled E =
     switch_unless [''0'', ''false'', ''no'', ''off''] False (env_var E ''HOLO_READ_PREFETCH'')"

definition read_prefetch_depth :: "externs \<Rightarrow> nat" where
  "read_prefetch_depth E =
     (case Option.bind (env_var E ''HOLO_READ_PREFETCH_DEPTH'') (\<lambda>raw. parse_word (trim raw) :: u64 option) of
        Some v \<Rightarrow> if 1 \<le> v \<and> v \<le> 8 then unat v else 2
      | None \<Rightarrow> 2)"

text \<open>Joining jobs whose results nobody wants.\<close>

definition join_jobs :: "externs \<Rightarrow> u64 list \<Rightarrow> 'z tape_store_scheme \<Rightarrow> 'z tape_store_scheme" where
  "join_jobs E ps s = foldl (\<lambda>s p. snd (read_logical_block E p s)) s ps"

definition prefetch_queue :: "'z tape_store_scheme \<Rightarrow> u64 list" where
  "prefetch_queue s = (case read_prefetch_jobs s of None \<Rightarrow> [] | Some q \<Rightarrow> q)"

definition invalidate_read_prefetch :: "externs \<Rightarrow> ('z tape_store_scheme, 'e, unit) stm" where
  "invalidate_read_prefetch E s = (Ok (), join_jobs E (prefetch_queue s) (s\<lparr>read_prefetch_jobs := None\<rparr>))"

definition take_read_prefetch ::
  "externs \<Rightarrow> u64 \<Rightarrow> ('z tape_store_scheme, StorageError, LogicalReadResult option) stm" where
  "take_read_prefetch E p s =
     (if \<not> read_prefetch_enabled E then (Ok None, s)
      else
        let queue = prefetch_queue s; stale = takeWhile (\<lambda>q. q < p) queue in
        case dropWhile (\<lambda>q. q < p) queue of
          q # qs \<Rightarrow>
            if q = p
            then read_logical_block E p
                   (join_jobs E stale (s\<lparr>read_prefetch_jobs := if qs = [] then None else Some qs\<rparr>))
            else (Ok None, join_jobs E queue (s\<lparr>read_prefetch_jobs := None\<rparr>))
        | [] \<Rightarrow> (Ok None, join_jobs E queue (s\<lparr>read_prefetch_jobs := None\<rparr>)))"

primrec wanted_positions :: "nat \<Rightarrow> u64 \<Rightarrow> u64 \<Rightarrow> u64 \<Rightarrow> u64 list" where
  "wanted_positions 0 p eod block_size = []"
| "wanted_positions (Suc n) p eod block_size =
     (if eod \<le> p then [] else p # wanted_positions n (saturating_add p block_size) eod block_size)"

definition schedule_read_prefetch ::
  "externs \<Rightarrow> u64 \<Rightarrow> u64 \<Rightarrow> u64 \<Rightarrow> ('z tape_store_scheme, 'e, unit) stm" where
  "schedule_read_prefetch E p eod block_size s =
     (if \<not> read_prefetch_enabled E \<or> eod \<le> p \<or> block_size = 0 then (Ok (), s)
      else
        let wanted = wanted_positions (read_prefetch_depth E) p eod block_size;
            kept = filter (\<lambda>q. q \<in> set wanted) (prefetch_queue s);
            queue = foldl (\<lambda>q w. if w \<in> set q then q else q @ [w]) kept wanted in
        (Ok (), join_jobs E (filter (\<lambda>q. q \<notin> set wanted) (prefetch_queue s))
           (s\<lparr>read_prefetch_jobs := Some (sort queue)\<rparr>)))"

section \<open>Running on the drive and on its layout\<close>

definition on_tape :: "(TapeState, 'e, 'a) stm \<Rightarrow> ('st machine, 'e, 'a) stm" where
  "on_tape f m = (case f (tape m) of (r, t) \<Rightarrow> (r, m\<lparr>tape := t\<rparr>))"

definition check_tape :: "(TapeState \<Rightarrow> ('e, 'a) result) \<Rightarrow> ('st machine, 'e, 'a) stm" where
  "check_tape f m = (f (tape m), m)"

definition modify_tape :: "(TapeState \<Rightarrow> TapeState) \<Rightarrow> ('st machine, 'e, unit) stm" where
  "modify_tape f = modify_s (tape_update f)"

definition storage :: "path \<Rightarrow> ('st, StorageError, 'a) stm \<Rightarrow> ('st machine, TapeError, 'a) stm" where
  "storage root op = map_err_s Tape_Storage (at_layout root op)"

definition invalidate_state_read_prefetch :: "externs \<Rightarrow> ('z tape_store_scheme machine, TapeError, unit) stm" where
  "invalidate_state_read_prefetch E m =
     (case active_layout (tape m) of
        Some root \<Rightarrow> at_layout root (invalidate_read_prefetch E) m
      | None \<Rightarrow> (Ok (), m))"

definition bump :: "((u64 \<Rightarrow> u64) \<Rightarrow> CommandCounters \<Rightarrow> CommandCounters) \<Rightarrow> ('st machine, 'e, unit) stm" where
  "bump counter = modify_tape (command_counters_update (counter (\<lambda>n. saturating_add n 1)))"

section \<open>Checks\<close>

definition DEFAULT_INITIATOR :: string where "DEFAULT_INITIATOR = ''initiator-default''"

definition default_initiator :: string where "default_initiator = DEFAULT_INITIATOR"

definition configured_initiator :: "externs \<Rightarrow> string" where
  "configured_initiator E =
     (case env_var E ''HOLO_INITIATOR_IQN'' of
        None \<Rightarrow> DEFAULT_INITIATOR
      | Some raw \<Rightarrow> if trim raw = [] then DEFAULT_INITIATOR else trim raw)"

definition initiator_or_default :: "string option \<Rightarrow> string" where
  "initiator_or_default i = (case i of Some name \<Rightarrow> name | None \<Rightarrow> DEFAULT_INITIATOR)"

definition ensure_loaded :: "TapeState \<Rightarrow> (TapeError, unit) result" where
  "ensure_loaded t = guard (mount_state t \<noteq> Empty) (NotReady ''no media loaded'')"

definition ensure_recovery_complete :: "TapeState \<Rightarrow> (TapeError, unit) result" where
  "ensure_recovery_complete t = guard (\<not> requires_recovery t) RecoveryRequired"

definition ensure_write_ready :: "TapeState \<Rightarrow> (TapeError, unit) result" where
  "ensure_write_ready t = ensure_recovery_complete t"

definition enforce_protected_access :: "string option \<Rightarrow> TapeState \<Rightarrow> (TapeError, unit) result" where
  "enforce_protected_access initiator t =
     bind_r (ensure_reservation_access t (initiator_or_default initiator)) (\<lambda>_.
     if is_worm_media (retention_policy t) \<and> retention_locked (retention_policy t)
     then enforce_write Retention_Locked else Ok ())"

definition enforce_worm_append_only :: "TapeState \<Rightarrow> (TapeError, unit) result" where
  "enforce_worm_append_only t =
     guard (\<not> (is_worm_media (retention_policy t) \<and> current_position t < eod_position t)) WormWriteProtected"

definition enforce_worm_erase_allowed :: "TapeState \<Rightarrow> (TapeError, unit) result" where
  "enforce_worm_erase_allowed t =
     guard (\<not> (is_worm_media (retention_policy t) \<and>
               (0 < eod_position t \<or> block_starts t \<noteq> [] \<or> filemarks t \<noteq> []))) WormWriteProtected"

definition loaded_layout :: "TapeState \<Rightarrow> (TapeError, path) result" where
  "loaded_layout t = ok_or (active_layout t) (NotReady ''active layout missing'')"

section \<open>Admission of writes\<close>

text \<open>
  The lock on the file system and what it reports: the identity at the time of
  the lock, the probe, the bytes reserved by running writes, and whether a
  reservation could be recorded.  These are the answers of the operating
  system and of other processes at the time of a command.
\<close>

record filesystem_lock =
  acquire_wait :: "(SpaceGuardError, u64) result"
  probe :: "(SpaceGuardError, FilesystemSnapshot) result"
  active_reservation_bytes :: "(SpaceGuardError, u64) result"
  reserve :: "u64 \<Rightarrow> (SpaceGuardError, unit) result"

definition space_admission ::
  "filesystem_lock \<Rightarrow> u64 \<Rightarrow> u64 \<Rightarrow> u64 \<Rightarrow> u64 \<Rightarrow> (SpaceGuardError, unit) result" where
  "space_admission L n blobs segments metadata =
     bind_r (acquire_wait L) (\<lambda>locked_id.
     bind_r (probe L) (\<lambda>snapshot.
     bind_r (guard (locked_id = filesystem_id snapshot) UnknownCapacity) (\<lambda>_.
     bind_r (estimate_write_peak_bytes n blobs segments metadata
       (allocation_unit snapshot)) (\<lambda>peak.
     bind_r (active_reservation_bytes L) (\<lambda>in_flight.
     bind_r (ok_or (checked_add in_flight peak) ArithmeticOverflow) (\<lambda>total.
     bind_r (ensure_capacity (available_bytes snapshot) total SPACE_RESERVE_BYTES) (\<lambda>_.
     reserve L peak)))))))"

definition acquire_space_admission ::
  "filesystem_lock \<Rightarrow> u64 \<Rightarrow> u64 \<Rightarrow> u64 \<Rightarrow> u64 \<Rightarrow> (TapeError, unit) result" where
  "acquire_space_admission L n blobs segments metadata =
     map_err (\<lambda>e. Tape_Storage (SpaceAdmission e))
       (space_admission L n blobs segments metadata)"

definition acquire_write_admission ::
  "filesystem_lock \<Rightarrow> u64 \<Rightarrow> u64 \<Rightarrow> u64 \<Rightarrow> u64 \<Rightarrow> u32 \<Rightarrow> (TapeError, unit) result" where
  "acquire_write_admission L n blobs segments metadata units =
     map_err (\<lambda>e. case e of Tape_Storage source \<Rightarrow> PhysicalWriteAdmission units source | other \<Rightarrow> other)
       (acquire_space_admission L n blobs segments metadata)"

text \<open>A write command that fails midway leaves the drive in need of recovery and its caches dropped.\<close>

definition finish_write_command ::
  "path \<Rightarrow> ('z tape_store_scheme machine, TapeError, unit) stm \<Rightarrow> ('z tape_store_scheme machine, TapeError, unit) stm" where
  "finish_write_command root body m =
     (case body m of
        (Inr u, m') \<Rightarrow> (Ok u, m')
      | (Inl e, m') \<Rightarrow>
          (Err e, snd (at_layout root discard_layout_caches_checked
             (tape_update (\<lambda>t. t\<lparr>requires_recovery := True\<rparr>) m'))))"

section \<open>Positioning and modes\<close>

definition rewind_media :: "externs \<Rightarrow> ('z tape_store_scheme machine, TapeError, unit) stm" where
  "rewind_media E =
     bind_s (check_tape ensure_loaded) (\<lambda>_.
     bind_s (invalidate_state_read_prefetch E) (\<lambda>_.
     bind_s (\<lambda>m. case active_layout (tape m) of
               Some root \<Rightarrow> bind_s (storage root (flush_pending_writes E)) (\<lambda>_. ret_s ()) m
             | None \<Rightarrow> (Ok (), m)) (\<lambda>_.
     modify_tape (\<lambda>t. t\<lparr>current_position := 0\<rparr>))))"

definition move_to :: "(TapeState \<Rightarrow> (TapeError, u64) result) \<Rightarrow> ('st machine, TapeError, unit) stm" where
  "move_to f = bind_s (check_tape f) (\<lambda>p. modify_tape (\<lambda>t. t\<lparr>current_position := p\<rparr>))"

definition space :: "externs \<Rightarrow> SpaceBranch \<Rightarrow> i64 \<Rightarrow> ('z tape_store_scheme machine, TapeError, unit) stm" where
  "space E branch n =
     bind_s (check_tape ensure_loaded) (\<lambda>_.
     bind_s (invalidate_state_read_prefetch E) (\<lambda>_.
     bind_s (bump space_ops_update) (\<lambda>_.
     move_to (\<lambda>t. case branch of
         Blocks \<Rightarrow> space_blocks t n
       | Filemarks \<Rightarrow> space_filemarks t n
       | EndOfData \<Rightarrow> space_end_of_data t n))))"

definition locate :: "externs \<Rightarrow> u64 \<Rightarrow> ('z tape_store_scheme machine, TapeError, unit) stm" where
  "locate E target =
     bind_s (check_tape ensure_loaded) (\<lambda>_.
     bind_s (invalidate_state_read_prefetch E) (\<lambda>_.
     move_to (\<lambda>t. locate_target t target)))"

definition set_block_mode_fixed :: "u32 \<Rightarrow> ('st machine, TapeError, unit) stm" where
  "set_block_mode_fixed block_size =
     bind_s (check_tape ensure_loaded) (\<lambda>_.
     if block_size = 0 then err_s (InvalidArgument ''fixed block size must be > 0'')
     else modify_tape (\<lambda>t. t\<lparr>block_mode := \<lparr>bm_mode = Fixed, fixed_block_size = block_size\<rparr>\<rparr>))"

definition set_block_mode_variable :: "('st machine, TapeError, unit) stm" where
  "set_block_mode_variable =
     bind_s (check_tape ensure_loaded) (\<lambda>_.
     modify_tape (\<lambda>t. t\<lparr>block_mode := \<lparr>bm_mode = Variable, fixed_block_size = 0\<rparr>\<rparr>))"

definition mode_sense :: "u8 \<Rightarrow> ('st machine, TapeError, bytes) stm" where
  "mode_sense page =
     bind_s (check_tape ensure_loaded) (\<lambda>_.
     bind_s (bump mode_sense_ops_update) (\<lambda>_ m.
     let t = tape m in
     if page = 0x00 then (Ok [0x00, 0x02, 0x10, 0x11], m)
     else if page = 0x10 then
       (Ok ([0x10, 0x06, if bm_mode (block_mode t) = Fixed then 0x01 else 0x00, 0x00] @
            to_be_bytes (fixed_block_size (block_mode t))), m)
     else if page = 0x11 then
       (Ok ([0x11, 0x11] @ to_be_bytes (current_position t) @ to_be_bytes (eod_position t) @
            [if early_warning_active t then 1 else 0]), m)
     else bind_s (bump unsupported_mode_pages_update) (\<lambda>_. err_s (UnsupportedModePage page)) m))"

definition log_sense :: "u8 \<Rightarrow> ('st machine, TapeError, bytes) stm" where
  "log_sense page =
     bind_s (check_tape ensure_loaded) (\<lambda>_.
     bind_s (bump log_sense_ops_update) (\<lambda>_ m.
     let c = command_counters (tape m) in
     if page = 0x00 then (Ok [0x00, 0x01, 0x31], m)
     else if page = 0x31 then
       (Ok ([0x31, 0x40] @ concat (map to_be_bytes
          [write_ops c, read_ops c, filemark_ops c, space_ops c, mode_sense_ops c, log_sense_ops c,
           unsupported_mode_pages c, unsupported_log_pages c])), m)
     else bind_s (bump unsupported_log_pages_update) (\<lambda>_. err_s (UnsupportedLogPage page)) m))"

section \<open>Retention and reservations\<close>

definition set_worm_policy :: "bool \<Rightarrow> bool \<Rightarrow> ('z layout_files_scheme machine, TapeError, unit) stm" where
  "set_worm_policy worm locked =
     bind_s (check_tape ensure_loaded) (\<lambda>_.
     bind_s (lift_s (guard (\<not> (locked \<and> \<not> worm)) (InvalidArgument ''retention lock requires worm media''))) (\<lambda>_.
     bind_s (check_tape (\<lambda>t. guard (\<not> (retention_locked (retention_policy t) \<and> \<not> locked)) WormWriteProtected)) (\<lambda>_.
     bind_s (modify_tape (\<lambda>t. t\<lparr>retention_policy := \<lparr>is_worm_media = worm, retention_locked = locked\<rparr>\<rparr>)) (\<lambda>_ m.
     case active_layout (tape m) of
       Some root \<Rightarrow> storage root (persist_retention_state worm locked) m
     | None \<Rightarrow> (Ok (), m)))))"

definition when_loaded :: "(TapeState, TapeError, unit) stm \<Rightarrow> ('st machine, TapeError, unit) stm" where
  "when_loaded op = bind_s (check_tape ensure_loaded) (\<lambda>_. on_tape op)"

definition register_reservation :: "string option \<Rightarrow> u64 \<Rightarrow> ('st machine, TapeError, unit) stm" where
  "register_reservation i key = when_loaded (register_key (initiator_or_default i) key)"

definition register_ignore_reservation :: "string option \<Rightarrow> u64 \<Rightarrow> ('st machine, TapeError, unit) stm" where
  "register_ignore_reservation i service_key =
     when_loaded (register_ignore_existing (initiator_or_default i) service_key)"

definition reserve_reservation :: "string option \<Rightarrow> u64 \<Rightarrow> ('st machine, TapeError, unit) stm" where
  "reserve_reservation i key = when_loaded (reserve_key (initiator_or_default i) key)"

definition release_reservation :: "string option \<Rightarrow> u64 \<Rightarrow> ('st machine, TapeError, unit) stm" where
  "release_reservation i key = when_loaded (release_key (initiator_or_default i) key)"

definition clear_reservation :: "string option \<Rightarrow> u64 \<Rightarrow> ('st machine, TapeError, unit) stm" where
  "clear_reservation i key = when_loaded (clear_keys (initiator_or_default i) key)"

definition preempt_reservation :: "string option \<Rightarrow> u64 \<Rightarrow> u64 \<Rightarrow> ('st machine, TapeError, unit) stm" where
  "preempt_reservation i key service_key = when_loaded (preempt_key (initiator_or_default i) key service_key)"

definition register_and_move_reservation ::
  "string option \<Rightarrow> u64 \<Rightarrow> u64 \<Rightarrow> string \<Rightarrow> bool \<Rightarrow> ('st machine, TapeError, unit) stm" where
  "register_and_move_reservation i key service_key target unregister_source =
     when_loaded (register_and_move_key (initiator_or_default i) key service_key target unregister_source)"

definition read_reservation :: "TapeState \<Rightarrow> (TapeError, ReservationReport) result" where
  "read_reservation t =
     bind_r (guard (mount_state t \<noteq> Empty) (NotReady ''no media loaded'')) (\<lambda>_.
     let r = reservation_snapshot t in
     Ok \<lparr>rr_generation = snap_generation r, rr_registration_count = registration_count r,
         rr_active_owner = snap_owner r, rr_active_key = snap_key r\<rparr>)"

section \<open>Writing\<close>

definition tape_dedup_enabled :: "externs \<Rightarrow> bool" where
  "tape_dedup_enabled E =
     switch_unless [''0'', ''false'', ''no'', ''off''] True (env_var E ''HOLO_TAPE_DEDUP_ENABLED'')"

definition tape_payload_checksum_enabled :: "externs \<Rightarrow> bool" where
  "tape_payload_checksum_enabled E =
     switch_unless [''0'', ''false'', ''no'', ''off''] True (env_var E ''HOLO_TAPE_PAYLOAD_CHECKSUM_ENABLED'')"

definition tape_write_options :: "externs \<Rightarrow> TapeState \<Rightarrow> WriteOptions" where
  "tape_write_options E t =
     (if data_compression_enabled t
      then write_options_default
        \<lparr>dedup_enabled := tape_dedup_enabled E, payload_checksum_enabled := tape_payload_checksum_enabled E\<rparr>
      else \<lparr>dedup_enabled = tape_dedup_enabled E, preferred_codec = CodecNone, force_sync = False,
            payload_checksum_enabled = tape_payload_checksum_enabled E\<rparr>)"

text \<open>
  Overwriting before the end of data drops what follows the position: the
  whole layout when the tape is at its start, the mapped blocks of the tail
  otherwise, in spans of at most 2^32 - 1.
\<close>

function unmap_tail :: "externs \<Rightarrow> u64 \<Rightarrow> u64 \<Rightarrow> ('z data_store_scheme, StorageError, unit) stm" where
  "unmap_tail E start remaining =
     (if remaining = 0 then ret_s ()
      else
        let span = min remaining 0xFFFFFFFF in
        bind_s (run_unmap E start (ucast span)) (\<lambda>_.
        unmap_tail E (saturating_add start span) (saturating_sub remaining span)))"
  by pat_completeness auto

termination unmap_tail
  by (relation "measure (\<lambda>(E, start, remaining). unat remaining)")
    (auto simp: saturating_sub_def min_def unat_sub word_le_nat_alt unat_gt_0)

declare unmap_tail.simps [simp del]

definition keep_before :: "u64 \<Rightarrow> TapeState \<Rightarrow> TapeState" where
  "keep_before p t =
     (let lengths = filter (\<lambda>(start, n). saturating_add start (ucast n) \<le> p) (block_lengths t) in
      t\<lparr>filemarks := filter (\<lambda>m. m < p) (filemarks t), block_lengths := lengths,
        block_starts := filter (\<lambda>s. bt_has s lengths) (block_starts t)\<rparr>)"

definition persist_tape_filemarks :: "path \<Rightarrow> ('z layout_files_scheme machine, TapeError, unit) stm" where
  "persist_tape_filemarks root m = storage root (persist_filemarks (filemarks (tape m))) m"

definition truncate_tail_before_write ::
  "externs \<Rightarrow> path \<Rightarrow> ('z tape_store_scheme machine, TapeError, unit) stm" where
  "truncate_tail_before_write E root m =
     (let t = tape m in
      if eod_position t \<le> current_position t then (Ok (), m)
      else if current_position t = 0 then
        bind_s (storage root (reset_layout_for_overwrite E)) (\<lambda>_.
        bind_s (modify_tape (\<lambda>t. t\<lparr>filemarks := [], block_lengths := [], block_starts := [], eod_position := 0\<rparr>)) (\<lambda>_.
        persist_tape_filemarks root)) m
      else
        bind_s (storage root (unmap_tail E (current_position t)
          (saturating_sub (eod_position t) (current_position t)))) (\<lambda>_.
        bind_s (modify_tape (keep_before (current_position t))) (\<lambda>_.
        bind_s (persist_tape_filemarks root) (\<lambda>_.
        modify_tape (\<lambda>t. t\<lparr>eod_position := current_position t\<rparr>)))) m)"

definition advance_position :: "u64 \<Rightarrow> string \<Rightarrow> ('st machine, TapeError, unit) stm" where
  "advance_position n msg m =
     (case checked_add (current_position (tape m)) n of
        None \<Rightarrow> (Err (Tape_Storage (Internal msg)), m)
      | Some p \<Rightarrow> (Ok (), tape_update (\<lambda>t. t\<lparr>current_position := p\<rparr>) m))"

definition raise_eod :: "('st machine, 'e, unit) stm" where
  "raise_eod = modify_tape (\<lambda>t. t\<lparr>eod_position := max (eod_position t) (current_position t)\<rparr>)"

text \<open>One block at the position, which moves behind it.\<close>

definition write_block ::
  "externs \<Rightarrow> path \<Rightarrow> bytes \<Rightarrow> u32 \<Rightarrow> u32 \<Rightarrow> ('z tape_store_scheme machine, TapeError, unit) stm" where
  "write_block E root payload marks len =
     bind_s (\<lambda>m. storage root (write_logical_block E (current_position (tape m)) payload marks
               (tape_write_options E (tape m)) None) m) (\<lambda>_.
     bind_s (modify_tape (\<lambda>t. record_block (current_position t) len t)) (\<lambda>_.
     bind_s (advance_position (of_nat (length payload)) ''tape position overflow'') (\<lambda>_.
     bind_s raise_eod (\<lambda>_.
     bind_s (bump write_ops_update) (\<lambda>_.
     map_err_s Tape_Storage (record_write_usage E (of_nat (length payload))))))))"

definition filemark_total :: "TapeState \<Rightarrow> (TapeError, u32) result" where
  "filemark_total t = validate_payload_len (length (filemarks t))"

definition write_data_body ::
  "externs \<Rightarrow> path \<Rightarrow> bytes \<Rightarrow> u32 \<Rightarrow> ('z tape_store_scheme machine, TapeError, unit) stm" where
  "write_data_body E root payload len =
     bind_s (storage root (mark_checkpoint_dirty E)) (\<lambda>_.
     bind_s (truncate_tail_before_write E root) (\<lambda>_.
     bind_s (check_tape filemark_total) (\<lambda>marks.
     write_block E root payload marks len)))"

text \<open>What a write checks before it starts; it yields the layout to write to.\<close>

definition admit_write ::
  "filesystem_lock \<Rightarrow> string option \<Rightarrow> bytes \<Rightarrow> u32 \<Rightarrow> TapeState \<Rightarrow> (TapeError, path) result" where
  "admit_write L initiator payload len t =
     bind_r (enforce_protected_access initiator t) (\<lambda>_.
     bind_r (enforce_worm_append_only t) (\<lambda>_.
     bind_r (guard (bm_mode (block_mode t) = Fixed \<longrightarrow> fixed_block_size (block_mode t) = len)
       (FixedBlockSizeMismatch (fixed_block_size (block_mode t)) len)) (\<lambda>_.
     bind_r (loaded_layout t) (\<lambda>root.
     bind_r (ensure_capacity_available t (of_nat (length payload))) (\<lambda>_.
     bind_r (acquire_write_admission L (of_nat (length payload)) 1 1 8192
       (if bm_mode (block_mode t) = Fixed then 1 else len)) (\<lambda>_.
     Ok root))))))"

definition write_data ::
  "externs \<Rightarrow> filesystem_lock \<Rightarrow> bytes \<Rightarrow> string option \<Rightarrow> ('z tape_store_scheme machine, TapeError, unit) stm" where
  "write_data E L payload initiator =
     bind_s (check_tape ensure_loaded) (\<lambda>_.
     bind_s (check_tape ensure_write_ready) (\<lambda>_.
     bind_s (invalidate_state_read_prefetch E) (\<lambda>_.
     bind_s (lift_s (validate_payload_len (length payload))) (\<lambda>len m.
     if payload = [] then
       if bm_mode (block_mode (tape m)) = Variable then (Ok (), m)
       else (Err (InvalidArgument ''write payload cannot be empty''), m)
     else
       bind_s (check_tape (admit_write L initiator payload len)) (\<lambda>root.
       finish_write_command root (write_data_body E root payload len)) m))))"

section \<open>Writing fixed blocks\<close>

definition block_chunks :: "nat \<Rightarrow> bytes \<Rightarrow> bytes list" where
  "block_chunks n p = map (\<lambda>i. slice (i * n) n p) [0..<length p div n]"

primrec write_chunks ::
  "externs \<Rightarrow> path \<Rightarrow> u32 \<Rightarrow> u32 \<Rightarrow> bytes list \<Rightarrow> ('z tape_store_scheme machine, TapeError, unit) stm" where
  "write_chunks E root marks len [] = ret_s ()"
| "write_chunks E root marks len (c # cs) =
     bind_s (write_block E root c marks len) (\<lambda>_. write_chunks E root marks len cs)"

definition too_large :: "nat \<Rightarrow> (TapeError, 'a::len word) result" where
  "too_large n = ok_or (try_from_nat n) (InvalidArgument ''write too large'')"

definition admit_fixed_write ::
  "filesystem_lock \<Rightarrow> string option \<Rightarrow> bytes \<Rightarrow> nat \<Rightarrow> TapeState \<Rightarrow> (TapeError, path) result" where
  "admit_fixed_write L initiator payload block_size t =
     bind_r (enforce_protected_access initiator t) (\<lambda>_.
     bind_r (enforce_worm_append_only t) (\<lambda>_.
     bind_r (loaded_layout t) (\<lambda>root.
     bind_r (ensure_capacity_available t (of_nat (length payload))) (\<lambda>_.
     bind_r (too_large (length payload div block_size)) (\<lambda>blocks.
     bind_r (too_large (length payload div block_size)) (\<lambda>units.
     bind_r (acquire_write_admission L (of_nat (length payload)) blocks blocks 8192 units) (\<lambda>_.
     Ok root)))))))"

definition fixed_size_matches :: "u32 \<Rightarrow> TapeState \<Rightarrow> (TapeError, unit) result" where
  "fixed_size_matches n t =
     guard (bm_mode (block_mode t) = Fixed \<and> fixed_block_size (block_mode t) = n)
       (FixedBlockSizeMismatch (fixed_block_size (block_mode t)) n)"

definition write_fixed_blocks ::
  "externs \<Rightarrow> filesystem_lock \<Rightarrow> bytes \<Rightarrow> nat \<Rightarrow> string option \<Rightarrow> ('z tape_store_scheme machine, TapeError, unit) stm" where
  "write_fixed_blocks E L payload block_size initiator =
     bind_s (check_tape ensure_loaded) (\<lambda>_.
     bind_s (check_tape ensure_write_ready) (\<lambda>_.
     bind_s (invalidate_state_read_prefetch E) (\<lambda>_.
     bind_s (lift_s (guard (payload \<noteq> [] \<and> block_size \<noteq> 0 \<and> length payload mod block_size = 0)
       (InvalidArgument ''fixed-block write payload must contain complete blocks''))) (\<lambda>_.
     bind_s (lift_s (validate_payload_len block_size)) (\<lambda>len.
     bind_s (check_tape (fixed_size_matches len)) (\<lambda>_.
     bind_s (check_tape (admit_fixed_write L initiator payload block_size)) (\<lambda>root.
     finish_write_command root
       (bind_s (storage root (mark_checkpoint_dirty E)) (\<lambda>_.
        bind_s (truncate_tail_before_write E root) (\<lambda>_.
        bind_s (check_tape filemark_total) (\<lambda>marks.
        write_chunks E root marks len (block_chunks block_size payload))))))))))))"

section \<open>Reading\<close>

definition skip_filemark :: "u32 \<Rightarrow> bytes \<Rightarrow> ('st machine, TapeError, 'a) stm" where
  "skip_filemark residue data =
     bind_s (modify_tape (\<lambda>t. t\<lparr>current_position := position_after_filemark t (current_position t)\<rparr>)) (\<lambda>_.
     err_s (FilemarkDetected residue data))"

definition no_block :: "u64 \<Rightarrow> TapeError" where
  "no_block p = Tape_NotFound (''no block mapped at logical position '' @ decimal (unat p))"

definition read_mapped ::
  "externs \<Rightarrow> path \<Rightarrow> u64 \<Rightarrow> ('z tape_store_scheme machine, TapeError, LogicalReadResult) stm" where
  "read_mapped E root p =
     bind_s (storage root (read_logical_block E p)) (\<lambda>found. lift_s (ok_or found (no_block p)))"

definition count_read_block ::
  "externs \<Rightarrow> LogicalReadResult \<Rightarrow> ('z layout_files_scheme machine, TapeError, unit) stm" where
  "count_read_block E r =
     bind_s (bump read_ops_update) (\<lambda>_.
     map_err_s Tape_Storage (record_read_usage E (ucast (lr_logical_len r))))"

definition read_data :: "externs \<Rightarrow> ('z tape_store_scheme machine, TapeError, bytes) stm" where
  "read_data E =
     bind_s (check_tape ensure_loaded) (\<lambda>_.
     bind_s (check_tape ensure_recovery_complete) (\<lambda>_.
     bind_s (check_tape loaded_layout) (\<lambda>root m.
     let t = tape m in
     if current_position t \<in> set (filemarks t) then skip_filemark 0 [] m
     else
       bind_s (read_mapped E root (current_position t)) (\<lambda>r.
       bind_s (lift_s (guard (bm_mode (block_mode t) = Fixed \<longrightarrow> fixed_block_size (block_mode t) = lr_logical_len r)
         (FixedBlockSizeMismatch (fixed_block_size (block_mode t)) (lr_logical_len r)))) (\<lambda>_.
       bind_s (modify_tape (\<lambda>t. t\<lparr>current_position := current_position t + ucast (lr_logical_len r)\<rparr>)) (\<lambda>_.
       bind_s (count_read_block E r) (\<lambda>_.
       ret_s (lr_payload r))))) m)))"

text \<open>
  One block of a fixed read, from the reads ahead or from the layout.  The
  residue of a filemark counts this block and those behind it.
\<close>

definition read_fixed_block ::
  "externs \<Rightarrow> path \<Rightarrow> u32 \<Rightarrow> u32 \<Rightarrow> bytes \<Rightarrow> ('z tape_store_scheme machine, TapeError, bytes) stm" where
  "read_fixed_block E root len residue out m =
     (let p = current_position (tape m) in
      if p \<in> set (filemarks (tape m)) then skip_filemark residue out m
      else
        bind_s (storage root (take_read_prefetch E p)) (\<lambda>ahead.
        bind_s (case ahead of Some r \<Rightarrow> ret_s r | None \<Rightarrow> read_mapped E root p) (\<lambda>r.
        if lr_logical_start r \<noteq> p then
          bind_s (at_layout root (invalidate_read_prefetch E)) (\<lambda>_.
          err_s (Tape_NotFound (''prefetched block mapped at logical position '' @
            decimal (unat (lr_logical_start r)) @ '', expected '' @ decimal (unat p))))
        else if lr_logical_len r \<noteq> len then err_s (FixedBlockSizeMismatch len (lr_logical_len r))
        else
          bind_s (modify_tape (\<lambda>t. t\<lparr>current_position :=
            saturating_add (current_position t) (ucast (lr_logical_len r))\<rparr>)) (\<lambda>_.
          bind_s (count_read_block E r) (\<lambda>_.
          bind_s (\<lambda>m. at_layout root (schedule_read_prefetch E (current_position (tape m))
            (eod_position (tape m)) (ucast len)) m) (\<lambda>_.
          ret_s (lr_payload r)))))) m)"

definition residue_of :: "nat \<Rightarrow> u32" where
  "residue_of n = (case try_from_nat n of Some w \<Rightarrow> w | None \<Rightarrow> - 1)"

primrec read_fixed_loop ::
  "externs \<Rightarrow> path \<Rightarrow> u32 \<Rightarrow> nat \<Rightarrow> bytes \<Rightarrow> ('z tape_store_scheme machine, TapeError, bytes) stm" where
  "read_fixed_loop E root len 0 out = ret_s out"
| "read_fixed_loop E root len (Suc n) out =
     bind_s (read_fixed_block E root len (residue_of (Suc n)) out) (\<lambda>payload.
     read_fixed_loop E root len n (out @ payload))"

definition read_fixed_blocks ::
  "externs \<Rightarrow> nat \<Rightarrow> nat \<Rightarrow> ('z tape_store_scheme machine, TapeError, bytes) stm" where
  "read_fixed_blocks E block_size transfer_blocks =
     bind_s (check_tape ensure_loaded) (\<lambda>_.
     bind_s (check_tape ensure_recovery_complete) (\<lambda>_.
     bind_s (lift_s (validate_payload_len block_size)) (\<lambda>len.
     bind_s (lift_s (guard (transfer_blocks \<noteq> 0 \<and> block_size \<noteq> 0)
       (InvalidArgument ''fixed-block read requires a non-empty transfer''))) (\<lambda>_.
     bind_s (check_tape (fixed_size_matches len)) (\<lambda>_.
     bind_s (check_tape loaded_layout) (\<lambda>root.
     if transfer_blocks = 1 then read_fixed_block E root len 1 []
     else read_fixed_loop E root len transfer_blocks []))))))"

section \<open>Filemarks\<close>

primrec push_filemarks :: "nat \<Rightarrow> u64 \<Rightarrow> ('st machine, TapeError, unit) stm" where
  "push_filemarks 0 step = ret_s ()"
| "push_filemarks (Suc n) step =
     bind_s (modify_tape (\<lambda>t. t\<lparr>filemarks := filemarks t @ [current_position t]\<rparr>)) (\<lambda>_.
     bind_s (advance_position step ''filemark position overflow'') (\<lambda>_.
     push_filemarks n step))"

definition filemark_estimate :: "u32 \<Rightarrow> TapeState \<Rightarrow> (TapeError, u64) result" where
  "filemark_estimate n t =
     ok_or (Option.bind (checked_mul (of_nat (length (filemarks t))) 8) (\<lambda>old.
            Option.bind (checked_mul (ucast n) 8) (checked_add old)))
       (Tape_Storage (Internal ''filemark estimate overflow''))"

definition admit_filemarks ::
  "filesystem_lock \<Rightarrow> string option \<Rightarrow> u32 \<Rightarrow> TapeState \<Rightarrow> (TapeError, path) result" where
  "admit_filemarks L initiator n t =
     bind_r (enforce_protected_access initiator t) (\<lambda>_.
     bind_r (enforce_worm_append_only t) (\<lambda>_.
     bind_r (ok_or (checked_mul (logical_position_step t) (ucast n))
       (Tape_Storage (Internal ''filemark position overflow''))) (\<lambda>advance.
     bind_r (ensure_capacity_available t advance) (\<lambda>_.
     bind_r (loaded_layout t) (\<lambda>root.
     bind_r (filemark_estimate n t) (\<lambda>estimate.
     bind_r (map_err (\<lambda>e. case e of Tape_Storage source \<Rightarrow> PhysicalFilemarkAdmission source | other \<Rightarrow> other)
       (acquire_space_admission L 0 0 0 estimate)) (\<lambda>_.
     Ok root)))))))"

definition write_filemarks_body ::
  "externs \<Rightarrow> path \<Rightarrow> u32 \<Rightarrow> u64 \<Rightarrow> ('z tape_store_scheme machine, TapeError, unit) stm" where
  "write_filemarks_body E root n step =
     bind_s (storage root (flush_pending_writes E)) (\<lambda>_.
     bind_s (storage root (mark_checkpoint_dirty E)) (\<lambda>_.
     bind_s (push_filemarks (unat n) step) (\<lambda>_.
     bind_s raise_eod (\<lambda>_.
     bind_s (persist_tape_filemarks root) (\<lambda>_.
     bind_s (bump filemark_ops_update) (\<lambda>_.
     map_err_s Tape_Storage (record_filemark_usage E (ucast n))))))))"

definition write_filemarks ::
  "externs \<Rightarrow> filesystem_lock \<Rightarrow> u32 \<Rightarrow> string option \<Rightarrow> ('z tape_store_scheme machine, TapeError, unit) stm" where
  "write_filemarks E L n initiator =
     bind_s (check_tape ensure_loaded) (\<lambda>_.
     bind_s (check_tape ensure_write_ready) (\<lambda>_.
     bind_s (invalidate_state_read_prefetch E) (\<lambda>_.
     if n = 0 then
       bind_s (bump filemark_ops_update) (\<lambda>_. map_err_s Tape_Storage (record_filemark_usage E 0))
     else
       bind_s (check_tape (admit_filemarks L initiator n)) (\<lambda>root.
       bind_s (check_tape (\<lambda>t. Ok (logical_position_step t))) (\<lambda>step.
       finish_write_command root (write_filemarks_body E root n step))))))"

section \<open>Erasing\<close>

definition wipe_layout :: "externs \<Rightarrow> EraseMode \<Rightarrow> ('z tape_store_scheme, StorageError, unit) stm" where
  "wipe_layout E mode =
     (case mode of
        Short \<Rightarrow> reset_layout_for_overwrite E
      | Long \<Rightarrow>
          bind_s discard_layout_caches_checked (\<lambda>_.
          bind_s (modify_s (files_update (\<lambda>_ _. None))) (\<lambda>_.
          bind_s (initialize_layout E) (\<lambda>_.
          reset_layout_for_overwrite E))))"

definition erase_body ::
  "externs \<Rightarrow> EraseMode \<Rightarrow> string \<Rightarrow> path \<Rightarrow> ('z tape_store_scheme machine, TapeError, unit) stm" where
  "erase_body E mode cartridge root m =
     (let before = tape m in
      bind_s (storage root (wipe_layout E mode)) (\<lambda>_.
      bind_s (modify_s (tape_mount cartridge root)) (\<lambda>_.
      bind_s (modify_tape (\<lambda>t. t\<lparr>partition_runtime := partition_runtime before,
        cartridge_capacity_bytes := cartridge_capacity_bytes before,
        retention_policy := retention_policy before\<rparr>)) (\<lambda>_.
      bind_s (persist_tape_filemarks root) (\<lambda>_.
      storage root (persist_retention_state (is_worm_media (retention_policy before))
        (retention_locked (retention_policy before))))))) m)"

definition admit_erase ::
  "filesystem_lock \<Rightarrow> string option \<Rightarrow> TapeState \<Rightarrow> (TapeError, string \<times> path) result" where
  "admit_erase L initiator t =
     bind_r (enforce_protected_access initiator t) (\<lambda>_.
     bind_r (enforce_worm_erase_allowed t) (\<lambda>_.
     bind_r (ok_or (cartridge_id t) (NotReady ''missing cartridge id'')) (\<lambda>cartridge.
     bind_r (loaded_layout t) (\<lambda>root.
     bind_r (ensure_write_ready t) (\<lambda>_.
     bind_r (acquire_space_admission L 0 0 0 (16 * 1024)) (\<lambda>_.
     Ok (cartridge, root)))))))"

definition erase_media ::
  "externs \<Rightarrow> filesystem_lock \<Rightarrow> EraseMode \<Rightarrow> string option \<Rightarrow> ('z tape_store_scheme machine, TapeError, unit) stm" where
  "erase_media E L mode initiator =
     bind_s (check_tape ensure_loaded) (\<lambda>_.
     bind_s (invalidate_state_read_prefetch E) (\<lambda>_.
     bind_s (check_tape (admit_erase L initiator)) (\<lambda>(cartridge, root).
     finish_write_command root (erase_body E mode cartridge root))))"

section \<open>The layout under the commands\<close>

text \<open>The files of the drive next to the layout, and the reads ahead, do not disturb it.\<close>

lemma layout_rep_same:
  assumes "same_blk s s'" "same_lk s s'" "same_dd s s'" "same_blobs s s'" "same_ckpt s s'"
  shows "layout_rep E s' bl ll dl idx segs = layout_rep E s bl ll dl idx segs"
  by (simp only: layout_rep_def same_blk_rep [OF assms(1)] same_lk_rep [OF assms(2)] same_dd_rep [OF assms(3)]
      same_blobs_rep [OF assms(4)] same_ckpt_rep [OF assms(5)])

lemma layout_rep_side_file:
  assumes "f \<in> {Usage_Counters_File, Filemarks_File, Retention_File}"
  shows "layout_rep E (files_update (\<lambda>m. m(Tmp f := None, f := b)) s) bl ll dl idx segs = layout_rep E s bl ll dl idx segs"
  by (rule layout_rep_same) (use assms in \<open>auto simp: same_defs\<close>)

lemma layout_rep_prefetch [simp]:
  "layout_rep E (s\<lparr>read_prefetch_jobs := q\<rparr>) bl ll dl idx segs = layout_rep E s bl ll dl idx segs"
  by (rule layout_rep_same) (simp_all add: same_defs)

lemma join_jobs_rep:
  assumes "layout_rep E s bl ll dl idx segs" "hash_order_ok E"
  shows "layout_rep E (join_jobs E ps s) bl ll dl idx segs"
  using assms(1)
proof (induction ps arbitrary: s)
  case (Cons p ps)
  obtain res s' where "read_logical_block E p s = (Ok res, s')" "layout_rep E s' bl ll dl idx segs"
    using read_run [OF Cons.prems assms(2), of p] by blast
  then show ?case using Cons.IH by (simp add: join_jobs_def)
qed (simp add: join_jobs_def)

text \<open>A read ahead yields what a read now would.\<close>

lemma take_prefetch_run:
  assumes "layout_rep E s bl ll dl idx segs" "hash_order_ok E"
  shows "\<exists>r s'. take_read_prefetch E p s = (Ok r, s') \<and> layout_rep E s' bl ll dl idx segs \<and>
    (r = None \<or> read_spec E (blk_view E bl) (blob_set idx segs) p r)"
proof (cases "read_prefetch_enabled E \<and> p \<in> set (take 1 (dropWhile (\<lambda>q. q < p) (prefetch_queue s)))")
  case True
  then obtain qs where q: "dropWhile (\<lambda>q. q < p) (prefetch_queue s) = p # qs"
    by (cases "dropWhile (\<lambda>q. q < p) (prefetch_queue s)") auto
  let ?s = "join_jobs E (takeWhile (\<lambda>q. q < p) (prefetch_queue s)) (s\<lparr>read_prefetch_jobs := if qs = [] then None else Some qs\<rparr>)"
  have "layout_rep E ?s bl ll dl idx segs" using assms by (intro join_jobs_rep) simp_all
  then show ?thesis using read_run [OF _ assms(2), of ?s bl ll dl idx segs p] True q
    by (auto simp: take_read_prefetch_def Let_def)
next
  case False
  have "layout_rep E (join_jobs E (prefetch_queue s) (s\<lparr>read_prefetch_jobs := None\<rparr>)) bl ll dl idx segs"
    using assms by (intro join_jobs_rep) simp_all
  then show ?thesis using False assms(1) by (auto simp: take_read_prefetch_def Let_def split: list.splits)
qed

lemma schedule_prefetch_run:
  assumes "layout_rep E s bl ll dl idx segs" "hash_order_ok E"
  shows "\<exists>s'. schedule_read_prefetch E p eod n s = (Ok (), s') \<and> layout_rep E s' bl ll dl idx segs"
  using assms by (auto simp: schedule_read_prefetch_def Let_def intro!: join_jobs_rep)

section \<open>Commands on the machine\<close>

lemma check_tape_simps [simp]: "check_tape f m = (f (tape m), m)"
  by (simp add: check_tape_def)

lemma modify_tape_simps [simp]: "modify_tape f m = (Ok (), m\<lparr>tape := f (tape m)\<rparr>)"
  by (cases m) (simp add: modify_tape_def)

lemma advance_position_Ok:
  "checked_add (current_position (tape m)) n = Some p \<Longrightarrow>
   advance_position n msg m = (Ok (), m\<lparr>tape := (tape m)\<lparr>current_position := p\<rparr>\<rparr>)"
  by (cases m) (simp add: advance_position_def)

lemma storage_Ok:
  "op (stores m root) = (Ok a, s') \<Longrightarrow> storage root op m = (Ok a, m\<lparr>stores := (stores m)(root := s')\<rparr>)"
  by (simp add: storage_def map_err_s_def at_layout_def)

lemma at_layout_Ok:
  "op (stores m root) = (r, s') \<Longrightarrow> at_layout root op m = (r, m\<lparr>stores := (stores m)(root := s')\<rparr>)"
  by (simp add: at_layout_def)

text \<open>The drive of a machine is loaded from a well-formed layout at a root.\<close>

definition mounted_rep ::
  "externs \<Rightarrow> 'z tape_store_scheme machine \<Rightarrow> path \<Rightarrow> BlkMapRecord list \<Rightarrow> MapLookupRecord list \<Rightarrow> DedupIndexEntry list \<Rightarrow>
   SegmentIndex \<Rightarrow> segments \<Rightarrow> bool" where
  "mounted_rep E m root bl ll dl idx segs \<longleftrightarrow>
     mount_state (tape m) \<noteq> Empty \<and> \<not> requires_recovery (tape m) \<and> active_layout (tape m) = Some root \<and>
     layout_rep E (stores m root) bl ll dl idx segs"

lemma mounted_rep_checks:
  assumes "mounted_rep E m root bl ll dl idx segs"
  shows "ensure_loaded (tape m) = Ok ()" "ensure_write_ready (tape m) = Ok ()" "ensure_recovery_complete (tape m) = Ok ()"
    "loaded_layout (tape m) = Ok root"
  using assms by (simp_all add: mounted_rep_def ensure_loaded_def ensure_write_ready_def
      ensure_recovery_complete_def loaded_layout_def)

lemma invalidate_run:
  assumes "mounted_rep E m root bl ll dl idx segs" "hash_order_ok E"
  shows "\<exists>s'. invalidate_state_read_prefetch E m = (Ok (), m\<lparr>stores := (stores m)(root := s')\<rparr>) \<and>
    mounted_rep E (m\<lparr>stores := (stores m)(root := s')\<rparr>) root bl ll dl idx segs"
proof -
  let ?s = "join_jobs E (prefetch_queue (stores m root)) ((stores m root)\<lparr>read_prefetch_jobs := None\<rparr>)"
  have "layout_rep E ?s bl ll dl idx segs" using assms by (intro join_jobs_rep) (simp_all add: mounted_rep_def)
  moreover have "invalidate_state_read_prefetch E m = (Ok (), m\<lparr>stores := (stores m)(root := ?s)\<rparr>)"
    using assms(1) by (simp add: invalidate_state_read_prefetch_def invalidate_read_prefetch_def mounted_rep_def at_layout_Ok)
  ultimately show ?thesis using assms(1) by (auto simp: mounted_rep_def)
qed

lemma counter_fields:
  "command_counters_update f t = t\<lparr>command_counters := f (command_counters t)\<rparr>"
  "usage_counters_update g t = t\<lparr>usage_counters := g (usage_counters t)\<rparr>"
  by (cases t, simp)+

text \<open>Counting an operation changes the usage counters and at most their file.\<close>

lemma count_usage_run:
  assumes "active_layout (tape m) = Some root" "layout_rep E (stores m root) bl ll dl idx segs"
  shows "\<exists>c d s'. bind_s (modify_s (tape_update (usage_counters_update f))) (\<lambda>_. mark_usage_counters_dirty F) m =
      (Ok (), m\<lparr>tape := (tape m)\<lparr>usage_counters := c, usage_counters_dirty_ops := d\<rparr>, stores := (stores m)(root := s')\<rparr>) \<and>
    layout_rep E s' bl ll dl idx segs"
proof -
  let ?d = "saturating_add (usage_counters_dirty_ops (tape m)) 1" and ?c = "f (usage_counters (tape m))"
  let ?m = "m\<lparr>tape := (tape m)\<lparr>usage_counters := ?c, usage_counters_dirty_ops := ?d\<rparr>\<rparr>"
  have start: "bind_s (modify_s (tape_update (usage_counters_update f))) (\<lambda>_. mark_usage_counters_dirty F) m =
      (if usage_counter_persist_every_ops F \<le> ?d then persist_usage_counters ?m else (Ok (), ?m))"
    by (cases m) (simp add: mark_usage_counters_dirty_def bind_s_def counter_fields(2) [of f])
  show ?thesis
  proof (cases "usage_counter_persist_every_ops F \<le> ?d")
    case True
    let ?s = "files_update (\<lambda>fs. fs(Tmp Usage_Counters_File := None,
        Usage_Counters_File := Some (as_bytes (usage_counters_text ?c)))) (stores m root)"
    have "layout_rep E ?s bl ll dl idx segs" using assms(2) by (simp add: layout_rep_side_file)
    then show ?thesis using True start assms(1) unfolding persist_usage_run
      by (intro exI [of _ ?c] exI [of _ 0] exI [of _ ?s]) simp
  next
    case False
    then show ?thesis using start assms(2)
      by (intro exI [of _ ?c] exI [of _ ?d] exI [of _ "stores m root"]) simp
  qed
qed

lemma record_usage_run:
  assumes "mounted_rep E m root bl ll dl idx segs"
  shows "\<exists>c d s'. record_write_usage F n m =
      (Ok (), m\<lparr>tape := (tape m)\<lparr>usage_counters := c, usage_counters_dirty_ops := d\<rparr>, stores := (stores m)(root := s')\<rparr>) \<and>
    layout_rep E s' bl ll dl idx segs"
    "\<exists>c d s'. record_read_usage F n m =
      (Ok (), m\<lparr>tape := (tape m)\<lparr>usage_counters := c, usage_counters_dirty_ops := d\<rparr>, stores := (stores m)(root := s')\<rparr>) \<and>
    layout_rep E s' bl ll dl idx segs"
  using count_usage_run [of m root E bl ll dl idx segs] assms
  by (simp_all add: record_write_usage_def record_read_usage_def mounted_rep_def)

text \<open>The drive apart from its counters.\<close>

definition same_drive :: "TapeState \<Rightarrow> TapeState \<Rightarrow> bool" where
  "same_drive t t' \<longleftrightarrow> (\<exists>cc c d. t' = t\<lparr>command_counters := cc, usage_counters := c, usage_counters_dirty_ops := d\<rparr>)"

lemma same_drive_fields:
  assumes "same_drive t t'"
  shows "mount_state t' = mount_state t" "requires_recovery t' = requires_recovery t" "active_layout t' = active_layout t"
    "current_position t' = current_position t" "eod_position t' = eod_position t" "filemarks t' = filemarks t"
    "block_mode t' = block_mode t" "block_starts t' = block_starts t" "block_lengths t' = block_lengths t"
    "reservation_state t' = reservation_state t" "retention_policy t' = retention_policy t"
  using assms by (auto simp: same_drive_def)

lemma write_block_run:
  assumes rep: "mounted_rep E m root bl ll dl idx segs" and E: "externs_ok E"
    and room: "write_room E (tape_write_options E (tape m)) (current_position (tape m)) payload bl ll dl idx"
  shows "\<exists>r l dl' idx' segs' m'. write_block E root payload marks len m = (Ok (), m') \<and>
    mounted_rep E m' root (bl @ [r]) (ll @ [l]) dl' idx' segs' \<and> blob_set idx segs \<subseteq> blob_set idx' segs' \<and>
    mset (blk_view E (bl @ [r])) = add_mset r (mset (blk_view E bl)) \<and> readable E (blob_set idx' segs') r payload \<and>
    is_active r \<and> logical_start r = current_position (tape m) \<and>
    unat (logical_end r) = unat (current_position (tape m)) + length payload \<and> logical_len r = of_nat (length payload) \<and>
    same_drive ((record_block (current_position (tape m)) len (tape m))
      \<lparr>current_position := current_position (tape m) + of_nat (length payload),
       eod_position := max (eod_position (tape m)) (current_position (tape m) + of_nat (length payload))\<rparr>) (tape m')"
proof -
  let ?p = "current_position (tape m)" and ?n = "of_nat (length payload) :: u64"
  have lay: "layout_rep E (stores m root) bl ll dl idx segs" using rep by (simp add: mounted_rep_def)
  obtain w r l dl' idx' segs' s' where w:
    "write_logical_block E ?p payload marks (tape_write_options E (tape m)) None (stores m root) = (Ok w, s')"
    "layout_rep E s' (bl @ [r]) (ll @ [l]) dl' idx' segs'" "blob_set idx segs \<subseteq> blob_set idx' segs'"
    "mset (blk_view E (bl @ [r])) = add_mset r (mset (blk_view E bl))" "readable E (blob_set idx' segs') r payload"
    "is_active r" "logical_start r = ?p" "unat (logical_end r) = unat ?p + length payload"
    "logical_len r = of_nat (length payload)"
    using write_run [OF lay room E] by blast
  have lt: "unat ?p + length payload < 2 ^ 64" using room by (simp add: write_room_def)
  then have n: "unat ?n = length payload" by (simp add: unat_of_nat_small)
  have add: "checked_add ?p ?n = Some (?p + ?n)" using lt n by (simp add: checked_add_def)
  let ?t = "(record_block ?p len (tape m))\<lparr>current_position := ?p + ?n, eod_position := max (eod_position (tape m)) (?p + ?n)\<rparr>"
  let ?m1 = "m\<lparr>stores := (stores m)(root := s'),
     tape := command_counters_update (write_ops_update (\<lambda>n. saturating_add n 1)) ?t\<rparr>"
  have keep: "current_position (record_block p k t) = current_position t" "eod_position (record_block p k t) = eod_position t"
    "mount_state (record_block p k t) = mount_state t" "requires_recovery (record_block p k t) = requires_recovery t"
    "active_layout (record_block p k t) = active_layout t" for p k t by (simp_all add: record_block_def Let_def)
  have rep1: "mounted_rep E ?m1 root (bl @ [r]) (ll @ [l]) dl' idx' segs'"
    using rep w(2) by (simp add: mounted_rep_def keep)
  obtain c d s2 where u: "record_write_usage E ?n ?m1 = (Ok (), ?m1\<lparr>tape := (tape ?m1)\<lparr>usage_counters := c,
      usage_counters_dirty_ops := d\<rparr>, stores := (stores ?m1)(root := s2)\<rparr>)" "layout_rep E s2 (bl @ [r]) (ll @ [l]) dl' idx' segs'"
    using record_usage_run(1) [OF rep1, of E ?n] by blast
  let ?m2 = "?m1\<lparr>tape := (tape ?m1)\<lparr>usage_counters := c, usage_counters_dirty_ops := d\<rparr>, stores := (stores ?m1)(root := s2)\<rparr>"
  have "write_block E root payload marks len m = (Ok (), ?m2)"
    using w(1) add u(1)
    by (simp add: write_block_def storage_Ok bump_def raise_eod_def advance_position_Ok keep map_err_s_def)
  moreover have "mounted_rep E ?m2 root (bl @ [r]) (ll @ [l]) dl' idx' segs'"
    using rep1 u(2) by (simp add: mounted_rep_def)
  moreover have "same_drive ?t (tape ?m2)"
    unfolding same_drive_def by (subst counter_fields(1)) auto
  ultimately show ?thesis using w(3-9) by blast
qed

lemma mark_dirty_layout:
  assumes "layout_rep E s bl ll dl idx segs"
  shows "\<exists>c s'. mark_checkpoint_dirty E s = (Ok c, s') \<and> layout_rep E s' bl ll dl idx segs"
proof -
  obtain c0 where "ckpt_rep E s c0" using assms by (auto simp: layout_rep_def)
  then show ?thesis using mark_dirty_run [of E s c0] layout_rep_ckpt_frame [OF assms] by blast
qed

lemma write_data_append_run:
  assumes rep: "mounted_rep E m root bl ll dl idx segs" and E: "externs_ok E"
    and room: "write_room E (tape_write_options E (tape m)) (current_position (tape m)) payload bl ll dl idx"
    and admitted: "admit_write L initiator payload (of_nat (length payload)) (tape m) = Ok root"
    and append: "eod_position (tape m) \<le> current_position (tape m)"
    and marks: "length (filemarks (tape m)) < 2 ^ 32"
  shows "\<exists>r l dl' idx' segs' m'. write_data E L payload initiator m = (Ok (), m') \<and>
    mounted_rep E m' root (bl @ [r]) (ll @ [l]) dl' idx' segs' \<and> blob_set idx segs \<subseteq> blob_set idx' segs' \<and>
    mset (blk_view E (bl @ [r])) = add_mset r (mset (blk_view E bl)) \<and> readable E (blob_set idx' segs') r payload \<and>
    is_active r \<and> logical_start r = current_position (tape m) \<and>
    unat (logical_end r) = unat (current_position (tape m)) + length payload \<and> logical_len r = of_nat (length payload) \<and>
    same_drive ((record_block (current_position (tape m)) (of_nat (length payload)) (tape m))
      \<lparr>current_position := current_position (tape m) + of_nat (length payload),
       eod_position := current_position (tape m) + of_nat (length payload)\<rparr>) (tape m')"
proof -
  let ?p = "current_position (tape m)" and ?n = "of_nat (length payload) :: u32"
  have ho: "hash_order_ok E" using E by (simp add: externs_ok_def)
  have len: "payload \<noteq> []" "length payload < 2 ^ 32" "unat ?p + length payload < 2 ^ 64"
    using room by (auto simp: write_room_def place_room_def MAX_DECOMPRESSED_PAYLOAD_LEN_def)
  obtain s1 where i: "invalidate_state_read_prefetch E m = (Ok (), m\<lparr>stores := (stores m)(root := s1)\<rparr>)"
    "mounted_rep E (m\<lparr>stores := (stores m)(root := s1)\<rparr>) root bl ll dl idx segs" using invalidate_run [OF rep ho] by blast
  let ?m1 = "m\<lparr>stores := (stores m)(root := s1)\<rparr>"
  obtain c s2 where d: "mark_checkpoint_dirty E s1 = (Ok c, s2)" "layout_rep E s2 bl ll dl idx segs"
    using mark_dirty_layout i(2) by (fastforce simp: mounted_rep_def)
  let ?m2 = "m\<lparr>stores := (stores m)(root := s2)\<rparr>"
  have dirty: "storage root (mark_checkpoint_dirty E) ?m1 = (Ok c, ?m2)" using d(1) by (simp add: storage_Ok)
  have rep2: "mounted_rep E ?m2 root bl ll dl idx segs" using rep d(2) by (simp add: mounted_rep_def)
  have room2: "write_room E (tape_write_options E (tape ?m2)) (current_position (tape ?m2)) payload bl ll dl idx"
    using room by simp
  obtain r l dl' idx' segs' m' where w: "write_block E root payload (of_nat (length (filemarks (tape m)))) ?n ?m2 = (Ok (), m')"
    "mounted_rep E m' root (bl @ [r]) (ll @ [l]) dl' idx' segs'" "blob_set idx segs \<subseteq> blob_set idx' segs'"
    "mset (blk_view E (bl @ [r])) = add_mset r (mset (blk_view E bl))" "readable E (blob_set idx' segs') r payload"
    "is_active r" "logical_start r = ?p" "unat (logical_end r) = unat ?p + length payload" "logical_len r = ?n"
    "same_drive ((record_block ?p ?n (tape m))\<lparr>current_position := ?p + of_nat (length payload),
      eod_position := max (eod_position (tape m)) (?p + of_nat (length payload))\<rparr>) (tape m')"
    using write_block_run [OF rep2 E room2, of "of_nat (length (filemarks (tape m)))" ?n] by auto
  have "unat (?p + of_nat (length payload)) = unat ?p + length payload"
    using len(3) by (simp add: unat_word_ariths unat_of_nat)
  then have e: "max (eod_position (tape m)) (?p + of_nat (length payload)) = ?p + of_nat (length payload)"
    using append by (simp add: max_def word_le_nat_alt)
  have "write_data_body E root payload ?n ?m1 = (Ok (), m')"
    using dirty append marks w(1)
    by (simp add: write_data_body_def truncate_tail_before_write_def filemark_total_def validate_payload_len_def try_from_nat_def)
  then have "write_data E L payload initiator m = (Ok (), m')"
    using mounted_rep_checks [OF rep] i(1) admitted len(1,2)
    by (simp add: write_data_def validate_payload_len_def try_from_nat_def finish_write_command_def)
  then show ?thesis using w(2-9) w(10) [unfolded e] by blast
qed

lemma locate_media_run:
  assumes rep: "mounted_rep E m root bl ll dl idx segs" and E: "hash_order_ok E"
    and target: "locate_target (tape m) p = Ok p"
  shows "\<exists>m'. locate E p m = (Ok (), m') \<and> tape m' = (tape m)\<lparr>current_position := p\<rparr> \<and>
    mounted_rep E m' root bl ll dl idx segs"
proof -
  obtain s1 where i: "invalidate_state_read_prefetch E m = (Ok (), m\<lparr>stores := (stores m)(root := s1)\<rparr>)"
    "mounted_rep E (m\<lparr>stores := (stores m)(root := s1)\<rparr>) root bl ll dl idx segs" using invalidate_run [OF rep E] by blast
  then show ?thesis using mounted_rep_checks [OF rep] target
    by (simp add: locate_def move_to_def mounted_rep_def)
qed

text \<open>Reading the block mapped at the position, in the block mode of the drive.\<close>

lemma read_data_run:
  assumes rep: "mounted_rep E m root bl ll dl idx segs" and E: "hash_order_ok E"
    and spec: "read_spec E (blk_view E bl) (blob_set idx segs) (current_position (tape m)) (Some x)"
    and mark: "current_position (tape m) \<notin> set (filemarks (tape m))"
    and size: "bm_mode (block_mode (tape m)) = Fixed \<longrightarrow> fixed_block_size (block_mode (tape m)) = lr_logical_len x"
  shows "\<exists>m'. read_data E m = (Ok (lr_payload x), m') \<and> mounted_rep E m' root bl ll dl idx segs \<and>
    same_drive ((tape m)\<lparr>current_position := current_position (tape m) + ucast (lr_logical_len x)\<rparr>) (tape m')"
proof -
  let ?p = "current_position (tape m)" and ?n = "ucast (lr_logical_len x) :: u64"
  have lay: "layout_rep E (stores m root) bl ll dl idx segs" using rep by (simp add: mounted_rep_def)
  obtain res s1 where r: "read_logical_block E ?p (stores m root) = (Ok res, s1)" "layout_rep E s1 bl ll dl idx segs"
    using read_run [OF lay E] by blast
  then have "res = Some x" using read_determined [OF lay E spec] by simp
  then have mapped: "read_mapped E root ?p m = (Ok x, m\<lparr>stores := (stores m)(root := s1)\<rparr>)"
    using r(1) by (simp add: read_mapped_def storage_Ok)
  let ?t = "(tape m)\<lparr>current_position := ?p + ?n\<rparr>"
  let ?m1 = "m\<lparr>stores := (stores m)(root := s1), tape := command_counters_update (read_ops_update (\<lambda>n. saturating_add n 1)) ?t\<rparr>"
  have rep1: "mounted_rep E ?m1 root bl ll dl idx segs" using rep r(2) by (simp add: mounted_rep_def)
  obtain c d s2 where u: "record_read_usage E ?n ?m1 = (Ok (), ?m1\<lparr>tape := (tape ?m1)\<lparr>usage_counters := c,
      usage_counters_dirty_ops := d\<rparr>, stores := (stores ?m1)(root := s2)\<rparr>)" "layout_rep E s2 bl ll dl idx segs"
    using record_usage_run(2) [OF rep1, of E ?n] by blast
  let ?m2 = "?m1\<lparr>tape := (tape ?m1)\<lparr>usage_counters := c, usage_counters_dirty_ops := d\<rparr>, stores := (stores ?m1)(root := s2)\<rparr>"
  have "read_data E m = (Ok (lr_payload x), ?m2)"
    using mounted_rep_checks [OF rep] mark mapped size u(1)
    by (simp add: read_data_def count_read_block_def bump_def map_err_s_def guard_def Let_def)
  moreover have "mounted_rep E ?m2 root bl ll dl idx segs" using rep1 u(2) by (simp add: mounted_rep_def)
  moreover have "same_drive ?t (tape ?m2)" unfolding same_drive_def by (subst counter_fields(1)) auto
  ultimately show ?thesis by blast
qed

text \<open>
  C2: On a mounted cartridge, a block written at the end of data is found by a
  LOCATE to where it was written and read back by the next READ, which leaves
  the drive where the write left it; the cartridge stays well formed.
\<close>

theorem written_block_read_back:
  assumes "mounted_rep E m root bl ll dl idx segs" "externs_ok E"
    "write_room E (tape_write_options E (tape m)) (current_position (tape m)) payload bl ll dl idx"
    "admit_write L initiator payload (of_nat (length payload)) (tape m) = Ok root"
    "eod_position (tape m) \<le> current_position (tape m)" "length (filemarks (tape m)) < 2 ^ 32"
    "current_position (tape m) \<notin> set (filemarks (tape m))"
  shows "\<exists>m1 m2 m3. write_data E L payload initiator m = (Ok (), m1) \<and>
    locate E (current_position (tape m)) m1 = (Ok (), m2) \<and> read_data E m2 = (Ok payload, m3) \<and>
    current_position (tape m1) = current_position (tape m) + of_nat (length payload) \<and>
    current_position (tape m3) = current_position (tape m1) \<and> eod_position (tape m3) = current_position (tape m1) \<and>
    (\<exists>bl' ll' dl' idx' segs'. mounted_rep E m3 root bl' ll' dl' idx' segs')"
proof -
  let ?p = "current_position (tape m)"
  have ho: "hash_order_ok E" using assms(2) by (simp add: externs_ok_def)
  obtain r l dl' idx' segs' m1 where w: "write_data E L payload initiator m = (Ok (), m1)"
    "mounted_rep E m1 root (bl @ [r]) (ll @ [l]) dl' idx' segs'"
    "mset (blk_view E (bl @ [r])) = add_mset r (mset (blk_view E bl))" "readable E (blob_set idx' segs') r payload"
    "is_active r" "logical_start r = ?p" "unat (logical_end r) = unat ?p + length payload" "logical_len r = of_nat (length payload)"
    and d: "same_drive ((record_block ?p (of_nat (length payload)) (tape m))\<lparr>current_position := ?p + of_nat (length payload),
      eod_position := ?p + of_nat (length payload)\<rparr>) (tape m1)"
    using write_data_append_run [OF assms(1-6)] by blast
  have len: "payload \<noteq> []" "length payload < 2 ^ 32" "unat ?p + length payload < 2 ^ 64"
    using assms(3) by (auto simp: write_room_def place_room_def MAX_DECOMPRESSED_PAYLOAD_LEN_def)
  have t1: "current_position (tape m1) = ?p + of_nat (length payload)" "eod_position (tape m1) = ?p + of_nat (length payload)"
    "filemarks (tape m1) = filemarks (tape m)" "block_mode (tape m1) = block_mode (tape m)"
    "bt_has ?p (block_lengths (tape m1))"
    using same_drive_fields [OF d] by (simp_all add: record_block_def Let_def)
  have "?p \<le> ?p + of_nat (length payload)" using len(3) by (simp add: word_le_nat_alt unat_word_ariths unat_of_nat)
  then have "locate_target (tape m1) ?p = Ok ?p"
    using t1(2,5) by (auto simp: locate_target_def is_addressable_position_def guard_def)
  then obtain m2 where m2: "locate E ?p m1 = (Ok (), m2)" "tape m2 = (tape m1)\<lparr>current_position := ?p\<rparr>"
    "mounted_rep E m2 root (bl @ [r]) (ll @ [l]) dl' idx' segs'" using locate_media_run [OF w(2) ho] by blast
  let ?x = "read_result r payload"
  have x: "lr_logical_len ?x = of_nat (length payload)" "lr_payload ?x = payload" using w(8) by (simp_all add: read_result_def)
  have "covers ?p r" using w(6,7) len(1) by (simp add: covers_def word_le_nat_alt word_less_nat_alt)
  then have spec: "read_spec E (blk_view E (bl @ [r])) (blob_set idx' segs') (current_position (tape m2)) (Some ?x)"
    using read_spec_new [OF w(3-5)] m2(2) by simp
  have mode: "bm_mode (block_mode (tape m)) = Fixed \<longrightarrow> fixed_block_size (block_mode (tape m)) = of_nat (length payload)"
    using assms(4) by (auto simp: admit_write_def guard_def split: if_splits)
  obtain m3 where m3: "read_data E m2 = (Ok payload, m3)" "mounted_rep E m3 root (bl @ [r]) (ll @ [l]) dl' idx' segs'"
    "same_drive ((tape m2)\<lparr>current_position := ?p + ucast (lr_logical_len ?x)\<rparr>) (tape m3)"
    using read_data_run [OF m2(3) ho spec] assms(7) mode x m2(2) t1(3,4) by auto
  have "(ucast (of_nat (length payload) :: u32) :: u64) = of_nat (length payload)"
    using len(2) by (simp add: word_unat_eq_iff unsigned_ucast_eq take_bit_eq_mod unat_of_nat)
  then have "current_position (tape m3) = current_position (tape m1)" "eod_position (tape m3) = current_position (tape m1)"
    using same_drive_fields(4,5) [OF m3(3)] m2(2) t1(1,2) x(1) by simp_all
  then show ?thesis using w(1) m2(1) m3(1,2) t1(1) by blast
qed

definition sample_filesystem :: filesystem_lock where
  "sample_filesystem =
     \<lparr>acquire_wait = Ok 7,
      probe = Ok \<lparr>filesystem_id = 7, allocation_unit = 4096, available_bytes = 0x10000000000\<rparr>,
      active_reservation_bytes = Ok 0, reserve = (\<lambda>_. Ok ())\<rparr>"

definition sample_drive :: TapeState where
  "sample_drive = (tape_new plain_externs ''drive-1'')
     \<lparr>mount_state := Loaded, cartridge_id := Some ''CAR1'', active_layout := Some [''pool''],
      current_position := 5, eod_position := 5, block_mode := \<lparr>bm_mode = Variable, fixed_block_size = 0\<rparr>\<rparr>"

lemma sample_admitted: "admit_write sample_filesystem None [1, 2, 3] 3 sample_drive = Ok [''pool'']"
proof -
  have "estimate_write_peak_bytes 3 1 1 8192 4096 = Ok 12563"
    by (simp add: estimate_write_peak_bytes_def round_up_to_allocation_unit_def checked_add_def checked_mul_def
        BLOB_RECORD_OVERHEAD_def SEGMENT_OVERHEAD_def Let_def)
  then have "space_admission sample_filesystem 3 1 1 8192 = Ok ()"
    by (simp add: space_admission_def sample_filesystem_def checked_add_def ensure_capacity_Ok SPACE_RESERVE_BYTES_def)
  moreover have "trim DEFAULT_INITIATOR \<noteq> []" by code_simp
  ultimately show ?thesis
    by (simp add: admit_write_def enforce_protected_access_def ensure_reservation_access_def validate_initiator_def
        initiator_or_default_def enforce_worm_append_only_def loaded_layout_def ensure_capacity_available_def
        active_partition_capacity_limit_def active_partition_size_def partition_runtime_default_def Let_def
        acquire_write_admission_def acquire_space_admission_def sample_drive_def tape_new_def
        reservation_default_def retention_default_def guard_def)
qed

lemma sample_drive_options: "tape_write_options plain_externs sample_drive = write_options_default"
  by code_simp

theorem written_block_read_back_witness:
  "\<exists>s m1 m2 m3. reset_layout_for_overwrite plain_externs (sample_cartridge \<lparr>read_prefetch_jobs = None\<rparr>) = (Ok (), s) \<and>
     write_data plain_externs sample_filesystem [1, 2, 3] None \<lparr>tape = sample_drive, stores = (\<lambda>_. s)\<rparr> = (Ok (), m1) \<and>
     locate plain_externs 5 m1 = (Ok (), m2) \<and> read_data plain_externs m2 = (Ok [1, 2, 3], m3)"
proof -
  obtain s where s: "reset_layout_for_overwrite plain_externs (sample_cartridge \<lparr>read_prefetch_jobs = None\<rparr>) = (Ok (), s)"
    "layout_rep plain_externs s [] [] [] (index_new (configured_max_segment_size plain_externs)) (\<lambda>_. [])"
    by (rule sample_reset)
  let ?m = "\<lparr>tape = sample_drive, stores = (\<lambda>_ :: path. s)\<rparr>"
  have "mounted_rep plain_externs ?m [''pool''] [] [] [] (index_new (configured_max_segment_size plain_externs)) (\<lambda>_. [])"
    using s(2) by (simp add: mounted_rep_def sample_drive_def tape_new_def)
  from written_block_read_back [OF this plain_externs_ok(1), of "[1, 2, 3]" sample_filesystem None]
  show ?thesis using s(1) sample_admitted sample_write_room sample_drive_options
    by (auto simp: sample_drive_def tape_new_def)
qed

end
