(* ===== verification/Recovery.thy ===== *)
theory Recovery
  imports Layout_Boot Runtime_State
begin

text \<open>
  Recovery of a layout that was not closed (\<^verbatim>\<open>recover_dirty_state\<close> in
  \<^verbatim>\<open>storage/data_path.rs\<close>): the metadata is loaded, every active record is
  checked against its blob, temporary files are removed, and the lookup table,
  the segment index, the reference counts and the reclaim candidates are built
  anew from the block map.  The progress callback of a mount does nothing and
  is left out; a file is never a symbolic link.
\<close>

record RecoveryReport =
  dirty_detected :: bool
  rebuilt_lookup_entries :: nat
  dedup_refcount_repaired :: nat
  reclaim_updates :: nat
  rec_checkpoint_epoch :: u64

section \<open>Scanning the headers of a segment\<close>

record SegmentBlobHeaderScan =
  scan_header :: SegmentHeader
  scan_blobs :: "DataBlobMeta list"
  scan_next_offset :: u64
  headers_scanned :: nat
  scan_complete :: bool

text \<open>At most a number of headers, from an offset; a segment of the old format says how many it has.\<close>

primrec scan_headers_loop ::
  "nat \<Rightarrow> bytes \<Rightarrow> u16 \<Rightarrow> u64 \<Rightarrow> nat option \<Rightarrow> u64 \<Rightarrow> DataBlobMeta list \<Rightarrow> (StorageError, DataBlobMeta list \<times> u64) result" where
  "scan_headers_loop 0 buf ver payload_end legacy off blobs = Ok (blobs, off)"
| "scan_headers_loop (Suc n) buf ver payload_end legacy off blobs =
     (if payload_end \<le> off \<or> (case legacy of Some n0 \<Rightarrow> n0 \<le> length blobs | None \<Rightarrow> False)
      then Ok (blobs, off)
      else
        bind_r (read_blob_meta buf ver off) (\<lambda>meta.
        bind_r (checked_blob_next_offset off (mt_stored_len meta) payload_end) (\<lambda>next_off.
        scan_headers_loop n buf ver payload_end legacy next_off (blobs @ [meta]))))"

definition scan_start ::
  "bytes \<Rightarrow> u64 \<Rightarrow> u64 \<Rightarrow> (StorageError, u64 \<times> nat option) result" where
  "scan_start buf payload_start plen =
     bind_r (read_exact_at buf (unat payload_start) 4) (\<lambda>pre.
     if pre = DATA_LOG_PREFIX then Ok (payload_start + 4, None)
     else
       bind_r (guard (8 \<le> plen) (Corrupt ''data payload too short'')) (\<lambda>_.
       bind_r (read_exact_at buf (unat payload_start) 8) (\<lambda>count_buf.
       let n0 = unat (from_le_bytes count_buf :: u64) in
       bind_r (guard (n0 \<le> unat (plen - 8) div DATA_BLOB_HEADER_SIZE)
         (Corrupt ''legacy data blob count exceeds segment payload'')) (\<lambda>_.
       Ok (payload_start + 8, Some n0)))))"

definition scan_segment_blob_headers ::
  "externs \<Rightarrow> layout_file \<Rightarrow> nat \<Rightarrow> ('z segment_store_scheme, StorageError, SegmentBlobHeaderScan) stm" where
  "scan_segment_blob_headers E f max_headers s =
     (case files s f of
        None \<Rightarrow> (Err (Io IoNotFound), s)
      | Some buf \<Rightarrow>
          bind_s (read_segment_header E f KData) (\<lambda>h.
          let start = segment_payload_offset h; plen = payload_len h in
          lift_s
            (bind_r (ok_or (checked_add start plen) (Corrupt ''data segment length overflow'')) (\<lambda>payload_end.
             bind_r (guard (length buf = unat payload_end) (Corrupt ''data segment size mismatch'')) (\<lambda>_.
             if plen = 0
             then Ok \<lparr>scan_header = h, scan_blobs = [], scan_next_offset = payload_end, headers_scanned = 0,
                      scan_complete = True\<rparr>
             else
               bind_r (scan_start buf start plen) (\<lambda>(off, legacy).
               bind_r (scan_headers_loop max_headers buf (version h) payload_end legacy off []) (\<lambda>(blobs, next_off).
               let complete = (case legacy of Some n \<Rightarrow> n \<le> length blobs | None \<Rightarrow> next_off = payload_end) in
               bind_r (guard (\<not> (next_off = off \<and> \<not> complete \<and> 0 < max_headers))
                 (Corrupt ''data blob scan made no progress'')) (\<lambda>_.
               Ok \<lparr>scan_header = h, scan_blobs = blobs, scan_next_offset = next_off,
                   headers_scanned = length blobs, scan_complete = complete\<rparr>))))))) s)"

section \<open>Checking active records against their blobs\<close>

definition resolve_active_segment_seq :: "'z layout_files_scheme \<Rightarrow> u32 \<Rightarrow> (StorageError, u32) result" where
  "resolve_active_segment_seq s q =
     (if files s (Data_Segment q) \<noteq> None then Ok q
      else if q = 1 \<and> files s (Data_Segment 0) \<noteq> None then Ok 0
      else if q = 0 \<and> files s Data_File \<noteq> None then Ok 0
      else Err (Corrupt ''active block map references a missing data segment''))"

definition recovery_segment_path :: "'z layout_files_scheme \<Rightarrow> u32 \<Rightarrow> layout_file" where
  "recovery_segment_path s q =
     (if q = 0 \<and> files s (Data_Segment q) = None \<and> files s Data_File \<noteq> None then Data_File else Data_Segment q)"

definition all_ok :: "('a \<Rightarrow> (StorageError, unit) result) \<Rightarrow> 'a list \<Rightarrow> (StorageError, unit) result" where
  "all_ok f xs = bind_r (traverse f xs) (\<lambda>_. Ok ())"

text \<open>
  A raw payload is checked in chunks of one mebibyte; the checksums of the
  chunks continue each other, so they are those of the payload.
\<close>

definition validate_raw_payload ::
  "externs \<Rightarrow> DataBlobMeta \<Rightarrow> BlkMapRecord list \<Rightarrow> bytes \<Rightarrow> (StorageError, unit) result" where
  "validate_raw_payload E meta records payload =
     (let blob_crc = integrity32_continue E (integrity32_continue E
            (integrity32_continue E 0 (to_le_bytes (mt_blob_id meta))) (to_le_bytes (mt_logical_len meta))) payload in
      bind_r (guard (\<not> (mt_v2_integrity meta \<and> blob_crc \<noteq> mt_payload_checksum meta))
        (Corrupt ''data blob integrity checksum mismatch'')) (\<lambda>_.
      all_ok (\<lambda>r. guard (case payload_checksum_algorithm r of
            AlgNone \<Rightarrow> True
          | Fnv1a32 \<Rightarrow> checksum32_continue 0x811C9DC5 payload = payload_checksum r
          | Crc32c \<Rightarrow> integrity32_continue E 0 payload = payload_checksum r)
          (Corrupt ''payload checksum mismatch during recovery'')) records))"

definition validate_active_blob_payload ::
  "externs \<Rightarrow> layout_file \<Rightarrow> DataBlobMeta \<Rightarrow> BlkMapRecord list \<Rightarrow> ('z data_store_scheme, StorageError, unit) stm" where
  "validate_active_blob_payload E f meta records =
     (if mt_codec meta \<noteq> CodecNone then
        bind_s (lift_s (guard (unat (mt_stored_len meta) \<le> 16 * 1024 * 1024)
          (Corrupt ''compressed active blob exceeds decode limit''))) (\<lambda>_.
        bind_s (load_blob_by_id E f (mt_blob_id meta)) (\<lambda>blob.
        bind_s (lift_s (decompress_payload E (db_codec blob) (db_bytes blob) (unat (mt_logical_len meta)))) (\<lambda>payload.
        lift_s (all_ok (\<lambda>r. verify_logical_payload_checksum E (payload_checksum_algorithm r) (payload_checksum r) payload)
          records))))
      else
        bind_s (lift_s (guard (mt_stored_len meta = mt_logical_len meta)
          (Corrupt ''raw active blob length mismatch''))) (\<lambda>_.
        bind_s (file_stamp f) (\<lambda>buf.
        bind_s (lift_s (read_exact_at buf (unat (mt_payload_offset meta)) (unat (mt_stored_len meta)))) (\<lambda>payload.
        lift_s (validate_raw_payload E meta records payload)))))"

primrec validate_scanned_blobs ::
  "externs \<Rightarrow> layout_file \<Rightarrow> BlkMapRecord list \<Rightarrow> DataBlobMeta list \<Rightarrow> u64 set \<Rightarrow> ('z data_store_scheme, StorageError, u64 set) stm" where
  "validate_scanned_blobs E f records [] found = ret_s found"
| "validate_scanned_blobs E f records (meta # rest) found =
     (let here = filter (\<lambda>r. physical_offset r = mt_blob_id meta) records in
      if here = [] then validate_scanned_blobs E f records rest found
      else
        bind_s (lift_s (all_ok (\<lambda>r. guard (logical_len r = mt_logical_len meta \<and> compression r = mt_codec meta \<and>
            compressed_len r = mt_stored_len meta) (Corrupt ''active map and data blob metadata disagree'')) here)) (\<lambda>_.
        bind_s (validate_active_blob_payload E f meta here) (\<lambda>_.
        validate_scanned_blobs E f records rest (insert (mt_blob_id meta) found))))"

definition MAX_RECOVERY_HEADERS :: nat where "MAX_RECOVERY_HEADERS = 65536"

primrec validate_segments_of ::
  "externs \<Rightarrow> (u32 \<times> BlkMapRecord) list \<Rightarrow> nat \<Rightarrow> u32 list \<Rightarrow> ('z data_store_scheme, StorageError, unit) stm" where
  "validate_segments_of E active scanned [] = ret_s ()"
| "validate_segments_of E active scanned (q # qs) =
     (let records = map snd (filter (\<lambda>a. fst a = q) active) in
      bind_s (lift_s (guard (scanned < MAX_RECOVERY_HEADERS) MetadataBudgetExceeded)) (\<lambda>_.
      bind_s (gets_s (\<lambda>s. recovery_segment_path s q)) (\<lambda>f.
      bind_s (scan_segment_blob_headers E f (MAX_RECOVERY_HEADERS - scanned)) (\<lambda>scan.
      bind_s (lift_s (guard (scan_complete scan) MetadataBudgetExceeded)) (\<lambda>_.
      bind_s (validate_scanned_blobs E f records (scan_blobs scan) {}) (\<lambda>found.
      bind_s (lift_s (guard (card found = card (physical_offset ` set records))
        (Corrupt ''active block map references a missing data blob''))) (\<lambda>_.
      validate_segments_of E active (scanned + length (scan_blobs scan)) qs)))))))"

definition active_segments :: "'z layout_files_scheme \<Rightarrow> BlkMapRecord list \<Rightarrow> (StorageError, (u32 \<times> BlkMapRecord) list) result" where
  "active_segments s rs =
     traverse (\<lambda>r.
       bind_r (ok_or (try_from_nat (unat (physical_segment_id r))) (Corrupt ''active physical segment ID exceeds u32'')) (\<lambda>raw.
       bind_r (resolve_active_segment_seq s raw) (\<lambda>q. Ok (q, r)))) (filter is_active rs)"

definition validate_active_blob_references_for_recovery :: "externs \<Rightarrow> ('z data_store_scheme, StorageError, unit) stm" where
  "validate_active_blob_references_for_recovery E =
     bind_s (load_blk_map_records E) (\<lambda>(_, rs) s.
     bind_s (lift_s (active_segments s rs)) (\<lambda>active.
     validate_segments_of E active 0
       (map ucast (hash_order E (remdups (map (\<lambda>a. ucast (fst a)) active))))) s)"

section \<open>Preparation\<close>

definition preflight_filemarks_record_limit :: "('z layout_files_scheme, StorageError, unit) stm" where
  "preflight_filemarks_record_limit s =
     (case files s Filemarks_File of
        None \<Rightarrow> (Ok (), s)
      | Some buf \<Rightarrow>
          (bind_r (guard (8 \<le> length buf) (Corrupt ''filemarks state too short'')) (\<lambda>_.
           let n = unat (from_le_bytes (slice 0 8 buf) :: u64) in
           bind_r (guard (n \<le> MAX_MAINTENANCE_METADATA_RECORDS) MetadataBudgetExceeded) (\<lambda>_.
           guard (length buf = 8 + n * 8) (Corrupt ''filemarks state length mismatch''))), s))"

definition preflight_dirty_metadata_records :: "externs \<Rightarrow> ('z data_store_scheme, StorageError, unit) stm" where
  "preflight_dirty_metadata_records E =
     bind_s (load_segment_index E) (\<lambda>_.
     bind_s (load_blk_map_records E) (\<lambda>_.
     bind_s (load_lookup_records E) (\<lambda>_.
     bind_s (load_reclaim_candidates E) (\<lambda>_.
     bind_s (load_dedup_index E) (\<lambda>_.
     preflight_filemarks_record_limit)))))"

text \<open>
  The temporary files that are removed by name.  A segment file is replaced
  through its name with the extension \<^verbatim>\<open>tmp\<close>, the counters through
  \<^verbatim>\<open>usage.counters.tmp\<close>; the filemarks are replaced through
  \<^verbatim>\<open>filemarks.state.tmp\<close>, which is not the \<^verbatim>\<open>filemarks.tmp\<close> of the list.
\<close>

definition is_known_temporary :: "layout_file \<Rightarrow> bool" where
  "is_known_temporary f \<longleftrightarrow>
     (case f of
        Tmp g \<Rightarrow> g \<in> {Metadata_File, Blk_Map_File, Lookup_File, Reclaim_File, Dedup_File, Segment_Index_File,
                      Usage_Counters_File} \<or>
                 (case g of Data_Segment q \<Rightarrow> length (zero_padded 6 (unat q)) = 6 | _ \<Rightarrow> False)
      | _ \<Rightarrow> False)"

definition cleanup_known_layout_temporary_files :: "('z layout_files_scheme, StorageError, unit) stm" where
  "cleanup_known_layout_temporary_files =
     modify_s (files_update (\<lambda>m f. if is_known_temporary f then None else m f))"

section \<open>Rebuilding the segment index\<close>

definition indexed_segments :: "'z layout_files_scheme \<Rightarrow> u32 set" where
  "indexed_segments s = {q. files s (Data_Segment q) \<noteq> None \<and> is_indexed_data_segment (Data_Segment q)}"

definition highest_indexed_data_segment :: "'z layout_files_scheme \<Rightarrow> u32 option" where
  "highest_indexed_data_segment s = (if indexed_segments s = {} then None else Some (Max (indexed_segments s)))"

definition descriptor_of_blobs :: "u32 \<Rightarrow> SegmentState \<Rightarrow> u64 \<Rightarrow> DataBlobMeta list \<Rightarrow> SegmentDescriptor" where
  "descriptor_of_blobs q st plen blobs =
     \<lparr>segment_seq = q, payload_bytes = plen,
      first_blob_id = (case map mt_blob_id blobs of [] \<Rightarrow> 0 | i # js \<Rightarrow> foldl min i js),
      last_blob_id = foldl max 0 (map mt_blob_id blobs), sd_state = st,
      sd_compression = (case find (\<lambda>c. c \<noteq> CodecNone) (rev (map mt_codec blobs)) of Some c \<Rightarrow> c | None \<Rightarrow> CodecNone),
      live_bytes = foldl saturating_add 0 (map mt_stored_len blobs)\<rparr>"

definition rebuild_segment_descriptor ::
  "externs \<Rightarrow> u32 \<Rightarrow> SegmentState \<Rightarrow> ('z data_store_scheme, StorageError, SegmentDescriptor) stm" where
  "rebuild_segment_descriptor E q st =
     bind_s (read_segment_header E (Data_Segment q) KData) (\<lambda>h.
     bind_s (if payload_len h = 0 then ret_s []
             else bind_s (file_stamp (Data_Segment q)) (\<lambda>buf.
               bind_s (lift_s (scan_data_index buf (version h) (payload_len h))) (\<lambda>(blobs, _). ret_s blobs))) (\<lambda>blobs.
     ret_s (descriptor_of_blobs q st (payload_len h) blobs)))"

primrec rebuild_descriptors ::
  "externs \<Rightarrow> u32 \<Rightarrow> u32 list \<Rightarrow> ('z data_store_scheme, StorageError, SegmentDescriptor list) stm" where
  "rebuild_descriptors E active [] = ret_s []"
| "rebuild_descriptors E active (q # qs) =
     bind_s (rebuild_segment_descriptor E q (if q = active then SegActive else SegSealed)) (\<lambda>d.
     bind_s (rebuild_descriptors E active qs) (\<lambda>ds. ret_s (d # ds)))"

definition raise_active_blob :: "u64 \<Rightarrow> SegmentIndex \<Rightarrow> SegmentIndex" where
  "raise_active_blob high idx =
     idx\<lparr>descriptors := update_first is_seg_active (\<lambda>d. d\<lparr>last_blob_id := max (last_blob_id d) high\<rparr>) (descriptors idx)\<rparr>"

definition rebuild_index_of ::
  "externs \<Rightarrow> u32 \<Rightarrow> u32 list \<Rightarrow> ('z data_store_scheme, StorageError, SegmentIndex) stm" where
  "rebuild_index_of E max_size used s =
     (let highest = highest_indexed_data_segment s in
      if used = [] then
        bind_s (write_segment_file E (Data_Segment 0) KData 1 0 []) (\<lambda>_.
        bind_s (set_data_cache (Data_Segment 0) None) (\<lambda>_.
        ret_s \<lparr>max_segment_size = max_size, descriptors = [descriptor_of_blobs 0 SegActive 0 []],
               next_segment_seq = max 1 (saturating_add (case highest of Some q \<Rightarrow> ucast q | None \<Rightarrow> 0) 1)\<rparr>)) s
      else
        let active = last used in
        bind_s (rebuild_descriptors E active used) (\<lambda>ds.
        ret_s \<lparr>max_segment_size = max_size, descriptors = ds,
               next_segment_seq = ucast (saturating_add (max (case highest of Some q \<Rightarrow> q | None \<Rightarrow> active) active) 1)\<rparr>) s)"

definition rebuild_segment_index_from_blk_map :: "externs \<Rightarrow> ('z data_store_scheme, StorageError, unit) stm" where
  "rebuild_segment_index_from_blk_map E s0 =
     (let (loaded, s1) = load_segment_index E s0;
          max_size = (case loaded of Inr idx \<Rightarrow> max_segment_size idx | Inl _ \<Rightarrow> configured_max_segment_size E) in
      bind_s (load_blk_map_records E) (\<lambda>(_, rs).
      bind_s (lift_s (traverse (\<lambda>r. ok_or (try_from_nat (unat (physical_segment_id r)))
        (Corrupt ''physical segment id exceeds u32'')) (filter is_active rs))) (\<lambda>segs.
      bind_s (rebuild_index_of E max_size (sort (remdups segs))) (\<lambda>idx0.
      let idx = raise_active_blob (foldl max 0 (map physical_offset rs)) idx0 in
      bind_s (persist_segment_index E idx) (\<lambda>_.
      store_segment_index_clean idx)))) s1)"

section \<open>Recovery\<close>

definition collect_active_dedup_entries :: "externs \<Rightarrow> ('z blk_store_scheme, StorageError, u64 list) stm" where
  "collect_active_dedup_entries E =
     bind_s (load_blk_map_records E) (\<lambda>(_, rs).
     ret_s (map dedup_entry_id (filter (\<lambda>r. is_active r \<and> 0 < dedup_entry_id r) rs)))"

definition preflight_layout :: "('z layout_files_scheme, StorageError, unit) stm" where
  "preflight_layout s =
     (preflight_maintenance_metadata (\<lambda>f. map_option (\<lambda>buf. of_nat (length buf)) (files s f))
        [Metadata_File, Blk_Map_File, Lookup_File, Reclaim_File, Dedup_File, Segment_Index_File,
         Filemarks_File, Usage_Counters_File], s)"

text \<open>An unreadable checkpoint page is moved out of the layout.\<close>

definition load_checkpoint_or_quarantine :: "externs \<Rightarrow> ('z data_store_scheme, StorageError, MetadataCheckpoint) stm" where
  "load_checkpoint_or_quarantine E s =
     (case load_checkpoint_cached E s of
        (Inl (Corrupt e), s') \<Rightarrow>
          bind_s invalidate_checkpoint_cache (\<lambda>_.
          bind_s (remove_file Metadata_File) (\<lambda>_. err_s (Corrupt e))) s'
      | other \<Rightarrow> other)"

definition repair_layout :: "externs \<Rightarrow> MetadataCheckpoint \<Rightarrow> ('z data_store_scheme, StorageError, RecoveryReport) stm" where
  "repair_layout E c =
     bind_s cleanup_known_layout_temporary_files (\<lambda>_.
     bind_s (rebuild_lookup_from_blk_map E) (\<lambda>lookups.
     bind_s (rebuild_segment_index_from_blk_map E) (\<lambda>_.
     bind_s (collect_active_dedup_entries E) (\<lambda>referenced.
     bind_s (rebuild_ref_counts E referenced) (\<lambda>repaired.
     bind_s (refresh_reclaim_safety E) (\<lambda>updates.
     bind_s (persist_checkpoint_cached E (next_epoch Clean c)) (\<lambda>_.
     ret_s \<lparr>dirty_detected = True, rebuilt_lookup_entries = lookups, dedup_refcount_repaired = repaired,
            reclaim_updates = updates, rec_checkpoint_epoch = epoch (next_epoch Clean c)\<rparr>)))))))"

definition recover_dirty_state :: "externs \<Rightarrow> ('z data_store_scheme, StorageError, RecoveryReport) stm" where
  "recover_dirty_state E =
     bind_s preflight_layout (\<lambda>_.
     bind_s (load_checkpoint_or_quarantine E) (\<lambda>c.
     if flags c = Clean
     then ret_s \<lparr>dirty_detected = False, rebuilt_lookup_entries = 0, dedup_refcount_repaired = 0,
                 reclaim_updates = 0, rec_checkpoint_epoch = epoch c\<rparr>
     else
       bind_s (preflight_dirty_metadata_records E) (\<lambda>_.
       bind_s (validate_active_blob_references_for_recovery E) (\<lambda>_.
       repair_layout E c))))"

section \<open>Operations that only read\<close>

named_theorems reads_only_rules

definition reads_only :: "('z layout_files_scheme, 'e, 'a) stm \<Rightarrow> bool" where
  "reads_only op \<longleftrightarrow> (\<forall>s. files (snd (op s)) = files s)"

lemma reads_onlyI: "(\<And>s. files (snd (op s)) = files s) \<Longrightarrow> reads_only op"
  by (simp add: reads_only_def)

lemma reads_onlyD: "reads_only op \<Longrightarrow> op s = (r, s') \<Longrightarrow> files s' = files s"
  by (metis reads_only_def snd_conv)

lemma reads_only_bind [reads_only_rules]:
  assumes "reads_only op" "\<And>a. reads_only (f a)"
  shows "reads_only (bind_s op f)"
proof (rule reads_onlyI)
  fix s
  show "files (snd (bind_s op f s)) = files s"
    using assms by (cases "op s") (auto simp: bind_s_def reads_only_def split: sum.splits, metis snd_conv, metis snd_conv)
qed

lemma reads_only_simple [reads_only_rules]:
  "reads_only (lift_s r)" "reads_only (ret_s a)" "reads_only (err_s e)" "reads_only (gets_s g)"
  "reads_only (\<lambda>s. (h s, s))"
  by (simp_all add: reads_only_def)

lemma reads_only_split [reads_only_rules]:
  "(\<And>a b. reads_only (f a b)) \<Longrightarrow> reads_only (case x of (a, b) \<Rightarrow> f a b)"
  "(P \<Longrightarrow> reads_only op) \<Longrightarrow> (\<not> P \<Longrightarrow> reads_only op') \<Longrightarrow> reads_only (if P then op else op')"
  "(\<And>s. Q s \<Longrightarrow> files (snd (op s)) = files s) \<Longrightarrow> (\<And>s. \<not> Q s \<Longrightarrow> files (snd (op' s)) = files s) \<Longrightarrow>
     reads_only (\<lambda>s. if Q s then op s else op' s)"
  by (cases x) (auto simp: reads_only_def)

lemma reads_only_cache [reads_only_rules]:
  "reads_only (set_blk_cache c)" "reads_only (set_lookup_cache lc)" "reads_only (set_dedup_cache dc)"
  "reads_only (set_data_cache f cc)" "reads_only (set_checkpoint_cache pc)"
  "reads_only blk_cache_entry" "reads_only lk_cache_entry" "reads_only dd_cache_entry" "reads_only (data_cache_entry f)"
  "reads_only (file_stamp f)" "reads_only blk_file_stamp" "reads_only lk_file_stamp" "reads_only dd_file_stamp"
  "reads_only (read_segment_file_bounded E f k n)" "reads_only (read_segment_header E f k)"
  by (auto simp: reads_only_def set_blk_cache_def set_lookup_cache_def set_dedup_cache_def set_data_cache_def
      set_checkpoint_cache_def blk_cache_entry_def lk_cache_entry_def dd_cache_entry_def data_cache_entry_def
      file_stamp_def blk_file_stamp_def lk_file_stamp_def dd_file_stamp_def read_segment_file_bounded_def
      read_segment_header_def split: option.splits)

lemma reads_only_at: "reads_only op \<Longrightarrow> files (snd (op s)) = files s"
  by (simp add: reads_only_def)

lemma reads_only_fresh:
  assumes "reads_only op"
  shows "reads_only (\<lambda>s. if P s then (r, s) else op s)"
  by (rule reads_onlyI) (simp add: reads_only_at [OF assms])

lemma reads_only_loads [reads_only_rules]:
  "reads_only (load_blk_map_records E)" "reads_only (load_lookup_records E)" "reads_only (load_dedup_index E)"
  "reads_only (load_segment_index E)" "reads_only (load_reclaim_candidates E)" "reads_only preflight_filemarks_record_limit"
proof -
  have "reads_only (blk_ensure_cache_fresh E)" unfolding blk_ensure_cache_fresh_def [abs_def] blk_reload_def
    by (intro reads_only_fresh reads_only_bind reads_only_split(1) reads_only_simple reads_only_cache)
  then show "reads_only (load_blk_map_records E)" unfolding load_blk_map_records_def by (intro reads_only_rules)
  have "reads_only (lk_ensure_cache_fresh E)" unfolding lk_ensure_cache_fresh_def [abs_def]
    by (intro reads_only_fresh reads_only_bind reads_only_split(1) reads_only_simple reads_only_cache)
  then show "reads_only (load_lookup_records E)" unfolding load_lookup_records_def by (intro reads_only_rules)
  have "reads_only (dd_ensure_cache_fresh E)" unfolding dd_ensure_cache_fresh_def [abs_def]
    by (intro reads_only_fresh reads_only_bind reads_only_split(1) reads_only_simple reads_only_cache)
  then show "reads_only (load_dedup_index E)" unfolding load_dedup_index_def by (intro reads_only_rules)
  show "reads_only (load_segment_index E)" unfolding load_segment_index_def by (intro reads_only_rules)
  show "reads_only (load_reclaim_candidates E)" unfolding load_reclaim_candidates_def by (intro reads_only_rules)
  show "reads_only preflight_filemarks_record_limit"
    by (auto simp: reads_only_def preflight_filemarks_record_limit_def split: option.splits)
qed

lemma reads_only_blob [reads_only_rules]: "reads_only (load_blob_by_id E f i)"
proof -
  have "reads_only (ensure_data_cache_fresh E f)" unfolding ensure_data_cache_fresh_def [abs_def]
    by (intro reads_only_fresh reads_only_bind reads_only_split(1,2) reads_only_simple reads_only_cache)
  then show ?thesis unfolding load_blob_by_id_def by (intro reads_only_rules)
qed

lemma reads_only_scan [reads_only_rules]: "reads_only (scan_segment_blob_headers E f n)"
proof (rule reads_onlyI)
  fix s
  show "files (snd (scan_segment_blob_headers E f n s)) = files s"
  proof (cases "files s f")
    case (Some buf)
    show ?thesis unfolding scan_segment_blob_headers_def Some option.case Let_def
      by (intro reads_only_at reads_only_rules)
  qed (simp add: scan_segment_blob_headers_def)
qed

lemma reads_only_validate [reads_only_rules]:
  "reads_only (validate_active_blob_payload E f meta rs)"
  "reads_only (validate_scanned_blobs E f rs blobs found)"
  "reads_only (validate_segments_of E active n qs)"
proof -
  show p: "reads_only (validate_active_blob_payload E f meta rs)" for f meta rs
    unfolding validate_active_blob_payload_def by (intro reads_only_rules)
  show b: "reads_only (validate_scanned_blobs E f rs blobs found)" for f rs blobs found
    by (induction blobs arbitrary: found) (auto simp: Let_def intro!: reads_only_rules p)
  show "reads_only (validate_segments_of E active n qs)"
    by (induction qs arbitrary: n) (auto simp: Let_def intro!: reads_only_rules b)
qed

section \<open>What a successful check means\<close>

text \<open>
  An active record was checked: its segment was scanned and has a blob with
  the identifier, lengths and codec of the record whose payload was verified.
\<close>

definition blob_checked :: "externs \<Rightarrow> 'z data_store_scheme \<Rightarrow> layout_file \<Rightarrow> BlkMapRecord list \<Rightarrow> DataBlobMeta \<Rightarrow> BlkMapRecord \<Rightarrow> bool" where
  "blob_checked E s f rs meta r \<longleftrightarrow>
     r \<in> set rs \<and> mt_blob_id meta = physical_offset r \<and> mt_logical_len meta = logical_len r \<and>
     mt_codec meta = compression r \<and> mt_stored_len meta = compressed_len r \<and>
     (\<exists>s1 :: 'z data_store_scheme. files s1 = files s \<and> fst (validate_active_blob_payload E f meta rs s1) = Ok ())"

definition record_checked :: "externs \<Rightarrow> 'z data_store_scheme \<Rightarrow> BlkMapRecord \<Rightarrow> bool" where
  "record_checked E s r \<longleftrightarrow>
     (\<exists>q n scan rs meta. resolve_active_segment_seq s (ucast (physical_segment_id r)) = Ok q \<and>
        fst (scan_segment_blob_headers E (recovery_segment_path s q) n s) = Ok scan \<and> scan_complete scan \<and>
        meta \<in> set (scan_blobs scan) \<and> blob_checked E s (recovery_segment_path s q) rs meta r)"

lemma all_ok_Ok: "all_ok f xs = Ok () \<longleftrightarrow> (\<forall>x\<in>set xs. f x = Ok ())"
  by (induction xs) (auto simp: all_ok_def split: sum.splits)

lemma guard_Ok_iff: "guard P e = Ok () \<longleftrightarrow> P"
  by (simp add: guard_def)

lemma scanned_checked:
  assumes "validate_scanned_blobs E f rs blobs found s = (Ok found', s')" "i \<in> found'" "i \<notin> found"
  shows "\<exists>meta\<in>set blobs. mt_blob_id meta = i \<and>
    (\<forall>r\<in>set rs. physical_offset r = i \<longrightarrow>
       (\<exists>rs'. set rs' \<subseteq> set rs \<and> blob_checked E s f rs' meta r))"
  using assms
proof (induction blobs arbitrary: found s)
  case (Cons meta blobs)
  let ?here = "filter (\<lambda>r. physical_offset r = mt_blob_id meta) rs"
  show ?case
  proof (cases "?here = []")
    case True
    then show ?thesis using Cons by (auto simp: Let_def)
  next
    case False
    then obtain s1 where s1: "all_ok (\<lambda>r. guard (logical_len r = mt_logical_len meta \<and> compression r = mt_codec meta \<and>
        compressed_len r = mt_stored_len meta) (Corrupt ''active map and data blob metadata disagree'')) ?here = Ok ()"
      "validate_active_blob_payload E f meta ?here s = (Ok (), s1)"
      "validate_scanned_blobs E f rs blobs (insert (mt_blob_id meta) found) s1 = (Ok found', s')"
      using Cons.prems(1) by (auto simp: Let_def bind_s_Ok)
    have fs: "files s1 = files s" using reads_onlyD [OF reads_only_validate(1) s1(2)] .
    show ?thesis
    proof (cases "i = mt_blob_id meta")
      case True
      have "blob_checked E s f ?here meta r" if "r \<in> set rs" "physical_offset r = i" for r
        unfolding blob_checked_def using that True s1(1,2) by (auto simp: all_ok_Ok guard_Ok_iff intro!: exI [of _ s])
      then show ?thesis using True by (intro bexI [of _ meta]) (auto intro!: exI [of _ ?here])
    next
      case False
      then have "i \<notin> insert (mt_blob_id meta) found" using Cons.prems(3) by simp
      from Cons.IH [OF s1(3) Cons.prems(2) this] show ?thesis
        using fs by (auto simp: blob_checked_def)
    qed
  qed
qed simp

lemma scanned_found:
  assumes "validate_scanned_blobs E f rs blobs found s = (Ok found', s')"
  shows "found' \<subseteq> found \<union> physical_offset ` set rs"
  using assms
proof (induction blobs arbitrary: found s)
  case (Cons meta blobs)
  let ?here = "filter (\<lambda>r. physical_offset r = mt_blob_id meta) rs"
  show ?case
  proof (cases "?here = []")
    case True
    then show ?thesis using Cons by (simp add: Let_def)
  next
    case False
    then have "mt_blob_id meta \<in> physical_offset ` set rs" by (force simp: filter_empty_conv)
    moreover obtain s1 where "validate_scanned_blobs E f rs blobs (insert (mt_blob_id meta) found) s1 = (Ok found', s')"
      using Cons.prems False by (auto simp: Let_def bind_s_Ok)
    ultimately show ?thesis using Cons.IH by blast
  qed
qed simp

lemma scan_by_files:
  assumes "files s = files s'"
  shows "fst (scan_segment_blob_headers E f n s) = fst (scan_segment_blob_headers E f n s')"
proof (cases "files s' f")
  case (Some buf)
  have "fst (read_segment_header E f KData s) = fst (read_segment_header E f KData s')"
    "snd (read_segment_header E f KData s) = s" "snd (read_segment_header E f KData s') = s'"
    using assms Some by (simp_all add: read_segment_header_def)
  then show ?thesis using assms Some
    by (cases "read_segment_header E f KData s"; cases "read_segment_header E f KData s'")
      (auto simp: scan_segment_blob_headers_def bind_s_def Let_def split: sum.splits)
qed (use assms in \<open>simp add: scan_segment_blob_headers_def\<close>)

lemma resolve_by_files:
  assumes "files s = files s'"
  shows "resolve_active_segment_seq s = resolve_active_segment_seq s'" "recovery_segment_path s = recovery_segment_path s'"
  by (rule ext, simp only: resolve_active_segment_seq_def recovery_segment_path_def assms)+

lemma record_checked_by_files:
  fixes s s' :: "'z data_store_scheme"
  assumes "files s = files s'" "record_checked E s r"
  shows "record_checked E s' r"
  using assms(2) unfolding record_checked_def blob_checked_def resolve_by_files [OF assms(1)] assms(1)
    scan_by_files [OF assms(1)] .

lemma segments_checked:
  assumes "validate_segments_of E active n qs s = (Ok (), s')" "(q, r) \<in> set active" "q \<in> set qs"
    "resolve_active_segment_seq s (ucast (physical_segment_id r)) = Ok q"
  shows "record_checked E s r"
  using assms(1,3,4)
proof (induction qs arbitrary: n s)
  case (Cons q' qs)
  let ?rs = "map snd (filter (\<lambda>a. fst a = q') active)" and ?f = "recovery_segment_path s q'"
  obtain scan s1 found s2 where s2: "scan_segment_blob_headers E ?f (MAX_RECOVERY_HEADERS - n) s = (Ok scan, s1)"
    "scan_complete scan" "validate_scanned_blobs E ?f ?rs (scan_blobs scan) {} s1 = (Ok found, s2)"
    "card found = card (physical_offset ` set ?rs)"
    "validate_segments_of E active (n + length (scan_blobs scan)) qs s2 = (Ok (), s')"
    using Cons.prems(1) by (auto simp: Let_def bind_s_Ok guard_Ok_iff)
  have fs: "files s1 = files s" "files s2 = files s"
    using reads_onlyD [OF reads_only_scan s2(1)] reads_onlyD [OF reads_only_validate(2) s2(3)] by simp_all
  show ?case
  proof (cases "q = q'")
    case True
    have "found \<subseteq> physical_offset ` set ?rs" using scanned_found [OF s2(3)] by simp
    then have "found = physical_offset ` set ?rs" using s2(4) by (simp add: card_subset_eq)
    moreover have r: "r \<in> set ?rs" using assms(2) True by force
    ultimately have "physical_offset r \<in> found" by blast
    then obtain meta rs' where "meta \<in> set (scan_blobs scan)" "blob_checked E s1 ?f rs' meta r"
      using scanned_checked [OF s2(3), of "physical_offset r"] r by blast
    moreover have "blob_checked E s ?f rs' meta r" using calculation(2) fs(1) by (simp add: blob_checked_def)
    ultimately show ?thesis unfolding record_checked_def using Cons.prems(3) True s2(1,2) by (metis fst_conv)
  next
    case False
    have "resolve_active_segment_seq s2 (ucast (physical_segment_id r)) = Ok q"
      using Cons.prems(3) resolve_by_files(1) [OF fs(2)] by simp
    then have "record_checked E s2 r" using Cons.IH [OF s2(5)] Cons.prems(2) False by simp
    then show ?thesis using record_checked_by_files [OF fs(2)] by blast
  qed
qed simp

definition references_checked :: "externs \<Rightarrow> 'z data_store_scheme \<Rightarrow> bool" where
  "references_checked E s \<longleftrightarrow>
     (\<exists>(s1 :: 'z data_store_scheme) sq rs. files s1 = files s \<and> fst (load_blk_map_records E s1) = Ok (sq, rs) \<and>
        (\<forall>r\<in>set rs. is_active r \<longrightarrow> record_checked E s r))"

lemma traverse_Ok_in:
  "traverse f xs = Ok ys \<Longrightarrow> x \<in> set xs \<Longrightarrow> \<exists>y. f x = Ok y \<and> y \<in> set ys"
  by (induction xs arbitrary: ys) (auto split: sum.splits)

lemma validate_references_checked:
  assumes E: "hash_order_ok E" and ok: "validate_active_blob_references_for_recovery E s = (Ok (), s')"
  shows "references_checked E s"
proof -
  obtain sq rs s1 active where l: "load_blk_map_records E s = (Ok (sq, rs), s1)" "active_segments s1 rs = Ok active"
    and v: "validate_segments_of E active 0
       (map ucast (hash_order E (remdups (map (\<lambda>a. ucast (fst a)) active)))) s1 = (Ok (), s')"
    using ok by (auto simp: validate_active_blob_references_for_recovery_def bind_s_Ok)
  have fs: "files s1 = files s" using reads_onlyD [OF reads_only_loads(1) l(1)] .
  let ?qs = "map ucast (hash_order E (remdups (map (\<lambda>a. ucast (fst a)) active))) :: u32 list"
  have perm: "set (hash_order E xs) = set xs" for xs using E unfolding hash_order_ok_def by (metis set_mset_mset)
  have id: "(ucast (ucast a :: u64) :: u32) = a" for a by (rule bit_word_eqI) (simp add: bit_simps)
  have segs: "set ?qs = fst ` set active" by (simp add: perm image_image id)
  have "record_checked E s r" if r: "r \<in> set rs" "is_active r" for r
  proof -
    let ?g = "\<lambda>r. bind_r (ok_or (try_from_nat (unat (physical_segment_id r))) (Corrupt ''active physical segment ID exceeds u32'')) (\<lambda>raw.
       bind_r (resolve_active_segment_seq s1 raw) (\<lambda>q. Ok (q, r)))"
    obtain y where y: "?g r = Ok y" "y \<in> set active"
      using traverse_Ok_in [of ?g "filter is_active rs" active r] l(2) r by (auto simp: active_segments_def)
    then obtain raw q where q: "try_from_nat (unat (physical_segment_id r)) = Some (raw :: u32)"
      "resolve_active_segment_seq s1 raw = Ok q" "y = (q, r)" by auto
    have "raw = ucast (physical_segment_id r)"
      using q(1) by (auto simp: try_from_nat_def split: if_splits)
    then have "record_checked E s1 r" using segments_checked [OF v, of q r] y(2) q(2,3) segs by force
    then show ?thesis using record_checked_by_files [OF fs] by blast
  qed
  then show ?thesis using l(1) unfolding references_checked_def by (metis fst_conv)
qed

lemma references_checked_by_files:
  fixes s s' :: "'z data_store_scheme"
  assumes "files s = files s'" "references_checked E s"
  shows "references_checked E s'"
  using assms(2) record_checked_by_files [OF assms(1)] unfolding references_checked_def assms(1) by blast

lemma reads_only_preparation:
  "reads_only (preflight_dirty_metadata_records E :: ('c data_store_scheme, StorageError, unit) stm)"
  "reads_only (validate_active_blob_references_for_recovery E :: ('c data_store_scheme, StorageError, unit) stm)"
proof -
  show "reads_only (preflight_dirty_metadata_records E :: ('c data_store_scheme, StorageError, unit) stm)"
    unfolding preflight_dirty_metadata_records_def by (intro reads_only_rules)
  show "reads_only (validate_active_blob_references_for_recovery E :: ('c data_store_scheme, StorageError, unit) stm)"
  proof (rule reads_onlyI)
    fix s :: "'c data_store_scheme"
    obtain r s1 where l: "load_blk_map_records E s = (r, s1)" by fastforce
    have "files (snd (bind_s (lift_s (active_segments s1 rs)) (\<lambda>active. validate_segments_of E active 0
        (map ucast (hash_order E (remdups (map (\<lambda>a. ucast (fst a)) active))))) s1)) = files s1" for rs
      by (intro reads_only_at reads_only_rules)
    then show "files (snd (validate_active_blob_references_for_recovery E s)) = files s"
      using l reads_onlyD [OF reads_only_loads(1) l]
      by (auto simp: validate_active_blob_references_for_recovery_def bind_s_def [of "load_blk_map_records E"] split: sum.splits)
  qed
qed



end
