(* ===== verification/Mount_Bridge.thy ===== *)
theory Mount_Bridge
  imports Command_Chain Recovery
begin

text \<open>
  Loading a cartridge into the drive and taking it out
  (\<^verbatim>\<open>media/mount_bridge.rs\<close>, \<^verbatim>\<open>load_media\<close> and \<^verbatim>\<open>unload_media\<close>): the storage
  root of the cartridge, the lease on its layout, bringing the layout up,
  recovery, and the drive state rebuilt from the block map and the state
  files.
\<close>

section \<open>Where a cartridge is stored\<close>

text \<open>
  What a mount asks of the operating system: the default storage root, the
  base of the pools, the text of the metadata file of the cartridge, the
  directories of the pool, the lock of the lease and whether the pool root is
  still the one that was locked.
\<close>

datatype LayoutLeaseError = LeaseBusy | InvalidIdentity | IdentityConflict | LeaseIo io_error

record mount_env =
  storage_root_dir :: path
  pool_root_base :: "path option"
  cartridge_meta :: "string \<Rightarrow> string option"
  mount_pool :: pool
  lease_lock :: "(LayoutLeaseError, unit) result"
  verify_pool_root :: "(LayoutLeaseError, unit) result"

definition storage_error_from_lease :: "LayoutLeaseError \<Rightarrow> StorageError" where
  "storage_error_from_lease e =
     (case e of
        LeaseBusy \<Rightarrow> Conflict ''layout is busy''
      | InvalidIdentity \<Rightarrow> Conflict ''invalid cartridge layout identity''
      | IdentityConflict \<Rightarrow> Conflict ''identity_conflict''
      | LeaseIo io \<Rightarrow> Io io)"

fun has_dot_dot :: "string \<Rightarrow> bool" where
  "has_dot_dot (c # d # cs) = (c = CHR ''.'' \<and> d = CHR ''.'' \<or> has_dot_dot (d # cs))"
| "has_dot_dot _ = False"

definition valid_management_id :: "string \<Rightarrow> bool" where
  "valid_management_id v \<longleftrightarrow>
     v \<noteq> [] \<and> length v \<le> 128 \<and> is_ascii_alphanumeric (hd v) \<and> \<not> has_dot_dot v \<and>
     list_all (\<lambda>c. is_ascii_alphanumeric c \<or> c \<in> set ''._: -'') v"

definition lease_acquire :: "mount_env \<Rightarrow> string \<Rightarrow> (StorageError, unit) result" where
  "lease_acquire V cartridge =
     map_err storage_error_from_lease
       (if valid_management_id cartridge then lease_lock V else Err InvalidIdentity)"

definition pool_id_of_line :: "string \<Rightarrow> string option" where
  "pool_id_of_line line =
     (case split_once (CHR ''='') (trim line) of
        Some (key, v) \<Rightarrow> if trim key = ''pool_id'' \<and> trim v \<noteq> [] then Some (trim v) else None
      | None \<Rightarrow> None)"

definition resolve_cartridge_storage_root :: "string option \<Rightarrow> path \<Rightarrow> path option \<Rightarrow> path" where
  "resolve_cartridge_storage_root meta fallback base =
     (case meta of
        None \<Rightarrow> fallback
      | Some raw \<Rightarrow>
          (case (List.map_filter pool_id_of_line (text_lines raw), base) of
             (pool_id # _, Some b) \<Rightarrow> b @ [sanitize_id pool_id]
           | _ \<Rightarrow> fallback))"

definition storage_root_dir_for_cartridge :: "mount_env \<Rightarrow> string \<Rightarrow> path" where
  "storage_root_dir_for_cartridge V cartridge =
     resolve_cartridge_storage_root (cartridge_meta V (''cartridge_'' @ sanitize_id cartridge @ ''.meta''))
       (storage_root_dir V) (pool_root_base V)"

definition bootstrap_layout_root :: "mount_env \<Rightarrow> string \<Rightarrow> string \<Rightarrow> string \<Rightarrow> (StorageError, path) result" where
  "bootstrap_layout_root V library drive cartridge =
     (let verify = map_err storage_error_from_lease (verify_pool_root V) in
      bind_r verify (\<lambda>_.
      bind_r (resolve_layout_dir (mount_pool V) (storage_root_dir_for_cartridge V cartridge) library drive cartridge) (\<lambda>root.
      bind_r verify (\<lambda>_. Ok root))))"

section \<open>The drive state from the layout\<close>

definition runtime_filemark_step :: "TapeState \<Rightarrow> u64" where
  "runtime_filemark_step t =
     (if bm_mode (block_mode t) = Fixed \<and> 0 < fixed_block_size (block_mode t)
      then ucast (fixed_block_size (block_mode t)) else 1)"

primrec missing_marks :: "nat \<Rightarrow> u64 \<Rightarrow> u64 \<Rightarrow> u64 list" where
  "missing_marks 0 mark step = []"
| "missing_marks (Suc n) mark step = mark # missing_marks n (saturating_add mark step) step"

text \<open>
  A block map record enters the block index.  While no filemark is known, the
  filemarks the record counts before itself are placed in front of it.
\<close>

definition hydrate_filemarks :: "u64 \<Rightarrow> BlkMapRecord \<Rightarrow> TapeState \<times> u32 \<Rightarrow> TapeState \<times> u32" where
  "hydrate_filemarks step r = (\<lambda>(t, observed).
     let missing = saturating_sub (filemark_count r) observed;
         first = saturating_sub (logical_start r) (saturating_mul (ucast missing) step) in
     if filemarks t = [] \<and> 0 < missing
     then (t\<lparr>filemarks := missing_marks (unat missing) first step\<rparr>, filemark_count r)
     else (t, observed))"

definition hydrate_block :: "BlkMapRecord \<Rightarrow> TapeState \<Rightarrow> TapeState" where
  "hydrate_block r t =
     t\<lparr>block_starts := (if bt_has (logical_start r) (block_lengths t) then block_starts t
                       else block_starts t @ [logical_start r]),
       block_lengths := bt_insert (logical_start r) (logical_len r) (block_lengths t),
       eod_position := max (eod_position t) (logical_end r)\<rparr>"

definition hydrate_record :: "u64 \<Rightarrow> TapeState \<times> u32 \<Rightarrow> BlkMapRecord \<Rightarrow> TapeState \<times> u32" where
  "hydrate_record step st r = apfst (hydrate_block r) (hydrate_filemarks step r st)"

definition hydrate_drive :: "BlkMapRecord list \<Rightarrow> u64 list \<Rightarrow> RetentionRuntimeState option \<Rightarrow> TapeState \<Rightarrow> TapeState" where
  "hydrate_drive rs marks retention t0 =
     (let active = sort_key logical_start (filter is_active rs);
          t1 = t0\<lparr>current_position := 0, eod_position := 0, block_starts := [], block_lengths := [],
                  filemarks := sort marks,
                  retention_policy := (case retention of
                     None \<Rightarrow> retention_policy t0
                   | Some rt \<Rightarrow> \<lparr>is_worm_media = rt_worm_media rt, retention_locked = rt_locked rt\<rparr>)\<rparr>;
          step = runtime_filemark_step t1;
          t2 = fst (foldl (hydrate_record step) (t1, 0) active);
          t3 = (case filemarks t2 of
                  [] \<Rightarrow> t2
                | m # ms \<Rightarrow> t2\<lparr>eod_position := max (eod_position t2) (saturating_add (foldl max m ms) step)\<rparr>) in
      t3\<lparr>block_starts := sort (block_starts t3)\<rparr>)"

definition hydrate_runtime_from_layout :: "externs \<Rightarrow> ('z tape_store_scheme machine, TapeError, unit) stm" where
  "hydrate_runtime_from_layout E m =
     (case active_layout (tape m) of
        None \<Rightarrow> (Ok (), m)
      | Some root \<Rightarrow>
          bind_s (storage root (recover_dirty_state E)) (\<lambda>_.
          bind_s (storage root (load_blk_map_records E)) (\<lambda>(_, rs).
          bind_s (storage root load_filemarks) (\<lambda>marks.
          bind_s (storage root load_retention_state) (\<lambda>retention.
          modify_tape (hydrate_drive rs marks retention))))) m)"

section \<open>Attaching and detaching\<close>

definition layout_library_id :: "externs \<Rightarrow> TapeState \<Rightarrow> string" where
  "layout_library_id E t =
     (case env_var E ''HOLO_LAYOUT_LIBRARY_ID'' of
        Some library \<Rightarrow> if trim library \<noteq> [] then library else drive_id t
      | None \<Rightarrow> drive_id t)"

text \<open>The mount is staged on a copy of the drive state that replaces it on success.\<close>

definition attach_cartridge ::
  "externs \<Rightarrow> mount_env \<Rightarrow> string \<Rightarrow> ('z tape_store_scheme machine, TapeError, unit) stm" where
  "attach_cartridge E V cartridge =
     bind_s (check_tape (\<lambda>t. guard (mount_state t = Empty) InvalidTransition)) (\<lambda>_.
     bind_s (lift_s (map_err Tape_Storage (lease_acquire V cartridge))) (\<lambda>_.
     bind_s (check_tape (\<lambda>t. map_err Tape_Storage
       (bootstrap_layout_root V (layout_library_id E t) (drive_id t) cartridge))) (\<lambda>root.
     bind_s (storage root (initialize_layout E)) (\<lambda>_ m.
     let staged = tape_update (\<lambda>t. t\<lparr>layout_lease := True\<rparr>) (tape_mount cartridge root m) in
     case hydrate_runtime_from_layout E staged of
       (Inr u, m') \<Rightarrow> (Ok u, m')
     | (Inl e, m') \<Rightarrow> (Err e, m'\<lparr>tape := tape m\<rparr>)))))"

definition detach_cartridge :: "externs \<Rightarrow> ('z tape_store_scheme machine, TapeError, unit) stm" where
  "detach_cartridge E =
     bind_s (invalidate_state_read_prefetch E) (\<lambda>_.
     bind_s (\<lambda>m. case active_layout (tape m) of
         None \<Rightarrow> (Ok (), m)
       | Some root \<Rightarrow>
           bind_s (if requires_recovery (tape m) then ret_s ()
                   else bind_s (storage root (flush_pending_writes E)) (\<lambda>_.
                        map_err_s Tape_Storage persist_usage_counters)) (\<lambda>_.
           storage root discard_layout_caches_checked) m) (\<lambda>_.
     modify_s tape_unmount))"

definition load_media ::
  "externs \<Rightarrow> mount_env \<Rightarrow> string \<Rightarrow> ('z tape_store_scheme machine, TapeError, unit) stm" where
  "load_media E V cartridge =
     bind_s (invalidate_state_read_prefetch E) (\<lambda>_. attach_cartridge E V cartridge)"

definition unload_media :: "externs \<Rightarrow> ('z tape_store_scheme machine, TapeError, unit) stm" where
  "unload_media E = detach_cartridge E"

end
