(* ===== verification/Identity.thy ===== *)
theory Identity
  imports Tape_State
begin

text \<open>
  Device identity (\<^verbatim>\<open>scsi_tape/identity.rs\<close>): serial numbers derived from a
  seed, the standard INQUIRY data, the vital product data pages, and the
  element address ranges of a changer.
\<close>

unbundle bit_operations_syntax

section \<open>Seeds and serial numbers\<close>

datatype DeviceType = Changer | Drive

fun peripheral_device_type :: "DeviceType \<Rightarrow> u8" where
  "peripheral_device_type Changer = 0x08"
| "peripheral_device_type Drive = 0x01"

definition stable_seed_hash16 :: "bytes \<Rightarrow> u16" where
  "stable_seed_hash16 input =
     (let acc = foldl (\<lambda>acc b. (acc XOR ucast b) * 16777619) (0x811C9DC5 :: u32) input in
      ucast (drop_bit 16 acc) XOR ucast acc)"

definition hex_digit :: "nat \<Rightarrow> char" where
  "hex_digit d = char_of (if d < 10 then 48 + d else 55 + d)"

definition hex4 :: "u16 \<Rightarrow> string" where
  "hex4 w = map (\<lambda>i. hex_digit (unat w div 16 ^ i mod 16)) [3, 2, 1, 0]"

definition hex2 :: "u8 \<Rightarrow> string" where
  "hex2 w = map (\<lambda>i. hex_digit (unat w div 16 ^ i mod 16)) [1, 0]"

definition serial_char :: "char \<Rightarrow> bool" where
  "serial_char c \<longleftrightarrow> is_ascii_alphanumeric c \<or> c = CHR ''_''"

definition is_ascii_graphic :: "char \<Rightarrow> bool" where
  "is_ascii_graphic c \<longleftrightarrow> 33 \<le> char_code c \<and> char_code c \<le> 126"

definition stable_identity_seed ::
  "DeviceType \<Rightarrow> string \<Rightarrow> string option \<Rightarrow> (TapeError, string) result" where
  "stable_identity_seed device raw_id verified_legacy_seed =
     (let legacy = (case verified_legacy_seed of
                      Some seed \<Rightarrow> if trim seed \<noteq> [] then Some (trim seed) else None
                    | None \<Rightarrow> None);
          stable_id = trim raw_id;
          normalized_id = filter serial_char stable_id in
      case legacy of
        Some seed \<Rightarrow> Ok seed
      | None \<Rightarrow>
          if normalized_id = []
          then Err (InvalidProfile ''stable device identity must contain an ASCII letter or digit'')
          else Ok ((case device of Changer \<Rightarrow> ''CHG_'' | Drive \<Rightarrow> ''DRV_'') @ normalized_id @ ''_'' @
                   hex4 (stable_seed_hash16 (as_bytes stable_id))))"

record DeviceIdentityProfile =
  device_type :: DeviceType
  vendor :: string
  product :: string
  revision :: string
  inquiry_len :: u8
  ansi_version :: u8
  response_data_format :: u8
  protect_flags :: u8
  mchanger_flags :: u8
  linked_flags :: u8
  standard_vendor_prefix :: string
  standard_vendor_include_serial :: bool
  standard_vendor_suffix :: string
  barcode_scanner_vendor_specific_19 :: bool
  serial_prefix :: string
  serial_suffix :: string
  serial_vpd_suffix :: string
  serial_len :: u8
  supported_vpd_pages :: "u8 list"
  custom_vpd_pages :: "(u8, bytes) btree"

definition profile_validate :: "DeviceIdentityProfile \<Rightarrow> (TapeError, unit) result" where
  "profile_validate p =
     bind_r (guard (36 \<le> inquiry_len p) (InvalidProfile ''inquiry_len must be >= 36'')) (\<lambda>_.
     bind_r (guard (serial_len p \<noteq> 0) (InvalidProfile ''serial_len must be > 0'')) (\<lambda>_.
     case find (\<lambda>page. 0xC0 \<le> page \<and> \<not> bt_has page (custom_vpd_pages p)) (supported_vpd_pages p) of
       Some page \<Rightarrow>
         Err (InvalidProfile (''custom VPD page 0x'' @ hex2 page @ '' missing payload''))
     | None \<Rightarrow> Ok ()))"

definition fit_serial :: "nat \<Rightarrow> string \<Rightarrow> string" where
  "fit_serial n raw =
     (let cut = (if length raw > n then
                   if n \<le> 4 then take n raw
                   else take (n - 4) raw @ hex4 (stable_seed_hash16 (as_bytes raw))
                 else raw) in
      cut @ replicate (n - length cut) (CHR ''0''))"

definition serial_for_seed :: "DeviceIdentityProfile \<Rightarrow> string \<Rightarrow> (TapeError, string) result" where
  "serial_for_seed p seed =
     bind_r (profile_validate p) (\<lambda>_.
     Ok (fit_serial (unat (serial_len p))
           (filter serial_char (serial_prefix p @ seed @ serial_suffix p))))"

definition serial_for_vpd_seed :: "DeviceIdentityProfile \<Rightarrow> string \<Rightarrow> (TapeError, string) result" where
  "serial_for_vpd_seed p seed =
     bind_r (serial_for_seed p seed) (\<lambda>base. Ok (base @ filter serial_char (serial_vpd_suffix p)))"

section \<open>INQUIRY\<close>

definition standard_vendor_specific_bytes ::
  "DeviceIdentityProfile \<Rightarrow> string \<Rightarrow> (TapeError, bytes) result" where
  "standard_vendor_specific_bytes p seed =
     bind_r (if standard_vendor_include_serial p then serial_for_seed p seed else Ok []) (\<lambda>serial.
     Ok (as_bytes (filter (\<lambda>c. is_ascii_graphic c \<or> c = CHR '' '')
       (standard_vendor_prefix p @ serial @ standard_vendor_suffix p))))"

definition normalized_pages :: "DeviceIdentityProfile \<Rightarrow> u8 list" where
  "normalized_pages p =
     (let pages = supported_vpd_pages p in
      remdups_adj (sort (if 0x00 \<in> set pages then pages else pages @ [0x00])))"

definition overwrite :: "nat \<Rightarrow> bytes \<Rightarrow> bytes \<Rightarrow> bytes" where
  "overwrite start value buf = take start buf @ value @ drop (start + length value) buf"

definition write_padded_ascii :: "nat \<Rightarrow> nat \<Rightarrow> string \<Rightarrow> bytes \<Rightarrow> bytes" where
  "write_padded_ascii start width value buf =
     (if start + width > length buf then buf
      else let out = as_bytes (take width (filter (\<lambda>c. is_ascii_graphic c \<or> c = CHR '' '') value)) in
        overwrite start (out @ replicate (width - length out) 0x20) buf)"

definition inquiry_vendor_area :: "DeviceIdentityProfile \<Rightarrow> bytes \<Rightarrow> bytes \<Rightarrow> bytes" where
  "inquiry_vendor_area p vendor_specific out =
     (let room = min 56 (length out) - 36;
          blank = overwrite 36 (replicate room 0x20) out;
          copied = overwrite 36 (take room vendor_specific) blank in
      if barcode_scanner_vendor_specific_19 p \<and> 20 \<le> room then overwrite 55 [0x01] copied else copied)"

definition standard_inquiry_bytes :: "DeviceIdentityProfile \<Rightarrow> string \<Rightarrow> (TapeError, bytes) result" where
  "standard_inquiry_bytes p seed =
     bind_r (profile_validate p) (\<lambda>_.
     let head = [peripheral_device_type (device_type p), 0x80, ansi_version p,
                 response_data_format p, saturating_sub (inquiry_len p) 5, protect_flags p,
                 mchanger_flags p, linked_flags p];
         out = write_padded_ascii 32 4 (revision p)
                (write_padded_ascii 16 16 (product p)
                 (write_padded_ascii 8 8 (vendor p)
                  (overwrite 0 head (replicate (unat (inquiry_len p)) 0)))) in
     if length out > 36 then
       bind_r (standard_vendor_specific_bytes p seed) (\<lambda>vendor_specific.
       Ok (inquiry_vendor_area p vendor_specific out))
     else Ok out)"

section \<open>Vital product data\<close>

definition vpd_identifier :: "DeviceIdentityProfile \<Rightarrow> string \<Rightarrow> bytes" where
  "vpd_identifier p serial =
     write_padded_ascii 0 8 (vendor p) (replicate 8 0x20) @
     write_padded_ascii 0 16 (product p) (replicate 16 0x20) @ as_bytes serial"

definition vpd_payload :: "DeviceIdentityProfile \<Rightarrow> u8 \<Rightarrow> string \<Rightarrow> (TapeError, bytes) result" where
  "vpd_payload p page seed =
     (if page = 0x00 then Ok (normalized_pages p)
      else if page = 0x80 then bind_r (serial_for_vpd_seed p seed) (\<lambda>serial. Ok (as_bytes serial))
      else if page = 0x83 then
        bind_r (serial_for_vpd_seed p seed) (\<lambda>serial.
        let identifier = vpd_identifier p serial in
        Ok ([0x02, 0x01, 0x00, of_nat (length identifier)] @ identifier))
      else if page = 0x03 then Ok (write_padded_ascii 8 4 (revision p) (replicate 0x21 0))
      else if page = 0x86 then Ok (0x07 # replicate 0x3B 0)
      else ok_or (map_of (custom_vpd_pages p) page) (UnsupportedVpdPage page))"

definition vpd_page_bytes :: "DeviceIdentityProfile \<Rightarrow> u8 \<Rightarrow> string \<Rightarrow> (TapeError, bytes) result" where
  "vpd_page_bytes p page seed =
     bind_r (profile_validate p) (\<lambda>_.
     bind_r (vpd_payload p page seed) (\<lambda>payload.
     Ok ([peripheral_device_type (device_type p), page] @
         to_be_bytes (of_nat (length payload) :: u16) @ payload)))"

section \<open>Element addresses\<close>

datatype ElementClass = Element_Drive | Element_Slot | Element_ImportExport

record ElementAddressProfile =
  drive_start :: u16
  drive_count :: u16
  slot_start :: u16
  slot_count :: u16
  ie_start :: u16
  ie_count :: u16
  avoltag_enabled :: bool

definition ensure_non_overlap ::
  "u16 \<times> u16 \<Rightarrow> u16 \<times> u16 \<Rightarrow> string \<Rightarrow> string \<Rightarrow> (TapeError, unit) result" where
  "ensure_non_overlap lhs rhs lhs_name rhs_name =
     (case (lhs, rhs) of ((l_start, l_count), (r_start, r_count)) \<Rightarrow>
        if l_count = 0 \<or> r_count = 0 then Ok ()
        else let l_end = unat l_start + unat l_count - 1;
                 r_end = unat r_start + unat r_count - 1 in
          if unat l_start \<le> r_end \<and> unat r_start \<le> l_end
          then Err (InvalidProfile (lhs_name @ '' and '' @ rhs_name @ '' element ranges overlap''))
          else Ok ())"

definition elements_validate :: "ElementAddressProfile \<Rightarrow> (TapeError, unit) result" where
  "elements_validate p =
     bind_r (ensure_non_overlap (drive_start p, drive_count p) (slot_start p, slot_count p)
       ''drive'' ''slot'') (\<lambda>_.
     bind_r (ensure_non_overlap (drive_start p, drive_count p) (ie_start p, ie_count p)
       ''drive'' ''ie'') (\<lambda>_.
     ensure_non_overlap (slot_start p, slot_count p) (ie_start p, ie_count p) ''slot'' ''ie''))"

record ElementStatusEntry =
  element_class :: ElementClass
  start_addr :: u16
  element_count :: u16
  serial_tags :: "string list"

definition element_status_entries ::
  "ElementAddressProfile \<Rightarrow> string list \<Rightarrow> (TapeError, ElementStatusEntry list) result" where
  "element_status_entries p drive_serials =
     bind_r (elements_validate p) (\<lambda>_.
     let drive_tags = (if avoltag_enabled p then
                         if drive_serials = []
                         then map (\<lambda>i. ''DRV'' @ zero_padded 4 (i + 1)) [0..<unat (drive_count p)]
                         else take (unat (drive_count p)) drive_serials
                       else []) in
     Ok [\<lparr>element_class = Element_Drive, start_addr = drive_start p, element_count = drive_count p,
          serial_tags = drive_tags\<rparr>,
         \<lparr>element_class = Element_Slot, start_addr = slot_start p, element_count = slot_count p,
          serial_tags = []\<rparr>,
         \<lparr>element_class = Element_ImportExport, start_addr = ie_start p, element_count = ie_count p,
          serial_tags = []\<rparr>])"

section \<open>Shape of what is reported\<close>

lemma length_overwrite [simp]:
  "start + length value \<le> length buf \<Longrightarrow> length (overwrite start value buf) = length buf"
  by (simp add: overwrite_def)

lemma length_as_bytes_filter [simp]: "length (as_bytes s) = length s"
  by (simp add: as_bytes_def)

lemma length_write_padded_ascii [simp]: "length (write_padded_ascii start width value buf) = length buf"
  by (simp add: write_padded_ascii_def Let_def min_def)

lemma length_hex4 [simp]: "length (hex4 w) = 4"
  by (simp add: hex4_def)

lemma hex_digit_serial: "d < 16 \<Longrightarrow> serial_char (hex_digit d)"
  by (cases "d < 10")
    (simp_all add: serial_char_def hex_digit_def is_ascii_alphanumeric_def is_ascii_digit_def char_code_def)

lemma hex4_serial: "list_all serial_char (hex4 w)"
  by (simp add: hex4_def hex_digit_serial)

lemma fit_serial_shape:
  assumes "list_all serial_char raw"
  shows "length (fit_serial n raw) = n \<and> list_all serial_char (fit_serial n raw)"
proof -
  have "serial_char (CHR ''0'')"
    by (simp add: serial_char_def is_ascii_alphanumeric_def is_ascii_digit_def char_code_def)
  moreover have "list_all serial_char (take k raw)" for k
    using assms by (auto simp: list_all_iff dest: in_set_takeD)
  ultimately show ?thesis
    using assms hex4_serial by (auto simp: fit_serial_def Let_def list_all_iff)
qed

lemma serial_for_seed_shape:
  "serial_for_seed p seed = Ok s \<Longrightarrow> length s = unat (serial_len p) \<and> list_all serial_char s"
  by (auto simp: serial_for_seed_def intro!: fit_serial_shape) (auto simp: list_all_iff)

lemma inquiry_head:
  assumes "36 \<le> length (out :: bytes)"
  shows "take 8 (write_padded_ascii 32 4 r (write_padded_ascii 16 16 q (write_padded_ascii 8 8 v out))) =
    take 8 out"
proof -
  have "take 8 (write_padded_ascii start width txt' buf) = take 8 buf"
    if "8 \<le> start" for start width txt' and buf :: bytes
    using that by (simp add: write_padded_ascii_def overwrite_def Let_def min_def)
  then show ?thesis by simp
qed

lemma vendor_area_shape:
  assumes "36 < length out"
  shows "length (inquiry_vendor_area p v out) = length out \<and>
    take 8 (inquiry_vendor_area p v out) = take 8 out"
proof -
  define room where "room = min 56 (length out) - 36"
  define blank where "blank = overwrite 36 (replicate room 0x20) out"
  define copied where "copied = overwrite 36 (take room v) blank"
  have head: "take 8 (overwrite k b buf) = take 8 buf" if "8 \<le> k" "k \<le> length buf" for k b and buf :: bytes
    using that by (simp add: overwrite_def)
  have blank: "length blank = length out" "take 8 blank = take 8 out"
    using assms head by (simp_all add: blank_def room_def)
  have copied: "length copied = length out" "take 8 copied = take 8 out"
    using assms blank head by (simp_all add: copied_def room_def)
  have "20 \<le> room \<Longrightarrow> 56 \<le> length copied" using copied by (simp add: room_def)
  then have "20 \<le> room \<Longrightarrow> length (overwrite 55 [1] copied) = length out \<and>
      take 8 (overwrite 55 [1] copied) = take 8 out"
    using copied head by simp
  moreover have "inquiry_vendor_area p v out =
      (if barcode_scanner_vendor_specific_19 p \<and> 20 \<le> room then overwrite 55 [0x01] copied else copied)"
    by (simp only: inquiry_vendor_area_def Let_def room_def blank_def copied_def)
  ultimately show ?thesis using copied by simp
qed

lemma inquiry_shape:
  assumes "standard_inquiry_bytes p seed = Ok out"
  shows "length out = unat (inquiry_len p)"
    "take 5 out = [peripheral_device_type (device_type p), 0x80, ansi_version p,
       response_data_format p, inquiry_len p - 5]"
proof -
  have n: "36 \<le> unat (inquiry_len p)"
    using assms by (auto simp: standard_inquiry_bytes_def profile_validate_def word_le_nat_alt)
  define head where "head = [peripheral_device_type (device_type p), 0x80, ansi_version p,
    response_data_format p, saturating_sub (inquiry_len p) 5, protect_flags p,
    mchanger_flags p, linked_flags p]"
  define buf where "buf = write_padded_ascii 32 4 (revision p) (write_padded_ascii 16 16 (product p)
    (write_padded_ascii 8 8 (vendor p) (overwrite 0 head (replicate (unat (inquiry_len p)) 0))))"
  have len: "length buf = unat (inquiry_len p)" using n by (simp add: buf_def head_def)
  have "take 8 buf = take 8 (overwrite 0 head (replicate (unat (inquiry_len p)) 0))"
    unfolding buf_def using n by (intro inquiry_head) (simp add: head_def)
  then have t8: "take 8 buf = head" by (simp add: overwrite_def head_def)
  have out: "out = buf \<or> (36 < length buf \<and> (\<exists>v. out = inquiry_vendor_area p v buf))"
    using assms by (auto simp: standard_inquiry_bytes_def Let_def buf_def head_def split: if_splits)
  then show "length out = unat (inquiry_len p)" using len vendor_area_shape by auto
  have "take 8 out = head" using out t8 vendor_area_shape by auto
  then have "take 5 (take 8 out) = take 5 head" by simp
  moreover have "saturating_sub (inquiry_len p) 5 = inquiry_len p - 5"
    using n by (simp add: saturating_sub_def word_le_nat_alt)
  ultimately show "take 5 out = [peripheral_device_type (device_type p), 0x80, ansi_version p,
       response_data_format p, inquiry_len p - 5]" by (simp add: head_def)
qed

definition addresses :: "ElementStatusEntry \<Rightarrow> nat set" where
  "addresses e = {unat (start_addr e) ..< unat (start_addr e) + unat (element_count e)}"

lemma ensure_non_overlap_disjoint:
  "ensure_non_overlap (a, m) (b, n) x y = Ok () \<Longrightarrow>
     {unat a ..< unat a + unat m} \<inter> {unat b ..< unat b + unat n} = {}"
  by (auto simp: ensure_non_overlap_def Let_def unat_eq_0 split: if_splits)

lemma element_entries_disjoint:
  assumes "element_status_entries e ds = Ok es" "i < length es" "j < length es" "i \<noteq> j"
  shows "addresses (es ! i) \<inter> addresses (es ! j) = {}"
proof -
  have ok: "elements_validate e = Ok ()"
    using assms(1) by (auto simp: element_status_entries_def)
  then have d: "{unat (drive_start e) ..< unat (drive_start e) + unat (drive_count e)} \<inter>
        {unat (slot_start e) ..< unat (slot_start e) + unat (slot_count e)} = {}"
      "{unat (drive_start e) ..< unat (drive_start e) + unat (drive_count e)} \<inter>
        {unat (ie_start e) ..< unat (ie_start e) + unat (ie_count e)} = {}"
      "{unat (slot_start e) ..< unat (slot_start e) + unat (slot_count e)} \<inter>
        {unat (ie_start e) ..< unat (ie_start e) + unat (ie_count e)} = {}"
    by (auto simp: elements_validate_def dest!: ensure_non_overlap_disjoint)
  obtain tags where es: "es = [\<lparr>element_class = Element_Drive, start_addr = drive_start e,
        element_count = drive_count e, serial_tags = tags\<rparr>,
      \<lparr>element_class = Element_Slot, start_addr = slot_start e, element_count = slot_count e,
        serial_tags = []\<rparr>,
      \<lparr>element_class = Element_ImportExport, start_addr = ie_start e, element_count = ie_count e,
        serial_tags = []\<rparr>]"
    using assms(1) by (auto simp: element_status_entries_def Let_def)
  have "i = 0 \<or> i = 1 \<or> i = 2" "j = 0 \<or> j = 1 \<or> j = 2" using assms(2,3) by (auto simp: es)
  then show ?thesis
    using assms(4) d by (elim disjE) (simp_all add: es addresses_def Int_commute)
qed

text \<open>
  C36: the identity data has the shape the host relies on: INQUIRY data has
  exactly the announced length and its additional-length byte says so, a
  serial number has exactly the configured length and only letters, digits
  and underscores, and the elements of a changer never share an address.
\<close>

theorem identity_well_formed:
  assumes "standard_inquiry_bytes p seed = Ok out" "serial_for_seed p seed = Ok serial"
    and "element_status_entries e ds = Ok es" "i < length es" "j < length es" "i \<noteq> j"
  shows "length out = unat (inquiry_len p) \<and> out ! 4 = inquiry_len p - 5 \<and>
    length serial = unat (serial_len p) \<and> list_all serial_char serial \<and>
    {unat (start_addr (es ! i)) ..< unat (start_addr (es ! i)) + unat (element_count (es ! i))} \<inter>
    {unat (start_addr (es ! j)) ..< unat (start_addr (es ! j)) + unat (element_count (es ! j))} = {}"
proof -
  have "out ! 4 = take 5 out ! 4" by simp
  then have "out ! 4 = inquiry_len p - 5" by (simp add: inquiry_shape(2) [OF assms(1)])
  then show ?thesis
    using inquiry_shape(1) [OF assms(1)] serial_for_seed_shape [OF assms(2)]
      element_entries_disjoint [OF assms(3-6)] by (simp add: addresses_def)
qed

definition sample_profile :: DeviceIdentityProfile where
  "sample_profile =
     \<lparr>device_type = Drive, vendor = ''HOLO'', product = ''ULTRIUM'', revision = ''1.0'',
      inquiry_len = 36, ansi_version = 5, response_data_format = 2, protect_flags = 0,
      mchanger_flags = 0, linked_flags = 0, standard_vendor_prefix = [],
      standard_vendor_include_serial = False, standard_vendor_suffix = [],
      barcode_scanner_vendor_specific_19 = False, serial_prefix = ''X'', serial_suffix = [],
      serial_vpd_suffix = [], serial_len = 3, supported_vpd_pages = [0x80], custom_vpd_pages = []\<rparr>"

definition sample_elements :: ElementAddressProfile where
  "sample_elements = \<lparr>drive_start = 0x100, drive_count = 2, slot_start = 0x400, slot_count = 16,
     ie_start = 0x300, ie_count = 1, avoltag_enabled = False\<rparr>"

theorem identity_well_formed_witness:
  "\<exists>out es. standard_inquiry_bytes sample_profile ''7'' = Ok out \<and> length out = 36 \<and> out ! 4 = 31 \<and>
    element_status_entries sample_elements [] = Ok es \<and>
    {unat (start_addr (es ! 0)) ..< unat (start_addr (es ! 0)) + unat (element_count (es ! 0))} \<inter>
    {unat (start_addr (es ! 1)) ..< unat (start_addr (es ! 1)) + unat (element_count (es ! 1))} = {}"
proof -
  have valid: "profile_validate sample_profile = Ok ()"
    by (simp add: profile_validate_def sample_profile_def guard_def)
  have "length (write_padded_ascii 32 4 r (write_padded_ascii 16 16 q (write_padded_ascii 8 8 v
      (overwrite 0 [a, b, c, d, e, f, g, h] (replicate 36 0))))) = 36" for r q v a b c d e f g h
    by simp
  then obtain out where out: "standard_inquiry_bytes sample_profile ''7'' = Ok out"
    using valid by (simp add: standard_inquiry_bytes_def) (simp add: sample_profile_def)
  obtain serial where serial: "serial_for_seed sample_profile ''7'' = Ok serial"
    using valid by (simp add: serial_for_seed_def)
  obtain es where es: "element_status_entries sample_elements [] = Ok es" "length es = 3"
    by (simp add: element_status_entries_def elements_validate_def ensure_non_overlap_def
        sample_elements_def Let_def)
  have "inquiry_len sample_profile = 36" by (simp add: sample_profile_def)
  then show ?thesis
    using identity_well_formed [OF out serial es(1), of 0 1] out es by simp
qed

end
