(* ===== verification/Mam.thy ===== *)
theory Mam
  imports Tape_State
begin

text \<open>
  The baseline of the medium auxiliary memory (\<^verbatim>\<open>scsi_tape/mam.rs\<close>): a
  record of the mounted cartridge and its tag-length-value encoding.
\<close>

record MamBaselineRecord =
  mam_cartridge_id :: string
  mam_barcode :: string
  mam_media_type :: string
  mam_capacity_bytes :: u64
  mam_remaining_bytes :: u64

definition build_mam_baseline ::
  "TapeState \<Rightarrow> string \<Rightarrow> string \<Rightarrow> u64 \<Rightarrow> u64 \<Rightarrow> (TapeError, MamBaselineRecord) result" where
  "build_mam_baseline t barcode media_type capacity remaining =
     bind_r (guard (mount_state t \<noteq> Empty) (NotReady ''no media loaded'')) (\<lambda>_.
     bind_r (guard (remaining \<le> capacity)
       (InvalidProfile ''remaining bytes cannot exceed capacity'')) (\<lambda>_.
     bind_r (ok_or (cartridge_id t) (NotReady ''missing cartridge id'')) (\<lambda>cartridge.
     Ok \<lparr>mam_cartridge_id = cartridge, mam_barcode = barcode, mam_media_type = media_type,
         mam_capacity_bytes = capacity, mam_remaining_bytes = remaining\<rparr>)))"

text \<open>The length is the low half of the real one, as the cast to \<^verbatim>\<open>u16\<close> has it.\<close>

definition write_tlv :: "u8 \<Rightarrow> bytes \<Rightarrow> bytes" where
  "write_tlv tag value = tag # to_be_bytes (of_nat (length value) :: u16) @ value"

definition encode_mam_baseline :: "MamBaselineRecord \<Rightarrow> bytes" where
  "encode_mam_baseline r =
     write_tlv 0x01 (as_bytes (mam_cartridge_id r)) @
     write_tlv 0x02 (as_bytes (mam_barcode r)) @
     write_tlv 0x03 (as_bytes (mam_media_type r)) @
     write_tlv 0x04 (to_be_bytes (mam_capacity_bytes r)) @
     write_tlv 0x05 (to_be_bytes (mam_remaining_bytes r))"

end
