(* ===== verification/Sense.thy ===== *)
theory Sense
  imports Tape_State
begin

text \<open>
  Sense data (\<^verbatim>\<open>scsi_tape/sense.rs\<close>): which SCSI status and sense code the
  host sees for each error of a tape command.
\<close>

datatype SenseContext =
    Sense_NotReady
  | Sense_RecoveryRequired
  | Sense_IllegalRequest
  | Sense_BlankCheckEod
  | Sense_VolumeOverflow
  | Sense_AccessDenied
  | Sense_DataProtect
  | Sense_MediumError
  | Sense_ReservationConflict
  | Sense_InvalidPersistentRelease

record SenseFrame =
  sf_status :: u8
  sense_key :: u8
  asc :: u8
  ascq :: u8
  end_of_medium :: bool
  information_valid :: bool
  information :: u32

text \<open>A frame with CHECK CONDITION and no information field.\<close>

definition plain_frame :: "u8 \<Rightarrow> u8 \<Rightarrow> u8 \<Rightarrow> SenseFrame" where
  "plain_frame key code qualifier =
     \<lparr>sf_status = 0x02, sense_key = key, asc = code, ascq = qualifier, end_of_medium = False,
      information_valid = False, information = 0\<rparr>"

fun sense_for_context :: "SenseContext \<Rightarrow> SenseFrame" where
  "sense_for_context Sense_NotReady = plain_frame 0x02 0x3A 0x00"
| "sense_for_context Sense_RecoveryRequired = plain_frame 0x02 0x04 0x00"
| "sense_for_context Sense_IllegalRequest = plain_frame 0x05 0x24 0x00"
| "sense_for_context Sense_BlankCheckEod =
     (plain_frame 0x08 0x00 0x05)\<lparr>information_valid := True, information := 1\<rparr>"
| "sense_for_context Sense_VolumeOverflow = (plain_frame 0x0D 0x00 0x00)\<lparr>end_of_medium := True\<rparr>"
| "sense_for_context Sense_AccessDenied = plain_frame 0x07 0x27 0x00"
| "sense_for_context Sense_DataProtect = plain_frame 0x07 0x30 0x0C"
| "sense_for_context Sense_MediumError = plain_frame 0x03 0x11 0x00"
| "sense_for_context Sense_ReservationConflict = (plain_frame 0x0B 0x18 0x02)\<lparr>sf_status := 0x18\<rparr>"
| "sense_for_context Sense_InvalidPersistentRelease = plain_frame 0x05 0x26 0x04"

fun resolve_sense_for_error :: "TapeError \<Rightarrow> SenseFrame" where
  "resolve_sense_for_error Unauthorized = sense_for_context Sense_AccessDenied"
| "resolve_sense_for_error (AccessDenied _) = sense_for_context Sense_AccessDenied"
| "resolve_sense_for_error WormWriteProtected = sense_for_context Sense_DataProtect"
| "resolve_sense_for_error (ReservationConflict _) = sense_for_context Sense_ReservationConflict"
| "resolve_sense_for_error (InvalidReservationRelease _) =
     sense_for_context Sense_InvalidPersistentRelease"
| "resolve_sense_for_error (InvalidReservationKey _) = sense_for_context Sense_IllegalRequest"
| "resolve_sense_for_error (NotReady _) = sense_for_context Sense_NotReady"
| "resolve_sense_for_error RecoveryRequired = sense_for_context Sense_RecoveryRequired"
| "resolve_sense_for_error VolumeOverflow = sense_for_context Sense_VolumeOverflow"
| "resolve_sense_for_error (PhysicalWriteAdmission units _) =
     (plain_frame 0x03 0x0C 0x00)\<lparr>information_valid := True, information := units\<rparr>"
| "resolve_sense_for_error (PhysicalFilemarkAdmission _) = plain_frame 0x03 0x0C 0x00"
| "resolve_sense_for_error (UnsupportedVpdPage _) = sense_for_context Sense_IllegalRequest"
| "resolve_sense_for_error (UnsupportedModePage _) = sense_for_context Sense_IllegalRequest"
| "resolve_sense_for_error (UnsupportedLogPage _) = sense_for_context Sense_IllegalRequest"
| "resolve_sense_for_error (InvalidProfile _) = sense_for_context Sense_IllegalRequest"
| "resolve_sense_for_error (InvalidArgument _) = sense_for_context Sense_IllegalRequest"
| "resolve_sense_for_error (FixedBlockSizeMismatch _ _) = sense_for_context Sense_IllegalRequest"
| "resolve_sense_for_error (OutOfRange _) = sense_for_context Sense_IllegalRequest"
| "resolve_sense_for_error InvalidTransition = sense_for_context Sense_IllegalRequest"
| "resolve_sense_for_error RetentionBlocked = sense_for_context Sense_IllegalRequest"
| "resolve_sense_for_error (Unsupported _) = sense_for_context Sense_IllegalRequest"
| "resolve_sense_for_error (Tape_Storage e) =
     (case e of
        SpaceExhausted _ \<Rightarrow> plain_frame 0x03 0x0C 0x00
      | SpaceAdmission _ \<Rightarrow> plain_frame 0x03 0x0C 0x00
      | _ \<Rightarrow> sense_for_context Sense_MediumError)"
| "resolve_sense_for_error (Tape_NotFound _) = sense_for_context Sense_BlankCheckEod"
| "resolve_sense_for_error (FilemarkDetected residue _) =
     (plain_frame 0x00 0x00 0x01)\<lparr>information_valid := True, information := residue\<rparr>"

end
