(* ===== verification/Commands_Core.thy ===== *)
theory Commands_Core
  imports Mount_Bridge Identity Mam Sense
begin

text \<open>
  The dispatcher of drive commands (\<^verbatim>\<open>scsi_tape/commands_core.rs\<close>), which
  runs one command of the chain and wraps its answer.  The telemetry events
  only print.
\<close>

section \<open>Commands and responses\<close>

datatype CoreCommand =
    InquiryStandard DeviceIdentityProfile string
  | InquiryVpd DeviceIdentityProfile u8 string
  | ReadElementStatus ElementAddressProfile "string list"
  | MamBaseline string string u64 u64
  | Load string
  | Unload
  | Rewind
  | Erase EraseMode
  | EraseAs string EraseMode
  | WriteData bytes
  | WriteDataAs string bytes
  | ReadData
  | WriteFilemarks u32
  | WriteFilemarksAs string u32
  | SpaceBlocks i64
  | SpaceFilemarks i64
  | SpaceEndOfData i64
  | SetBlockModeFixed u32
  | SetBlockModeVariable
  | ModeSense u8
  | LogSense u8
  | SetWormPolicy bool bool
  | ReservationRegister string u64
  | ReservationRegisterIgnore string u64
  | ReservationReserve string u64
  | ReservationRelease string u64
  | ReservationClear string u64
  | ReservationPreempt string u64 u64
  | ReservationRegisterMove string u64 u64 string bool
  | ReservationRead
  | ReadPosition
  | Locate u64
  | Mount
  | Unmount
  | Read
  | Write

datatype CoreResponse =
    NoResponse
  | Bytes bytes
  | Data bytes
  | ElementStatus "ElementStatusEntry list"
  | Mam MamBaselineRecord
  | Position PositionReport
  | Reservation ReservationReport

definition answer :: "('a \<Rightarrow> CoreResponse) \<Rightarrow> ('s, TapeError, 'a) stm \<Rightarrow> ('s, TapeError, CoreResponse) stm" where
  "answer wrap op = bind_s op (\<lambda>a. ret_s (wrap a))"

definition done_with :: "('s, TapeError, unit) stm \<Rightarrow> ('s, TapeError, CoreResponse) stm" where
  "done_with = answer (\<lambda>_. NoResponse)"

primrec execute ::
  "externs \<Rightarrow> filesystem_lock \<Rightarrow> mount_env \<Rightarrow> CoreCommand \<Rightarrow> ('z tape_store_scheme machine, TapeError, CoreResponse) stm" where
  "execute E L V (InquiryStandard profile seed) = answer Bytes (lift_s (standard_inquiry_bytes profile seed))"
| "execute E L V (InquiryVpd profile page seed) = answer Bytes (lift_s (vpd_page_bytes profile page seed))"
| "execute E L V (ReadElementStatus profile serials) = answer ElementStatus (lift_s (element_status_entries profile serials))"
| "execute E L V (MamBaseline barcode media_type capacity remaining) =
     answer Mam (check_tape (\<lambda>t. build_mam_baseline t barcode media_type capacity remaining))"
| "execute E L V (Load cartridge) = done_with (load_media E V cartridge)"
| "execute E L V Unload = done_with (unload_media E)"
| "execute E L V Rewind = done_with (rewind_media E)"
| "execute E L V (Erase mode) = done_with (erase_media E L mode (Some (configured_initiator E)))"
| "execute E L V (EraseAs initiator mode) = done_with (erase_media E L mode (Some initiator))"
| "execute E L V (WriteData payload) = done_with (write_data E L payload (Some (configured_initiator E)))"
| "execute E L V (WriteDataAs initiator payload) = done_with (write_data E L payload (Some initiator))"
| "execute E L V ReadData = answer Data (read_data E)"
| "execute E L V (WriteFilemarks n) = done_with (write_filemarks E L n (Some (configured_initiator E)))"
| "execute E L V (WriteFilemarksAs initiator n) = done_with (write_filemarks E L n (Some initiator))"
| "execute E L V (SpaceBlocks n) = done_with (space E Blocks n)"
| "execute E L V (SpaceFilemarks n) = done_with (space E Filemarks n)"
| "execute E L V (SpaceEndOfData n) = done_with (space E EndOfData n)"
| "execute E L V (SetBlockModeFixed n) = done_with (set_block_mode_fixed n)"
| "execute E L V SetBlockModeVariable = done_with set_block_mode_variable"
| "execute E L V (ModeSense page) = answer Bytes (mode_sense page)"
| "execute E L V (LogSense page) = answer Bytes (log_sense page)"
| "execute E L V (SetWormPolicy worm locked) = done_with (set_worm_policy worm locked)"
| "execute E L V (ReservationRegister i key) = done_with (register_reservation (Some i) key)"
| "execute E L V (ReservationRegisterIgnore i key) = done_with (register_ignore_reservation (Some i) key)"
| "execute E L V (ReservationReserve i key) = done_with (reserve_reservation (Some i) key)"
| "execute E L V (ReservationRelease i key) = done_with (release_reservation (Some i) key)"
| "execute E L V (ReservationClear i key) = done_with (clear_reservation (Some i) key)"
| "execute E L V (ReservationPreempt i key service_key) = done_with (preempt_reservation (Some i) key service_key)"
| "execute E L V (ReservationRegisterMove i key service_key target unregister) =
     done_with (register_and_move_reservation (Some i) key service_key target unregister)"
| "execute E L V ReservationRead = answer Reservation (check_tape read_reservation)"
| "execute E L V ReadPosition = answer Position (check_tape read_position)"
| "execute E L V (Locate target) = done_with (locate E target)"
| "execute E L V Mount = done_with (load_media E V ''auto'')"
| "execute E L V Unmount = done_with (unload_media E)"
| "execute E L V Read = answer Data (read_data E)"
| "execute E L V Write = err_s (InvalidArgument ''legacy WRITE requires payload; use WriteData'')"

definition tape_error_to_sense :: "TapeError \<Rightarrow> SenseFrame" where
  "tape_error_to_sense e = resolve_sense_for_error e"

definition execute_with_sense ::
  "externs \<Rightarrow> filesystem_lock \<Rightarrow> mount_env \<Rightarrow> CoreCommand \<Rightarrow> ('z tape_store_scheme machine, SenseFrame, CoreResponse) stm" where
  "execute_with_sense E L V cmd = map_err_s tape_error_to_sense (execute E L V cmd)"

definition encode_mam_response :: "MamBaselineRecord \<Rightarrow> bytes" where
  "encode_mam_response r = encode_mam_baseline r"

end
