(* ===== verification/Drive_Invariant.thy ===== *)
theory Drive_Invariant
  imports Commands_Core
begin

text \<open>
  What every command of the dispatcher keeps of the drive: the index of
  recorded blocks stays in order and a drive has a layout exactly while it is
  loaded; locked write-once media keep their recorded blocks, filemarks and
  retention flags under every command until they are unloaded.
\<close>

section \<open>Relations between the drive before and after\<close>

text \<open>
  An operation takes the drive from a state to one it is related to.  A
  relation that every small change of a command respects is respected by the
  commands; the first locale has what the commands that record nothing change,
  the second what the others change besides.
\<close>

definition tape_rel :: "(TapeState \<Rightarrow> TapeState \<Rightarrow> bool) \<Rightarrow> ('st machine, 'e, 'a) stm \<Rightarrow> bool" where
  "tape_rel R op \<longleftrightarrow> (\<forall>m. R (tape m) (tape (snd (op m))))"

lemma tape_relI: "(\<And>m. R (tape m) (tape (snd (op m)))) \<Longrightarrow> tape_rel R op"
  by (simp add: tape_rel_def)

lemma tape_rel_at: "tape_rel R op \<Longrightarrow> R (tape m) (tape (snd (op m)))"
  by (simp add: tape_rel_def)

lemma tape_at_layout [simp]: "tape (snd (at_layout root op m)) = tape m"
  by (simp add: at_layout_def split: prod.splits)

lemma snd_map_err_s [simp]: "snd (map_err_s f op m) = snd (op m)"
  by (simp add: map_err_s_def split: prod.splits)

lemma tape_storage [simp]: "tape (snd (storage root op m)) = tape m"
  by (simp add: storage_def)

lemma tape_invalidate [simp]: "tape (snd (invalidate_state_read_prefetch E m)) = tape m"
  by (simp add: invalidate_state_read_prefetch_def split: option.splits)

lemma tape_persist_usage:
  "tape (snd (persist_usage_counters m)) = tape m \<or>
   tape (snd (persist_usage_counters m)) = (tape m)\<lparr>usage_counters_dirty_ops := 0\<rparr>"
  by (simp add: persist_usage_run split: option.splits)

locale drive_relation =
  fixes R :: "TapeState \<Rightarrow> TapeState \<Rightarrow> bool"
  assumes R_refl: "R t t"
    and R_trans: "R t u \<Longrightarrow> R u v \<Longrightarrow> R t v"
    and position: "R t (t\<lparr>current_position := p\<rparr>)"
    and counters: "R t (t\<lparr>command_counters := c\<rparr>)"
    and usage: "R t (t\<lparr>usage_counters := uc\<rparr>)"
    and dirty: "R t (t\<lparr>usage_counters_dirty_ops := d\<rparr>)"
    and mode: "R t (t\<lparr>block_mode := b\<rparr>)"
    and reservations: "R t (t\<lparr>reservation_state := r\<rparr>)"
begin

lemma rel_bind:
  assumes "tape_rel R op" "\<And>a. tape_rel R (f a)"
  shows "tape_rel R (bind_s op f)"
proof (rule tape_relI)
  fix m :: "'a machine"
  obtain r m1 where op: "op m = (r, m1)" by fastforce
  then have "R (tape m) (tape m1)" using tape_rel_at [OF assms(1), of m] by simp
  then show "R (tape m) (tape (snd (bind_s op f m)))"
    using op tape_rel_at [OF assms(2)] R_trans by (cases r) (auto simp: bind_s_def)
qed

lemma rel_simple:
  "tape_rel R (lift_s r)" "tape_rel R (ret_s a)" "tape_rel R (err_s e)" "tape_rel R (check_tape g)"
  "tape_rel R (storage root op)" "tape_rel R (at_layout root op')" "tape_rel R (invalidate_state_read_prefetch E)"
  by (simp_all add: tape_rel_def R_refl)

lemma rel_modify: "(\<And>t. R t (f t)) \<Longrightarrow> tape_rel R (modify_tape f)"
  by (simp add: tape_rel_def)

lemma rel_if: "tape_rel R op \<Longrightarrow> tape_rel R op' \<Longrightarrow> tape_rel R (if b then op else op')"
  by simp

lemma rel_bump: "tape_rel R (bump counter)"
  unfolding bump_def by (rule rel_modify) (subst counter_fields(1), rule counters)

lemma rel_map_err: "tape_rel R op \<Longrightarrow> tape_rel R (map_err_s f op)"
  by (simp add: tape_rel_def)

lemma rel_persist_usage: "tape_rel R persist_usage_counters"
proof (rule tape_relI)
  fix m :: "'z layout_files_scheme machine"
  show "R (tape m) (tape (snd (persist_usage_counters m)))"
    using tape_persist_usage [of m] R_refl dirty by metis
qed

lemma rel_mark_usage: "tape_rel R (mark_usage_counters_dirty E)"
proof (rule tape_relI)
  fix m :: "'z layout_files_scheme machine"
  let ?m = "tape_update (\<lambda>t. t\<lparr>usage_counters_dirty_ops := saturating_add (usage_counters_dirty_ops t) 1\<rparr>) m"
  have "R (tape m) (tape ?m)" by (simp add: dirty)
  moreover have "R (tape ?m) (tape (snd (persist_usage_counters ?m)))" using rel_persist_usage by (rule tape_rel_at)
  ultimately show "R (tape m) (tape (snd (mark_usage_counters_dirty E m)))"
    using R_trans by (auto simp: mark_usage_counters_dirty_def bind_s_def)
qed

lemma rel_usage:
  "tape_rel R (record_write_usage E n)" "tape_rel R (record_read_usage E n)" "tape_rel R (record_filemark_usage E n)"
proof -
  have "tape_rel R (modify_s (tape_update (usage_counters_update f)))" for f
    by (rule tape_relI) (simp, subst counter_fields(2), rule usage)
  then show "tape_rel R (record_write_usage E n)" "tape_rel R (record_read_usage E n)" "tape_rel R (record_filemark_usage E n)"
    unfolding record_write_usage_def record_read_usage_def record_filemark_usage_def
    by (intro rel_bind rel_mark_usage; assumption)+
qed

lemmas rel_rules = rel_bind rel_simple rel_bump rel_map_err rel_persist_usage rel_usage

lemma rel_depends:
  "(\<And>t. tape_rel R (f t)) \<Longrightarrow> tape_rel R (\<lambda>m. f (tape m) m)"
  "(\<And>root. tape_rel R (g root)) \<Longrightarrow> tape_rel R (\<lambda>m. case h m of Some root \<Rightarrow> g root m | None \<Rightarrow> (r, m))"
  "tape_rel R op \<Longrightarrow> tape_rel R op' \<Longrightarrow> tape_rel R (\<lambda>m. if P m then op m else op' m)"
  by (auto simp: tape_rel_def R_refl split: option.splits)

lemma rel_positioning:
  "tape_rel R (rewind_media E)" "tape_rel R (space E branch n)" "tape_rel R (locate E p)"
  unfolding rewind_media_def space_def locate_def move_to_def
  by (intro rel_bind rel_simple rel_bump rel_modify position rel_depends(2))+

lemma rel_modes:
  "tape_rel R (set_block_mode_fixed n)" "tape_rel R set_block_mode_variable" "tape_rel R (mode_sense page)"
  "tape_rel R (log_sense page)"
proof -
  show "tape_rel R (set_block_mode_fixed n)" "tape_rel R set_block_mode_variable"
    unfolding set_block_mode_fixed_def set_block_mode_variable_def
    by (intro rel_bind rel_simple rel_if rel_modify mode)+
  have bad: "tape_rel R (bind_s (bump counter) (\<lambda>_. err_s e))" for counter e by (intro rel_bind rel_bump rel_simple)
  show "tape_rel R (mode_sense page)" "tape_rel R (log_sense page)"
    unfolding mode_sense_def log_sense_def Let_def
    by (intro rel_bind rel_simple rel_bump tape_relI; auto simp: R_refl tape_rel_at [OF bad])+
qed

lemma rel_reservation: "tape_rel R (when_loaded (on_reservation f))"
proof -
  have "tape_rel R (on_tape (on_reservation f))"
    by (rule tape_relI) (auto simp: on_tape_def on_reservation_def R_refl reservations split: sum.splits)
  then show ?thesis unfolding when_loaded_def by (intro rel_bind rel_simple)
qed

lemma rel_reservations:
  "tape_rel R (register_reservation i k)" "tape_rel R (register_ignore_reservation i k)" "tape_rel R (reserve_reservation i k)"
  "tape_rel R (release_reservation i k)" "tape_rel R (clear_reservation i k)" "tape_rel R (preempt_reservation i k sk)"
  "tape_rel R (register_and_move_reservation i k sk target unregister)"
  unfolding register_reservation_def register_ignore_reservation_def reserve_reservation_def release_reservation_def
    clear_reservation_def preempt_reservation_def register_and_move_reservation_def register_ignore_existing_def
    register_key_def reserve_key_def release_key_def clear_keys_def preempt_key_def register_and_move_key_def
  by (intro rel_reservation)+

lemma rel_read_data: "tape_rel R (read_data E)"
proof -
  have skip: "tape_rel R (skip_filemark n d)" for n d
    unfolding skip_filemark_def by (intro rel_bind rel_simple rel_modify position)
  have block: "tape_rel R (bind_s (read_mapped E root p) (\<lambda>r. bind_s (lift_s (g r)) (\<lambda>_.
      bind_s (modify_tape (\<lambda>t. t\<lparr>current_position := current_position t + ucast (lr_logical_len r)\<rparr>)) (\<lambda>_.
      bind_s (count_read_block E r) (\<lambda>_. ret_s (lr_payload r))))))" for root p g
    unfolding read_mapped_def count_read_block_def
    by (intro rel_bind rel_simple rel_modify position rel_bump rel_map_err rel_usage)
  show ?thesis unfolding read_data_def Let_def
    by (intro rel_bind rel_simple rel_depends(3) skip) (rule tape_relI, rule tape_rel_at, rule block)
qed

end

locale recording_relation = drive_relation +
  assumes recording: "R t (record_block s n t)"
    and eod: "R t (t\<lparr>eod_position := e\<rparr>)"
    and marks: "R t (t\<lparr>filemarks := ms\<rparr>)"
    and keep: "R t (keep_before q t)"
    and clear: "R t (t\<lparr>filemarks := [], block_lengths := [], block_starts := [], eod_position := 0\<rparr>)"
    and retention: "R t (t\<lparr>retention_policy := rp\<rparr>)"
    and recovery: "R t (t\<lparr>requires_recovery := rr\<rparr>)"
    and partitions: "R t (t\<lparr>partition_runtime := pr, cartridge_capacity_bytes := cap, retention_policy := rp\<rparr>)"
    and fresh: "block_starts t' = [] \<Longrightarrow> block_lengths t' = [] \<Longrightarrow> mount_state t' = Loaded \<Longrightarrow>
      active_layout t' \<noteq> None \<Longrightarrow> R t t'"
begin

lemma rel_finish:
  assumes "tape_rel R body"
  shows "tape_rel R (finish_write_command root body)"
proof (rule tape_relI)
  fix m :: "'a tape_store_scheme machine"
  obtain r m1 where b: "body m = (r, m1)" by fastforce
  then have "R (tape m) (tape m1)" using tape_rel_at [OF assms, of m] by simp
  then show "R (tape m) (tape (snd (finish_write_command root body m)))"
    using b R_trans [OF _ recovery] by (cases r) (simp_all add: finish_write_command_def)
qed

lemma rel_persist_filemarks: "tape_rel R (persist_tape_filemarks root)"
  by (simp add: tape_rel_def persist_tape_filemarks_def R_refl)

lemma rel_advance: "tape_rel R (advance_position n msg)"
  by (rule tape_relI) (simp add: advance_position_def R_refl position split: option.splits)

lemma rel_truncate: "tape_rel R (truncate_tail_before_write E root)"
proof -
  have reset: "tape_rel R (bind_s (storage root (reset_layout_for_overwrite E)) (\<lambda>_.
      bind_s (modify_tape (\<lambda>t. t\<lparr>filemarks := [], block_lengths := [], block_starts := [], eod_position := 0\<rparr>)) (\<lambda>_.
      persist_tape_filemarks root)))"
    by (intro rel_bind rel_simple rel_modify clear rel_persist_filemarks)
  have tail: "tape_rel R (bind_s (storage root (unmap_tail E a b)) (\<lambda>_.
      bind_s (modify_tape (keep_before c)) (\<lambda>_. bind_s (persist_tape_filemarks root) (\<lambda>_.
      modify_tape (\<lambda>t. t\<lparr>eod_position := current_position t\<rparr>)))))" for a b c
    by (intro rel_bind rel_simple rel_modify keep eod rel_persist_filemarks)
  show ?thesis unfolding truncate_tail_before_write_def [abs_def] Let_def
    by (intro tape_relI) (auto simp: R_refl intro!: tape_rel_at [OF reset] tape_rel_at [OF tail])
qed

lemma rel_write_block: "tape_rel R (write_block E root payload k len)"
proof -
  have w: "tape_rel R (\<lambda>m. storage root (write_logical_block E (current_position (tape m)) payload k
      (tape_write_options E (tape m)) None) m)" by (rule tape_relI) (simp add: R_refl)
  show ?thesis unfolding write_block_def raise_eod_def
    by (intro rel_bind w rel_modify recording rel_advance eod rel_bump rel_map_err rel_usage)
qed

lemma rel_write_data: "tape_rel R (write_data E L payload i)"
proof -
  have body: "tape_rel R (finish_write_command root (write_data_body E root payload len))" for root len
    unfolding write_data_body_def by (intro rel_finish rel_bind rel_simple rel_truncate rel_write_block)
  have run: "tape_rel R (bind_s (check_tape g) (\<lambda>root. finish_write_command root (write_data_body E root payload len)))" for g len
    by (intro rel_bind rel_simple body)
  show ?thesis unfolding write_data_def
    by (intro rel_bind rel_simple tape_relI) (auto simp: R_refl intro!: tape_rel_at [OF run])
qed

lemma rel_write_filemarks: "tape_rel R (write_filemarks E L n i)"
proof -
  have push: "tape_rel R (push_filemarks k step)" for k step
    by (induction k) (simp_all only: push_filemarks.simps, (intro rel_bind rel_simple rel_modify marks rel_advance | assumption)+)
  have "tape_rel R (finish_write_command root (write_filemarks_body E root n step))" for root step
    unfolding write_filemarks_body_def raise_eod_def
    by (intro rel_finish rel_bind rel_simple push rel_modify eod rel_persist_filemarks rel_bump rel_map_err rel_usage)
  then show ?thesis unfolding write_filemarks_def
    by (intro rel_bind rel_simple rel_if rel_bump rel_map_err rel_usage)
qed

lemma rel_set_worm: "tape_rel R (set_worm_policy worm locked)"
  unfolding set_worm_policy_def by (intro rel_bind rel_simple rel_modify retention rel_depends(2))

lemma rel_mount: "R t (tape (tape_mount c root m))"
  by (rule fresh) (simp_all add: tape_mount_def Let_def persist_usage_run push_unit_attention_def)

lemma rel_erase: "tape_rel R (erase_media E L mode i)"
proof -
  have m: "tape_rel R (modify_s (tape_mount c root))" for c root by (rule tape_relI) (simp add: rel_mount)
  have "tape_rel R (bind_s (storage root (wipe_layout E mode)) (\<lambda>_.
      bind_s (modify_s (tape_mount c root)) (\<lambda>_.
      bind_s (modify_tape (\<lambda>t. t\<lparr>partition_runtime := a, cartridge_capacity_bytes := b, retention_policy := d\<rparr>)) (\<lambda>_.
      bind_s (persist_tape_filemarks root) (\<lambda>_. storage root (persist_retention_state x y))))))" for root c a b d x y
    by (intro rel_bind rel_simple m rel_modify partitions rel_persist_filemarks)
  then have "tape_rel R (erase_body E mode c root)" for c root
    unfolding erase_body_def [abs_def] Let_def by (intro tape_relI, rule tape_rel_at)
  then show ?thesis unfolding erase_media_def
    by (intro rel_bind rel_simple) (auto intro!: rel_finish split: prod.splits)
qed

end

section \<open>The invariant of the drive\<close>

definition drive_inv :: "TapeState \<Rightarrow> bool" where
  "drive_inv t \<longleftrightarrow> index_ok t \<and> (mount_state t = Empty \<longleftrightarrow> active_layout t = None)"

lemma filter_keys:
  "distinct (map fst xs) \<Longrightarrow> filter (\<lambda>k. k \<in> fst ` set (filter P xs)) (map fst xs) = map fst (filter P xs)"
proof (induction xs)
  case (Cons x xs)
  have "k \<in> fst ` set (filter P (x # xs)) \<longleftrightarrow> k \<in> fst ` set (filter P xs)" if "k \<in> set (map fst xs)" for k
  proof -
    have "fst x \<notin> set (map fst xs)" using Cons.prems by simp
    then have "k \<noteq> fst x" using that by blast
    then show ?thesis by auto
  qed
  then have "filter (\<lambda>k. k \<in> fst ` set (filter P (x # xs))) (map fst xs) = filter (\<lambda>k. k \<in> fst ` set (filter P xs)) (map fst xs)"
    by (intro filter_cong) blast+
  moreover have "fst x \<notin> fst ` set (filter P xs)" using Cons.prems by auto
  ultimately show ?case using Cons by auto
qed simp

lemma keep_before_index: "index_ok t \<Longrightarrow> index_ok (keep_before p t)"
  using filter_keys [of "block_lengths t" "\<lambda>(s, n). saturating_add s (ucast n) \<le> p"] bt_ok_distinct [of "block_lengths t"]
  unfolding index_ok_def keep_before_def bt_has_def Let_def by (simp add: set_map)

interpretation kept: recording_relation "\<lambda>t t'. drive_inv t \<longrightarrow> drive_inv t'"
proof unfold_locales
  fix t s n q
  show "drive_inv t \<longrightarrow> drive_inv (record_block s n t)"
    using record_block_index(1) [of t s n] by (auto simp: drive_inv_def record_block_def Let_def)
  show "drive_inv t \<longrightarrow> drive_inv (keep_before q t)"
    using keep_before_index [of t q] by (auto simp: drive_inv_def keep_before_def Let_def)
qed (auto simp: drive_inv_def index_ok_def)

text \<open>A loaded drive starts with an index in order.\<close>

definition index_building :: "TapeState \<Rightarrow> bool" where
  "index_building t \<longleftrightarrow> bt_ok (block_lengths t) \<and> distinct (block_starts t) \<and>
     set (block_starts t) = fst ` set (block_lengths t)"

lemma hydrate_record_building:
  assumes "index_building (fst st)"
  shows "index_building (fst (hydrate_record step st r))"
    "mount_state (fst (hydrate_record step st r)) = mount_state (fst st)"
    "active_layout (fst (hydrate_record step st r)) = active_layout (fst st)"
proof -
  obtain t n where st: "st = (t, n)" by fastforce
  have f: "index_building (fst (hydrate_filemarks step r st))"
    "mount_state (fst (hydrate_filemarks step r st)) = mount_state t"
    "active_layout (fst (hydrate_filemarks step r st)) = active_layout t"
    using assms st by (auto simp: hydrate_filemarks_def index_building_def Let_def)
  have "index_building (hydrate_block r u)" if "index_building u" for u
    using that by (auto simp: index_building_def hydrate_block_def map_of_eq_None_iff)
  then show "index_building (fst (hydrate_record step st r))" using f(1) by (simp add: hydrate_record_def)
  show "mount_state (fst (hydrate_record step st r)) = mount_state (fst st)"
    "active_layout (fst (hydrate_record step st r)) = active_layout (fst st)"
    using f(2,3) st by (simp_all add: hydrate_record_def hydrate_block_def)
qed

lemma hydrate_drive_inv:
  assumes "mount_state t = Loaded" "active_layout t \<noteq> None"
  shows "drive_inv (hydrate_drive rs marks retention t)"
proof -
  have "index_building (fst (foldl (hydrate_record step) st xs)) \<and>
      mount_state (fst (foldl (hydrate_record step) st xs)) = mount_state (fst st) \<and>
      active_layout (fst (foldl (hydrate_record step) st xs)) = active_layout (fst st)"
    if "index_building (fst st)" for step st xs
    using that by (induction xs arbitrary: st) (simp_all add: hydrate_record_building)
  moreover have "index_ok (u\<lparr>block_starts := sort (block_starts u)\<rparr>)" if "index_building u" for u
  proof -
    have "sorted_wrt (<) (map fst (block_lengths u))" using that by (simp add: index_building_def bt_ok_def)
    then have "sorted (map fst (block_lengths u))" "distinct (map fst (block_lengths u))"
      by (simp_all add: strict_sorted_iff)
    then have "sort (block_starts u) = map fst (block_lengths u)"
      using that by (intro sorted_distinct_set_unique) (auto simp: index_building_def)
    then show ?thesis using that by (simp add: index_ok_def index_building_def)
  qed
  moreover have "index_building (u\<lparr>eod_position := e\<rparr>) = index_building u" for u e by (simp add: index_building_def)
  ultimately show ?thesis using assms
    by (simp add: drive_inv_def hydrate_drive_def Let_def index_building_def split: list.splits)
qed

lemma storage_tape: "storage root op m = (r, m') \<Longrightarrow> tape m' = tape m"
  using tape_storage [of root op m] by simp

lemma hydrate_run_inv:
  assumes "mount_state (tape m) = Loaded" "active_layout (tape m) = Some root" "hydrate_runtime_from_layout E m = (Ok u, m')"
  shows "drive_inv (tape m')"
proof -
  obtain rs marks retention where "tape m' = hydrate_drive rs marks retention (tape m)"
    using assms(2,3) unfolding hydrate_runtime_from_layout_def
    by (auto simp: bind_s_Ok dest!: storage_tape)
  then show ?thesis using hydrate_drive_inv [of "tape m"] assms(1,2) by simp
qed

lemma attach_keeps: "tape_rel (\<lambda>t t'. drive_inv t \<longrightarrow> drive_inv t') (attach_cartridge E V cartridge)"
proof -
  have staged: "drive_inv (tape m) \<longrightarrow> drive_inv (tape (snd (
      let staged = tape_update (\<lambda>t. t\<lparr>layout_lease := True\<rparr>) (tape_mount cartridge root m) in
      case hydrate_runtime_from_layout E staged of (Inr u, m') \<Rightarrow> (Ok u, m') | (Inl e, m') \<Rightarrow> (Err e, m'\<lparr>tape := tape m\<rparr>))))"
    for root and m :: "'a tape_store_scheme machine"
  proof -
    let ?s = "tape_update (\<lambda>t. t\<lparr>layout_lease := True\<rparr>) (tape_mount cartridge root m)"
    have s: "mount_state (tape ?s) = Loaded" "active_layout (tape ?s) = Some root"
      by (simp_all add: tape_mount_def Let_def persist_usage_run push_unit_attention_def)
    obtain r m' where h: "hydrate_runtime_from_layout E ?s = (r, m')" by fastforce
    show ?thesis using hydrate_run_inv [OF s] h by (cases r) (auto simp: Let_def)
  qed
  show ?thesis unfolding attach_cartridge_def
    by (intro kept.rel_bind kept.rel_simple tape_relI staged)
qed

lemma detach_keeps: "tape_rel (\<lambda>t t'. drive_inv t \<longrightarrow> drive_inv t') (detach_cartridge E)"
proof -
  have u: "drive_inv (tape (tape_unmount m))" for m :: "'a tape_store_scheme machine"
    by (simp add: tape_unmount_def drive_inv_def index_ok_def bt_ok_def Let_def)
  have flush: "tape_rel (\<lambda>t t'. drive_inv t \<longrightarrow> drive_inv t')
      (bind_s (bind_s (storage root op) (\<lambda>_. map_err_s Tape_Storage persist_usage_counters)) (\<lambda>_. storage root op'))" for root op op'
    by (intro kept.rel_bind kept.rel_simple kept.rel_map_err kept.rel_persist_usage)
  show ?thesis unfolding detach_cartridge_def
    by (intro kept.rel_bind kept.rel_simple)
      (auto simp: tape_rel_def u tape_rel_at [OF flush] split: option.splits)
qed

lemmas kept_rules = kept.rel_bind kept.rel_simple kept.rel_positioning kept.rel_modes kept.rel_reservations
  kept.rel_read_data kept.rel_write_data kept.rel_write_filemarks kept.rel_set_worm kept.rel_erase
  attach_keeps detach_keeps

lemma execute_keeps: "tape_rel (\<lambda>t t'. drive_inv t \<longrightarrow> drive_inv t') (execute E L V cmd)"
  by (cases cmd)
    (simp_all only: execute.simps answer_def done_with_def load_media_def unload_media_def, (intro kept_rules)+)

section \<open>Locked media\<close>

text \<open>
  Write-once media under a retention lock, and the part of the drive that
  describes what is recorded on the cartridge.
\<close>

definition worm_locked :: "TapeState \<Rightarrow> bool" where
  "worm_locked t \<longleftrightarrow> mount_state t = Loaded \<and> is_worm_media (retention_policy t) \<and> retention_locked (retention_policy t)"

definition frozen :: "TapeState \<Rightarrow> TapeState \<Rightarrow> bool" where
  "frozen t t' \<longleftrightarrow> mount_state t' = mount_state t \<and> cartridge_id t' = cartridge_id t \<and>
     active_layout t' = active_layout t \<and> requires_recovery t' = requires_recovery t \<and>
     retention_policy t' = retention_policy t \<and>
     block_starts t' = block_starts t \<and> block_lengths t' = block_lengths t \<and>
     filemarks t' = filemarks t \<and> eod_position t' = eod_position t"

lemma frozen_locked: "frozen t t' \<Longrightarrow> worm_locked t' = worm_locked t"
  by (simp add: frozen_def worm_locked_def)

interpretation held: drive_relation "\<lambda>t t'. worm_locked t \<longrightarrow> frozen t t'"
  by unfold_locales (auto simp: frozen_def worm_locked_def)

lemma held_refused:
  assumes "\<And>t. worm_locked t \<Longrightarrow> \<exists>e. g t = Err e"
  shows "tape_rel (\<lambda>t t'. worm_locked t \<longrightarrow> frozen t t') (bind_s (check_tape g) f)"
  using assms by (fastforce simp: tape_rel_def bind_s_def check_tape_def frozen_def)

lemma locked_access: "worm_locked t \<Longrightarrow> \<exists>e. enforce_protected_access i t = Err e"
  by (cases "ensure_reservation_access t (initiator_or_default i)")
    (auto simp: worm_locked_def enforce_protected_access_def enforce_write_def)

lemma locked_admission:
  assumes "worm_locked t"
  shows "\<exists>e. admit_write L i payload len t = Err e" "\<exists>e. admit_filemarks L i n t = Err e" "\<exists>e. admit_erase L i t = Err e"
  using locked_access [OF assms, of i] by (auto simp: admit_write_def admit_filemarks_def admit_erase_def)

lemma held_recording:
  "tape_rel (\<lambda>t t'. worm_locked t \<longrightarrow> frozen t t') (write_data E L payload i)"
  "tape_rel (\<lambda>t t'. worm_locked t \<longrightarrow> frozen t t') (write_filemarks E L n i)"
  "tape_rel (\<lambda>t t'. worm_locked t \<longrightarrow> frozen t t') (erase_media E L mode i)"
proof -
  show "tape_rel (\<lambda>t t'. worm_locked t \<longrightarrow> frozen t t') (write_data E L payload i)" unfolding write_data_def
    by (intro held.rel_bind held.rel_simple tape_relI)
      (auto simp: frozen_def [of t t for t] intro!: tape_rel_at [OF held_refused [OF locked_admission(1)], THEN mp])
  show "tape_rel (\<lambda>t t'. worm_locked t \<longrightarrow> frozen t t') (write_filemarks E L n i)" unfolding write_filemarks_def
    by (intro held.rel_bind [of "check_tape ensure_loaded"] held.rel_bind [of "check_tape ensure_write_ready"]
        held.rel_bind [of "invalidate_state_read_prefetch E"] held.rel_if held.rel_bind [of "bump f" for f]
        held_refused locked_admission(2) held.rel_simple held.rel_bump held.rel_map_err held.rel_usage)
  show "tape_rel (\<lambda>t t'. worm_locked t \<longrightarrow> frozen t t') (erase_media E L mode i)" unfolding erase_media_def
    by (intro held.rel_bind [of "check_tape ensure_loaded"] held.rel_bind [of "invalidate_state_read_prefetch E"]
        held_refused locked_admission(3) held.rel_simple)
qed

lemma held_set_worm: "tape_rel (\<lambda>t t'. worm_locked t \<longrightarrow> frozen t t') (set_worm_policy worm locked)"
  by (rule tape_relI)
    (auto simp: set_worm_policy_def bind_s_def check_tape_def guard_def frozen_def worm_locked_def split: option.splits sum.splits)

lemma held_load: "tape_rel (\<lambda>t t'. worm_locked t \<longrightarrow> frozen t t') (load_media E V cartridge)"
  unfolding load_media_def attach_cartridge_def
  by (intro held.rel_bind [of "invalidate_state_read_prefetch E"] held.rel_simple held_refused)
    (simp add: worm_locked_def guard_def)

lemmas held_rules = held.rel_bind held.rel_simple held.rel_positioning held.rel_modes held.rel_reservations
  held.rel_read_data held_recording held_set_worm held_load

lemma execute_holds:
  assumes "cmd \<notin> {Unload, Unmount}"
  shows "tape_rel (\<lambda>t t'. worm_locked t \<longrightarrow> frozen t t') (execute E L V cmd)"
  using assms
  by (cases cmd) (simp_all only: execute.simps answer_def done_with_def insert_iff empty_iff simp_thms, (intro held_rules)+)

section \<open>Sequences of commands\<close>

text \<open>
  Commands one after the other.  The answers of the file system and of the
  directory of pools may differ from command to command.
\<close>

inductive drive_steps ::
  "externs \<Rightarrow> CoreCommand list \<Rightarrow> 'z tape_store_scheme machine \<Rightarrow> 'z tape_store_scheme machine \<Rightarrow> bool" for E where
  idle: "drive_steps E [] m m"
| step: "execute E L V cmd m = (r, m1) \<Longrightarrow> drive_steps E cmds m1 m' \<Longrightarrow> drive_steps E (cmd # cmds) m m'"

inductive_cases drive_stepsE: "drive_steps E (cmd # cmds) m m'"

lemma drive_steps_run: "drive_steps E cmds (snd (execute E L V cmd m)) m' \<Longrightarrow> drive_steps E (cmd # cmds) m m'"
  by (rule drive_steps.step [OF prod.collapse [symmetric]])

lemma steps_frozen:
  "drive_steps E cmds m m' \<Longrightarrow> set cmds \<inter> {Unload, Unmount} = {} \<Longrightarrow> worm_locked (tape m) \<Longrightarrow> frozen (tape m) (tape m')"
proof (induction rule: drive_steps.induct)
  case (step L V cmd m r m1 cmds m')
  have "cmd \<notin> {Unload, Unmount}" and rest: "set cmds \<inter> {Unload, Unmount} = {}" using step.prems(1) by auto
  then have f: "frozen (tape m) (tape m1)"
    using tape_rel_at [OF execute_holds, of cmd m E L V] step.hyps(1) step.prems(2) by (simp only: snd_conv simp_thms)
  then have "frozen (tape m1) (tape m')" using step.IH [OF rest] frozen_locked [OF f] step.prems(2) by blast
  then show ?case using f by (simp add: frozen_def)
qed (simp add: frozen_def)

text \<open>
  C5: the index of a drive is in order after any sequence of commands,
  whatever they answer: the positions of the recorded blocks increase strictly
  and are those the block lengths are recorded for, and the drive has a layout
  exactly while a cartridge is loaded.
\<close>

theorem drive_index_kept:
  assumes "drive_steps E cmds m m'" "drive_inv (tape m)"
  shows "drive_inv (tape m')"
  using assms
proof (induction rule: drive_steps.induct)
  case (step L V cmd m r m1 cmds m')
  then show ?case using tape_rel_at [OF execute_keeps, of m E L V cmd] by simp
qed

theorem drive_index_kept_witness:
  "\<exists>m'. drive_steps plain_externs [WriteData [1, 2, 3], Rewind]
      \<lparr>tape = sample_drive, stores = (\<lambda>_. sample_cartridge \<lparr>read_prefetch_jobs = None\<rparr>)\<rparr> m' \<and> drive_inv (tape m')"
proof -
  let ?m = "\<lparr>tape = sample_drive, stores = (\<lambda>_ :: path. sample_cartridge \<lparr>read_prefetch_jobs = None\<rparr>)\<rparr>"
  obtain m' where "drive_steps plain_externs [WriteData [1, 2, 3], Rewind] ?m m'"
    by (rule that, rule drive_steps_run, rule drive_steps_run, rule drive_steps.idle)
  moreover have "drive_inv (tape ?m)" by (simp add: drive_inv_def sample_drive_def tape_new_def index_ok_def bt_ok_def)
  ultimately show ?thesis using drive_index_kept by blast
qed

end
