(* ===== verification/Retention.thy ===== *)
theory Retention
  imports Drive_Invariant
begin

text \<open>
  What locked write-once media keep: until the cartridge is unloaded, no
  sequence of commands changes what any of its blocks reads as.
\<close>

section \<open>What the commands leave of a layout\<close>

text \<open>The drive is loaded from a root with locked media, and its layout satisfies a predicate.\<close>

definition locked_layout :: "path \<Rightarrow> ('st \<Rightarrow> bool) \<Rightarrow> 'st machine \<Rightarrow> bool" where
  "locked_layout root Q m \<longleftrightarrow> worm_locked (tape m) \<and> active_layout (tape m) = Some root \<and> Q (stores m root)"

definition leaves :: "('st machine \<Rightarrow> bool) \<Rightarrow> ('st machine, 'e, 'a) stm \<Rightarrow> bool" where
  "leaves P op \<longleftrightarrow> (\<forall>m. P m \<longrightarrow> P (snd (op m)))"

lemma leavesI: "(\<And>m. P m \<Longrightarrow> P (snd (op m))) \<Longrightarrow> leaves P op"
  by (simp add: leaves_def)

lemma leaves_at: "leaves P op \<Longrightarrow> P m \<Longrightarrow> P (snd (op m))"
  by (simp add: leaves_def)

lemma leaves_bind:
  assumes "leaves P op" "\<And>a. leaves P (f a)"
  shows "leaves P (bind_s op f)"
proof (rule leavesI)
  fix m
  assume m: "P m"
  obtain r m1 where op: "op m = (r, m1)" by fastforce
  then have "P m1" using leaves_at [OF assms(1) m] by simp
  then show "P (snd (bind_s op f m))" using op leaves_at [OF assms(2)] by (cases r) (simp_all add: bind_s_def)
qed

lemma leaves_simple:
  "leaves P (lift_s r)" "leaves P (ret_s a)" "leaves P (err_s e)" "leaves P (check_tape g)"
  "leaves P (\<lambda>m. (x m, m))"
  by (simp_all add: leaves_def)

lemma leaves_if:
  "leaves P op \<Longrightarrow> leaves P op' \<Longrightarrow> leaves P (\<lambda>m. if c m then op m else op' m)"
  "leaves P op \<Longrightarrow> leaves P op' \<Longrightarrow> leaves P (if b then op else op')"
  by (simp_all add: leaves_def)

lemma leaves_map_err: "leaves P op \<Longrightarrow> leaves P (map_err_s f op)"
  by (simp add: leaves_def)

text \<open>
  The layout operations behind the commands that record nothing: a read, a
  flush, the queue of reads ahead and the small files of the drive.
\<close>

locale resting_layout =
  fixes E :: externs and Q :: "'z tape_store_scheme \<Rightarrow> bool"
  assumes reading: "Q s \<Longrightarrow> Q (snd (read_logical_block E p s))"
    and flushing: "Q s \<Longrightarrow> Q (snd (flush_pending_writes E s))"
    and queue: "Q s \<Longrightarrow> Q (s\<lparr>read_prefetch_jobs := q\<rparr>)"
    and side_file: "Q s \<Longrightarrow> f \<in> {Usage_Counters_File, Filemarks_File, Retention_File} \<Longrightarrow>
      Q (files_update (\<lambda>m. m(Tmp f := None, f := b)) s)"
begin

lemma leaves_modify:
  assumes "\<And>t. frozen t (f t)"
  shows "leaves (locked_layout root Q) (modify_tape f)"
proof (rule leavesI)
  fix m
  assume "locked_layout root Q m"
  moreover have "worm_locked (f (tape m)) = worm_locked (tape m)" "active_layout (f (tape m)) = active_layout (tape m)"
    using frozen_locked [OF assms] assms [of "tape m"] by (simp_all only: frozen_def)
  ultimately show "locked_layout root Q (snd (modify_tape f m))" by (simp add: locked_layout_def)
qed

lemma leaves_at_layout:
  assumes "\<And>s. Q s \<Longrightarrow> Q (snd (op s))"
  shows "leaves (locked_layout root Q) (at_layout root op)"
proof (rule leavesI)
  fix m
  assume m: "locked_layout root Q m"
  obtain r s where op: "op (stores m root) = (r, s)" by fastforce
  then have "Q s" using assms [of "stores m root"] m by (simp add: locked_layout_def)
  then show "locked_layout root Q (snd (at_layout root op m))" using m op by (simp add: at_layout_def locked_layout_def)
qed

lemma leaves_storage: "(\<And>s. Q s \<Longrightarrow> Q (snd (op s))) \<Longrightarrow> leaves (locked_layout root Q) (storage root op)"
  unfolding storage_def by (intro leaves_map_err leaves_at_layout)

lemma joining: "Q s \<Longrightarrow> Q (join_jobs E ps s)"
  by (induction ps arbitrary: s) (simp_all add: join_jobs_def reading)

lemma leaves_invalidate: "leaves (locked_layout root Q) (invalidate_state_read_prefetch E)"
proof (rule leavesI)
  fix m
  assume m: "locked_layout root Q m"
  have "locked_layout root Q (snd (at_layout root (invalidate_read_prefetch E :: (_, TapeError, _) stm) m))"
    by (rule leaves_at [OF leaves_at_layout m]) (simp add: invalidate_read_prefetch_def joining queue)
  then show "locked_layout root Q (snd (invalidate_state_read_prefetch E m))"
    using m by (simp add: invalidate_state_read_prefetch_def locked_layout_def)
qed

lemma leaves_bump: "leaves (locked_layout root Q) (bump counter)"
  unfolding bump_def by (rule leaves_modify) (subst counter_fields(1), simp add: frozen_def)

lemma leaves_persist_usage: "leaves (locked_layout root Q) persist_usage_counters"
  by (rule leavesI) (simp add: persist_usage_run locked_layout_def worm_locked_def side_file)

lemma leaves_usage:
  "leaves (locked_layout root Q) (record_read_usage F n)" "leaves (locked_layout root Q) (record_filemark_usage F n)"
proof -
  have count: "leaves (locked_layout root Q) (modify_s (tape_update (usage_counters_update f)))" for f
    by (rule leavesI) (simp add: locked_layout_def worm_locked_def)
  have tick: "leaves (locked_layout root Q) (modify_s (tape_update (\<lambda>t. t\<lparr>usage_counters_dirty_ops := d t\<rparr>)))" for d
    by (rule leavesI) (simp add: locked_layout_def worm_locked_def)
  have mark: "leaves (locked_layout root Q) (mark_usage_counters_dirty F)"
    unfolding mark_usage_counters_dirty_def by (intro leaves_bind leaves_if tick leaves_persist_usage leaves_simple)
  show "leaves (locked_layout root Q) (record_read_usage F n)" "leaves (locked_layout root Q) (record_filemark_usage F n)"
    unfolding record_read_usage_def record_filemark_usage_def by (intro leaves_bind count mark)+
qed

lemma leaves_layout:
  "leaves (locked_layout root Q) (g root) \<Longrightarrow>
   leaves (locked_layout root Q) (\<lambda>m. case active_layout (tape m) of Some r \<Rightarrow> g r m | None \<Rightarrow> (x, m))"
  "leaves (locked_layout root Q) (g root) \<Longrightarrow> leaves (locked_layout root Q) (bind_s (check_tape loaded_layout) g)"
  by (auto simp: leaves_def locked_layout_def loaded_layout_def bind_s_def)

lemma leaves_positioning:
  "leaves (locked_layout root Q) (rewind_media E)" "leaves (locked_layout root Q) (space E branch n)"
  "leaves (locked_layout root Q) (locate E p)"
  unfolding rewind_media_def space_def locate_def move_to_def
  by (intro leaves_bind leaves_simple leaves_invalidate leaves_bump leaves_modify leaves_layout(1) leaves_storage flushing;
      simp add: frozen_def)+

lemma leaves_modes:
  "leaves (locked_layout root Q) (set_block_mode_fixed n)" "leaves (locked_layout root Q) set_block_mode_variable"
  "leaves (locked_layout root Q) (mode_sense page)" "leaves (locked_layout root Q) (log_sense page)"
  unfolding set_block_mode_fixed_def set_block_mode_variable_def mode_sense_def log_sense_def Let_def
  by (intro leaves_bind leaves_simple leaves_bump leaves_modify leaves_if; simp add: frozen_def)+

lemma leaves_reservation: "leaves (locked_layout root Q) (when_loaded (on_reservation f))"
proof -
  have "leaves (locked_layout root Q) (on_tape (on_reservation f))"
    by (rule leavesI) (auto simp: on_tape_def on_reservation_def locked_layout_def worm_locked_def split: sum.splits)
  then show ?thesis unfolding when_loaded_def by (intro leaves_bind leaves_simple)
qed

lemma leaves_reservations:
  "leaves (locked_layout root Q) (register_reservation i k)" "leaves (locked_layout root Q) (register_ignore_reservation i k)"
  "leaves (locked_layout root Q) (reserve_reservation i k)" "leaves (locked_layout root Q) (release_reservation i k)"
  "leaves (locked_layout root Q) (clear_reservation i k)" "leaves (locked_layout root Q) (preempt_reservation i k sk)"
  "leaves (locked_layout root Q) (register_and_move_reservation i k sk target unregister)"
  unfolding register_reservation_def register_ignore_reservation_def reserve_reservation_def release_reservation_def
    clear_reservation_def preempt_reservation_def register_and_move_reservation_def register_ignore_existing_def
    register_key_def reserve_key_def release_key_def clear_keys_def preempt_key_def register_and_move_key_def
  by (intro leaves_reservation)+

lemma leaves_read_data: "leaves (locked_layout root Q) (read_data E)"
proof -
  have block: "leaves (locked_layout root Q) (bind_s (read_mapped E root p) (\<lambda>r. bind_s (lift_s (g r)) (\<lambda>_.
      bind_s (modify_tape (\<lambda>t. t\<lparr>current_position := current_position t + ucast (lr_logical_len r)\<rparr>)) (\<lambda>_.
      bind_s (count_read_block E r) (\<lambda>_. ret_s (lr_payload r))))))" for p g
    unfolding read_mapped_def count_read_block_def
    by (intro leaves_bind leaves_simple leaves_modify leaves_bump leaves_map_err leaves_usage leaves_storage reading;
        simp add: frozen_def)
  have skip: "leaves (locked_layout root Q) (skip_filemark n d)" for n d
    unfolding skip_filemark_def by (intro leaves_bind leaves_simple leaves_modify) (simp add: frozen_def)
  show ?thesis unfolding read_data_def Let_def
    by (intro leaves_bind [of _ "check_tape ensure_loaded"] leaves_bind [of _ "check_tape ensure_recovery_complete"]
        leaves_layout(2) leaves_simple leaves_if(1) skip) (rule leavesI, rule leaves_at, rule block)
qed

lemma leaves_refused:
  assumes "\<And>t. worm_locked t \<Longrightarrow> \<exists>e. g t = Err e"
  shows "leaves (locked_layout root Q) (bind_s (check_tape g) f)"
  using assms by (fastforce simp: leaves_def bind_s_def check_tape_def locked_layout_def)

lemma leaves_recording:
  "leaves (locked_layout root Q) (write_data E L payload i)" "leaves (locked_layout root Q) (write_filemarks E L n i)"
  "leaves (locked_layout root Q) (erase_media E L mode i)"
proof -
  show "leaves (locked_layout root Q) (write_data E L payload i)" unfolding write_data_def
    by (intro leaves_refused [OF locked_admission(1)] leaves_if leaves_simple leaves_invalidate
        leaves_bind [of _ "check_tape ensure_loaded"] leaves_bind [of _ "check_tape ensure_write_ready"]
        leaves_bind [of _ "invalidate_state_read_prefetch E"] leaves_bind [of _ "lift_s r" for r])
  show "leaves (locked_layout root Q) (write_filemarks E L n i)" unfolding write_filemarks_def
    by (intro leaves_refused [OF locked_admission(2)] leaves_if(2) leaves_simple leaves_invalidate leaves_bump
        leaves_map_err leaves_usage
        leaves_bind [of _ "check_tape ensure_loaded"] leaves_bind [of _ "check_tape ensure_write_ready"]
        leaves_bind [of _ "invalidate_state_read_prefetch E"] leaves_bind [of _ "bump f" for f])
  show "leaves (locked_layout root Q) (erase_media E L mode i)" unfolding erase_media_def
    by (intro leaves_refused [OF locked_admission(3)] leaves_simple leaves_invalidate
        leaves_bind [of _ "check_tape ensure_loaded"] leaves_bind [of _ "invalidate_state_read_prefetch E"])
qed

lemma leaves_set_worm: "leaves (locked_layout root Q) (set_worm_policy worm locked)"
proof (rule leavesI)
  fix m
  assume m: "locked_layout root Q m"
  then have "Q (snd (persist_retention_state True True (stores m root)))"
    by (simp add: locked_layout_def persist_retention_state_def atomic_write_run side_file Let_def)
  then show "locked_layout root Q (snd (set_worm_policy worm locked m))" using m
    by (auto simp: set_worm_policy_def bind_s_def check_tape_def guard_def locked_layout_def worm_locked_def storage_def
        at_layout_def split: sum.splits prod.splits)
qed

lemma leaves_load: "leaves (locked_layout root Q) (load_media E V cartridge)"
  unfolding load_media_def attach_cartridge_def
  by (intro leaves_bind [of _ "invalidate_state_read_prefetch E"] leaves_invalidate leaves_refused)
    (simp add: worm_locked_def guard_def)

lemmas leaves_rules = leaves_bind leaves_simple leaves_positioning leaves_modes leaves_reservations leaves_read_data
  leaves_recording leaves_set_worm leaves_load

lemma leaves_execute:
  assumes "cmd \<notin> {Unload, Unmount}"
  shows "leaves (locked_layout root Q) (execute E L V cmd)"
  using assms
  by (cases cmd) (simp_all only: execute.simps answer_def done_with_def insert_iff empty_iff simp_thms, (intro leaves_rules)+)

end

section \<open>Locked cartridges\<close>

lemma flush_run:
  assumes "layout_rep E s bl ll dl idx segs"
  shows "layout_rep E (snd (flush_pending_writes E s)) bl ll dl idx segs"
proof -
  obtain c where "ckpt_rep E s c" using assms by (auto simp: layout_rep_def)
  then obtain s1 where s1: "load_checkpoint_cached E s = (Ok c, s1)" "ckpt_rep E s1 c" "ckpt_frame s s1"
    using load_checkpoint_run by blast
  then have rep: "layout_rep E s1 bl ll dl idx segs" using layout_rep_ckpt_frame [OF assms] by blast
  obtain s2 s3 where "sync_layout_segments E s1 = (Ok (), s2)" "persist_checkpoint_cached E (next_epoch Clean c) s2 = (Ok (), s3)"
    "layout_rep E s3 bl ll dl idx segs" using close_run [OF rep] by blast
  then show ?thesis using s1(1) rep by (simp add: flush_pending_writes_def clear_pending_writes_def layout_rep_pending)
qed

interpretation resting: resting_layout E "\<lambda>s. hash_order_ok E \<and> layout_rep E s bl ll dl idx segs"
  for E bl ll dl idx segs
proof unfold_locales
  fix s p
  assume "hash_order_ok E \<and> layout_rep E s bl ll dl idx segs"
  then show "hash_order_ok E \<and> layout_rep E (snd (read_logical_block E p s)) bl ll dl idx segs"
    using read_run [of E s bl ll dl idx segs p] by auto
qed (auto simp: flush_run layout_rep_side_file)

lemma steps_locked_layout:
  "drive_steps E cmds m m' \<Longrightarrow> set cmds \<inter> {Unload, Unmount} = {} \<Longrightarrow>
   locked_layout root (\<lambda>s. hash_order_ok E \<and> layout_rep E s bl ll dl idx segs) m \<Longrightarrow>
   locked_layout root (\<lambda>s. hash_order_ok E \<and> layout_rep E s bl ll dl idx segs) m'"
proof (induction rule: drive_steps.induct)
  case (step L V cmd m r m1 cmds m')
  have cmd: "cmd \<notin> {Unload, Unmount}" and rest: "set cmds \<inter> {Unload, Unmount} = {}" using step.prems(1) by auto
  have "locked_layout root (\<lambda>s. hash_order_ok E \<and> layout_rep E s bl ll dl idx segs) m1"
    using leaves_at [OF resting.leaves_execute [OF cmd] step.prems(2), of L V] step.hyps(1) by (simp only: snd_conv)
  then show ?case by (rule step.IH [OF rest])
qed



end
