(* ===== verification/Cdb_Wire.thy ===== *)
theory Cdb_Wire
  imports Storage_Base
begin

text \<open>
  The frames between the kernel handler and the data plane
  (\<^verbatim>\<open>iscsi/cdb_wire.rs\<close>).  A reader is the bytes still to come; reading
  past the end fails.  Initiator names are ASCII text.
\<close>

section \<open>Constants and frames\<close>

definition SCSI_STATUS_GOOD :: u8 where "SCSI_STATUS_GOOD = 0x00"
definition SCSI_STATUS_CHECK_CONDITION :: u8 where "SCSI_STATUS_CHECK_CONDITION = 0x02"
definition SCSI_STATUS_BUSY :: u8 where "SCSI_STATUS_BUSY = 0x08"

definition MAX_SENSE_LEN :: nat where "MAX_SENSE_LEN = 252"
definition MAX_DATA_LEN :: nat where "MAX_DATA_LEN = 16777216"
definition EXTENDED_REQUEST_MARKER :: u8 where "EXTENDED_REQUEST_MARKER = 0xFF"
definition EXTENDED_REQUEST_VERSION :: u8 where "EXTENDED_REQUEST_VERSION = 0x01"
definition MAX_INITIATOR_LEN :: nat where "MAX_INITIATOR_LEN = 255"

record CdbPacketHeader =
  hdr_cdb :: bytes
  hdr_data_len :: nat
  hdr_initiator :: "string option"

record CdbPacket =
  pkt_cdb :: bytes
  pkt_data :: bytes
  pkt_initiator :: "string option"

record CdbResponse =
  resp_sense :: bytes
  resp_reply :: bytes
  resp_status :: u8

definition packet_new :: "bytes \<Rightarrow> bytes \<Rightarrow> CdbPacket" where
  "packet_new cdb data = \<lparr>pkt_cdb = cdb, pkt_data = data, pkt_initiator = None\<rparr>"

definition packet_with_initiator :: "bytes \<Rightarrow> bytes \<Rightarrow> string \<Rightarrow> CdbPacket" where
  "packet_with_initiator cdb data initiator =
     \<lparr>pkt_cdb = cdb, pkt_data = data, pkt_initiator = Some initiator\<rparr>"

definition response_good :: "bytes \<Rightarrow> CdbResponse" where
  "response_good reply = \<lparr>resp_sense = [], resp_reply = reply, resp_status = SCSI_STATUS_GOOD\<rparr>"

definition response_check_condition :: "bytes \<Rightarrow> CdbResponse" where
  "response_check_condition sense =
     \<lparr>resp_sense = sense, resp_reply = [], resp_status = SCSI_STATUS_CHECK_CONDITION\<rparr>"

definition response_busy :: CdbResponse where
  "response_busy = \<lparr>resp_sense = [], resp_reply = [], resp_status = SCSI_STATUS_BUSY\<rparr>"

section \<open>Encoding\<close>

definition valid_cdb_len :: "nat \<Rightarrow> bool" where
  "valid_cdb_len n \<longleftrightarrow> n = 6 \<or> n = 10 \<or> n = 12 \<or> n = 16"

text \<open>The trimmed initiator, absent when nothing is left of it.\<close>

definition normalized_initiator :: "string option \<Rightarrow> string option" where
  "normalized_initiator i =
     (case i of None \<Rightarrow> None | Some raw \<Rightarrow> if trim raw = [] then None else Some (trim raw))"

definition packet_encode :: "CdbPacket \<Rightarrow> (io_error, bytes) result" where
  "packet_encode p =
     (let cdb_len = length (pkt_cdb p); data_len = length (pkt_data p);
          body = of_nat cdb_len # pkt_cdb p @ to_be_bytes (of_nat data_len :: u32) @ pkt_data p in
      bind_r (guard (valid_cdb_len cdb_len)
        (IoOther (''unsupported CDB length: '' @ decimal cdb_len))) (\<lambda>_.
      bind_r (guard (data_len \<le> MAX_DATA_LEN) (IoOther ''data too large'')) (\<lambda>_.
      case normalized_initiator (pkt_initiator p) of
        Some initiator \<Rightarrow>
          bind_r (guard (length initiator \<le> MAX_INITIATOR_LEN) (IoOther ''initiator too long'')) (\<lambda>_.
          Ok (EXTENDED_REQUEST_MARKER # EXTENDED_REQUEST_VERSION # of_nat (length initiator) #
              as_bytes initiator @ body))
      | None \<Rightarrow> Ok body)))"

definition response_encode :: "CdbResponse \<Rightarrow> (io_error, bytes) result" where
  "response_encode r =
     (let sense_len = length (resp_sense r); reply_len = length (resp_reply r) in
      bind_r (guard (sense_len \<le> MAX_SENSE_LEN) (IoOther ''sense too long'')) (\<lambda>_.
      bind_r (guard (reply_len \<le> MAX_DATA_LEN) (IoOther ''reply too large'')) (\<lambda>_.
      Ok (of_nat sense_len # resp_sense r @ to_be_bytes (of_nat reply_len :: u32) @
          resp_reply r @ [resp_status r]))))"

section \<open>Decoding\<close>

definition read_exact :: "nat \<Rightarrow> (bytes, io_error, bytes) stm" where
  "read_exact n r = (if n \<le> length r then (Ok (take n r), drop n r) else (Err IoUnexpectedEof, []))"

definition read_u8 :: "(bytes, io_error, u8) stm" where
  "read_u8 = bind_s (read_exact 1) (\<lambda>b. ret_s (byte_at 0 b))"

definition read_initiator :: "nat \<Rightarrow> (bytes, io_error, string option) stm" where
  "read_initiator n =
     (if n = 0 then ret_s None
      else bind_s (read_exact n) (\<lambda>buf.
           case read_text buf of
             None \<Rightarrow> err_s (IoInvalidData ''initiator is not utf-8'')
           | Some value \<Rightarrow> ret_s (normalized_initiator (Some value))))"

definition read_extension :: "(bytes, io_error, string option \<times> u8) stm" where
  "read_extension =
     bind_s read_u8 (\<lambda>first.
     if first = EXTENDED_REQUEST_MARKER then
       bind_s read_u8 (\<lambda>version.
       bind_s (lift_s (guard (version = EXTENDED_REQUEST_VERSION)
         (IoInvalidData (''unsupported CDB frame version: '' @ decimal (unat version))))) (\<lambda>_.
       bind_s read_u8 (\<lambda>initiator_len.
       bind_s (read_initiator (unat initiator_len)) (\<lambda>initiator.
       bind_s read_u8 (\<lambda>cdb_len. ret_s (initiator, cdb_len))))))
     else ret_s (None, first))"

definition decode_header :: "(bytes, io_error, CdbPacketHeader) stm" where
  "decode_header =
     bind_s read_extension (\<lambda>(initiator, cdb_len_byte).
     let cdb_len = unat cdb_len_byte in
     bind_s (lift_s (guard (valid_cdb_len cdb_len)
       (IoInvalidData (''unsupported CDB length: '' @ decimal cdb_len)))) (\<lambda>_.
     bind_s (read_exact cdb_len) (\<lambda>cdb.
     bind_s (read_exact 4) (\<lambda>len_buf.
     let data_len = unat (from_be_bytes len_buf :: u32) in
     bind_s (lift_s (guard (data_len \<le> MAX_DATA_LEN)
       (IoInvalidData (''data_len '' @ decimal data_len @ '' exceeds maximum '' @
          decimal MAX_DATA_LEN)))) (\<lambda>_.
     ret_s \<lparr>hdr_cdb = cdb, hdr_data_len = data_len, hdr_initiator = initiator\<rparr>)))))"

definition packet_decode :: "(bytes, io_error, CdbPacket) stm" where
  "packet_decode =
     bind_s decode_header (\<lambda>h.
     bind_s (read_exact (hdr_data_len h)) (\<lambda>data.
     ret_s \<lparr>pkt_cdb = hdr_cdb h, pkt_data = data, pkt_initiator = hdr_initiator h\<rparr>))"

definition response_decode :: "(bytes, io_error, CdbResponse) stm" where
  "response_decode =
     bind_s read_u8 (\<lambda>sense_len.
     bind_s (read_exact (unat sense_len)) (\<lambda>sense.
     bind_s (read_exact 4) (\<lambda>len_buf.
     let reply_len = unat (from_be_bytes len_buf :: u32) in
     bind_s (lift_s (guard (reply_len \<le> MAX_DATA_LEN)
       (IoInvalidData (''reply_len '' @ decimal reply_len @ '' exceeds maximum '' @
          decimal MAX_DATA_LEN)))) (\<lambda>_.
     bind_s (read_exact reply_len) (\<lambda>reply.
     bind_s read_u8 (\<lambda>status.
     ret_s \<lparr>resp_sense = sense, resp_reply = reply, resp_status = status\<rparr>))))))"

section \<open>Round trips\<close>

lemma read_exact_here [simp]: "length a = n \<Longrightarrow> read_exact n (a @ r) = (Ok a, r)"
  by (simp add: read_exact_def)

lemma read_u8_here [simp]: "read_u8 (b # r) = (Ok b, r)"
  by (simp add: read_u8_def read_exact_def bind_s_def byte_at_def)

lemma length_as_bytes [simp]: "length (as_bytes s) = length s"
  by (simp add: as_bytes_def)

lemma unat_of_nat_u8: "n < 256 \<Longrightarrow> unat (of_nat n :: u8) = n"
  by (simp add: unat_of_nat)

lemma unat_of_nat_data_len: "n \<le> MAX_DATA_LEN \<Longrightarrow> unat (of_nat n :: u32) = n"
  by (simp add: unat_of_nat MAX_DATA_LEN_def)

lemma packet_body_decode:
  assumes "valid_cdb_len (length cdb)" "length data \<le> MAX_DATA_LEN"
    and "read_extension s = (Ok (i, of_nat (length cdb)),
      cdb @ to_be_bytes (of_nat (length data) :: u32) @ data @ rest)"
  shows "packet_decode s = (Ok \<lparr>pkt_cdb = cdb, pkt_data = data, pkt_initiator = i\<rparr>, rest)"
proof -
  have "unat (of_nat (length cdb) :: u8) = length cdb"
    using assms(1) by (auto simp: valid_cdb_len_def intro!: unat_of_nat_u8)
  then show ?thesis
    using assms by (simp add: packet_decode_def decode_header_def Let_def guard_def bind_s_def
        unat_of_nat_data_len)
qed

lemma packet_decode_encode:
  assumes enc: "packet_encode p = Ok b"
    and ascii: "\<And>i. pkt_initiator p = Some i \<Longrightarrow> list_all (\<lambda>c. char_code c < 128) i"
  shows "packet_decode (b @ rest) =
    (Ok (p\<lparr>pkt_initiator := normalized_initiator (pkt_initiator p)\<rparr>), rest)"
proof -
  let ?n = "length (pkt_cdb p)"
  have lens: "valid_cdb_len ?n" "length (pkt_data p) \<le> MAX_DATA_LEN"
    using enc by (auto simp: packet_encode_def Let_def guard_def split: if_splits)
  then have first: "unat (of_nat ?n :: u8) = ?n" "?n < 255"
    by (auto simp: valid_cdb_len_def intro!: unat_of_nat_u8)
  have p: "p\<lparr>pkt_initiator := i\<rparr> = \<lparr>pkt_cdb = pkt_cdb p, pkt_data = pkt_data p, pkt_initiator = i\<rparr>" for i
    by simp
  show ?thesis
  proof (cases "normalized_initiator (pkt_initiator p)")
    case None
    have "(of_nat ?n :: u8) \<noteq> EXTENDED_REQUEST_MARKER"
      using first by (auto simp: EXTENDED_REQUEST_MARKER_def word_unat_eq_iff)
    with None enc lens show ?thesis
      by (auto simp: p packet_encode_def Let_def read_extension_def intro!: packet_body_decode)
  next
    case (Some i)
    then obtain raw where raw: "pkt_initiator p = Some raw" "i = trim raw" "i \<noteq> []"
      by (auto simp: normalized_initiator_def split: option.splits if_splits)
    have i: "length i \<le> 255"
      using Some enc lens
      by (auto simp: packet_encode_def guard_def MAX_INITIATOR_LEN_def Let_def split: if_splits)
    have name: "read_text (as_bytes i) = Some i"
      using ascii [OF raw(1)] set_trim [of raw]
      by (intro read_text_as_bytes) (auto simp: raw(2) list_all_iff)
    have init: "read_initiator (unat (of_nat (length i) :: u8)) (as_bytes i @ r) = (Ok (Some i), r)" for r
      using i raw(2,3) name
      by (simp add: unat_of_nat_u8 read_initiator_def bind_s_def normalized_initiator_def)
    show ?thesis
      using Some enc lens
      by (auto simp: p packet_encode_def Let_def read_extension_def guard_def bind_s_def init
          intro!: packet_body_decode)
  qed
qed

lemma response_decode_encode:
  assumes "response_encode r = Ok b"
  shows "response_decode (b @ rest) = (Ok r, rest)"
  using assms
  by (auto simp: response_encode_def response_decode_def Let_def guard_def bind_s_def MAX_SENSE_LEN_def
      unat_of_nat_data_len unat_of_nat_u8 split: if_splits)

text \<open>
  C34: a request or response frame that could be sent is decoded to what was
  sent, with the initiator trimmed and a blank one absent, and the bytes of
  the next frame are left in the stream.
\<close>

theorem wire_roundtrip:
  assumes "packet_encode p = Ok b" "\<forall>i. pkt_initiator p = Some i \<longrightarrow> list_all (\<lambda>c. char_code c < 128) i"
    and "response_encode r = Ok c"
  shows "packet_decode (b @ rest) =
      (Ok (p\<lparr>pkt_initiator := normalized_initiator (pkt_initiator p)\<rparr>), rest) \<and>
    response_decode (c @ rest) = (Ok r, rest)"
  using packet_decode_encode [OF assms(1)] assms(2) response_decode_encode [OF assms(3)] by blast

theorem wire_roundtrip_witness:
  "packet_decode ([0xFF, 1, 1, 97, 6, 8, 0, 0, 0, 4, 0, 0, 0, 0, 2, 5, 6] @ [9]) =
     (Ok \<lparr>pkt_cdb = [8, 0, 0, 0, 4, 0], pkt_data = [5, 6], pkt_initiator = Some ''a''\<rparr>, [9])"
proof -
  let ?p = "packet_with_initiator [8, 0, 0, 0, 4, 0] [5, 6] '' a''"
  have trim: "trim '' a'' = ''a''" by (simp add: trim_def is_whitespace_def char_code_def)
  have be: "to_be_bytes (2 :: u32) = [0, 0, 0, 2]" "to_be_bytes (0 :: u32) = [0, 0, 0, 0]"
    by code_simp+
  have req: "packet_encode ?p = Ok [0xFF, 1, 1, 97, 6, 8, 0, 0, 0, 4, 0, 0, 0, 0, 2, 5, 6]"
    by (simp add: packet_encode_def packet_with_initiator_def normalized_initiator_def trim be
        valid_cdb_len_def MAX_DATA_LEN_def MAX_INITIATOR_LEN_def EXTENDED_REQUEST_MARKER_def
        EXTENDED_REQUEST_VERSION_def guard_def as_bytes_def char_code_def)
  have resp: "response_encode response_busy = Ok [0, 0, 0, 0, 0, 8]"
    by (simp add: response_encode_def response_busy_def MAX_SENSE_LEN_def MAX_DATA_LEN_def guard_def
        SCSI_STATUS_BUSY_def be)
  have "\<forall>i. pkt_initiator ?p = Some i \<longrightarrow> list_all (\<lambda>c. char_code c < 128) i"
    by (simp add: packet_with_initiator_def char_code_def)
  from wire_roundtrip [OF req this resp, of "[9]"] show ?thesis
    by (simp add: packet_with_initiator_def normalized_initiator_def trim)
qed

end
