(* ===== verification/Spec2Isabelle.thy ===== *)
theory Spec2Isabelle
  imports Retention Cdb_Wire
begin

text \<open>
  \<^bold>\<open>The Holo data plane.\<close>  A model of the storage engine and of the tape drive
  of the Holo virtual tape library, written in Rust under
  \<^verbatim>\<open>src/data-plane/src\<close>, and the theorems that make its parts correct.

  \<^bold>\<open>The program.\<close>  A cartridge is a directory, its \<^emph>\<open>layout\<close>.  The blocks of
  the tape are stored as blobs in data segments (\<^verbatim>\<open>data_path.rs\<close>); the segment
  index says which segment holds a blob, the block map which logical range of
  the tape is which blob, the lookup table finds the record of a position, the
  deduplication index finds a blob with a payload, the reclaim file lists
  records whose space may be freed, and the checkpoint page says whether the
  layout was closed.  All of these are segment files with a header kept twice
  and a payload that is a log of fixed-size records; each has a cache in memory.
  A drive (\<^verbatim>\<open>state.rs\<close>) has a position, filemarks, an index of the recorded
  blocks, reservations and counters; the commands (\<^verbatim>\<open>command_chain.rs\<close>) work
  on the drive and on the layout of the cartridge that is loaded
  (\<^verbatim>\<open>mount_bridge.rs\<close>), after recovery if it was not closed.  A dispatcher
  (\<^verbatim>\<open>commands_core.rs\<close>) runs them and turns errors into sense data.

  \<^bold>\<open>How it is modelled.\<close>  Machine integers are words of their width, with the
  checked, saturating and wrapping operations of the source; \<^verbatim>\<open>usize\<close> is
  \<^typ>\<open>nat\<close>.  A fallible function returns a sum, \<^verbatim>\<open>Inr\<close> for success.  A
  function with effects takes a state and returns a result and a state, also
  when it fails, so that what a failed operation left behind is visible.  The
  state is an extensible record that grows with the components: the files of
  a layout (\<^verbatim>\<open>layout_files\<close>), then the open files, then the caches of the
  block map, the lookup table, the deduplication index, the segment index and
  the data segments, then the queue of reads ahead.  A machine is a drive and
  a store for every directory.  Third-party code is the record
  \<^typ>\<open>externs\<close>: CRC, BLAKE3, LZ4, zlib, the kernel's answer to a gathering
  write, the iteration order of a \<^verbatim>\<open>HashMap\<close> and the environment variables;
  \<^verbatim>\<open>externs_ok\<close> has what the code relies on, and \<^verbatim>\<open>plain_externs\<close> is an
  instance that satisfies it and on which the witnesses run.  The answers of
  the operating system to a mount and to the admission of a write are the
  records \<^typ>\<open>mount_env\<close> and \<^typ>\<open>filesystem_lock\<close>.

  \<^bold>\<open>The theories.\<close>

  \<^item> \<^verbatim>\<open>Prelude\<close>, \<^verbatim>\<open>Rust_Text\<close>, \<^verbatim>\<open>Rust_Map\<close>: integers, byte codecs, results, the
    state monad, text routines and \<^verbatim>\<open>BTreeMap\<close>.

  \<^item> \<^verbatim>\<open>Space_Guard\<close> (\<^verbatim>\<open>space_guard.rs\<close>), \<^verbatim>\<open>Storage_Base\<close> (\<^verbatim>\<open>metadata.rs\<close>, the files
    of a layout), \<^verbatim>\<open>Compression\<close> (\<^verbatim>\<open>compression.rs\<close>), \<^verbatim>\<open>Layout\<close> (\<^verbatim>\<open>layout.rs\<close>),
    \<^verbatim>\<open>Segment\<close> (\<^verbatim>\<open>segment.rs\<close>): estimates of space, codecs, headers and
    directories, whole-file writes and appends.  An admitted write fits; codecs
    and segment files round-trip; the gathering write ends; an interrupted
    header update leaves one of the two headers readable.

  \<^item> \<^verbatim>\<open>Record_Log\<close> and \<^verbatim>\<open>Log_Table\<close>: the locales \<^verbatim>\<open>record_codec\<close> and
    \<^verbatim>\<open>log_table\<close>, the contract of a table with its file and its cache.  The
    first is interpreted on the records of the block map, the lookup table, the
    deduplication index, the segment index and the reclaim file, the second on
    the lookup table and the deduplication index.

  \<^item> \<^verbatim>\<open>Metadata\<close>, \<^verbatim>\<open>Blk_Map\<close>, \<^verbatim>\<open>Map_Lookup\<close>, \<^verbatim>\<open>Dedup\<close>, \<^verbatim>\<open>Segment_Index\<close>,
    \<^verbatim>\<open>Reclaim\<close> (the files of the same names): codecs of every format, loading
    with its limits, appending, searching and rewriting.  The records of the
    block map stay disjoint, the searches find exactly what they should, an
    update of the deduplication index implements its abstract specification.

  \<^item> \<^verbatim>\<open>Data_Blob\<close>, \<^verbatim>\<open>Data_Path\<close>, \<^verbatim>\<open>Overwrite\<close>, \<^verbatim>\<open>Layout_Boot\<close>, \<^verbatim>\<open>Recovery\<close>
    (\<^verbatim>\<open>data_path.rs\<close>, \<^verbatim>\<open>layout.rs\<close>): blobs and the scan of a segment, writing,
    reading, unmapping, flushing, the reset for overwriting, bring-up and
    recovery.  The predicate \<^verbatim>\<open>layout_rep\<close> relates a layout to the records
    and blobs it stands for; a written block is read back and no other address
    changes; a reset layout is empty; recovery changes no file before
    every active record was checked.

  \<^item> \<^verbatim>\<open>Runtime_State\<close>, \<^verbatim>\<open>Tape_State\<close>, \<^verbatim>\<open>Reservation\<close>, \<^verbatim>\<open>Sense\<close>, \<^verbatim>\<open>Mam\<close>,
    \<^verbatim>\<open>Session\<close>, \<^verbatim>\<open>Identity\<close>, \<^verbatim>\<open>Cdb_Wire\<close> (\<^verbatim>\<open>runtime_state.rs\<close>, \<^verbatim>\<open>scsi_tape\<close>,
    \<^verbatim>\<open>iscsi\<close>, \<^verbatim>\<open>worm\<close>): the drive, its reservations as a step relation, its
    pages, the frames of the kernel handler.

  \<^item> \<^verbatim>\<open>Tape_Position\<close> and \<^verbatim>\<open>Command_Chain\<close> (\<^verbatim>\<open>command_chain.rs\<close>): moving on the
    tape and all commands.  SPACE moves by exactly the blocks it is told; a
    block written by a command is located and read back by commands.

  \<^item> \<^verbatim>\<open>Mount_Bridge\<close> (\<^verbatim>\<open>mount_bridge.rs\<close>, \<^verbatim>\<open>layout_lease.rs\<close>) and
    \<^verbatim>\<open>Commands_Core\<close> (\<^verbatim>\<open>commands_core.rs\<close>): loading, unloading, the dispatcher.

  \<^item> \<^verbatim>\<open>Drive_Invariant\<close> and \<^verbatim>\<open>Retention\<close>: what sequences of commands keep.  The
    locales \<^verbatim>\<open>drive_relation\<close>, \<^verbatim>\<open>recording_relation\<close> and \<^verbatim>\<open>resting_layout\<close> say
    what a command may change of a drive and of a layout, and are interpreted
    on the invariant of the drive and on locked media.  The block index stays
    in order under every sequence of commands; while locked write-once media
    stay in the drive, nothing on them changes.

  \<^bold>\<open>Bounds.\<close>  No theorem rests on fuel that could run out.  The loops of the
  code that are not structural have a bound that is proved to be enough: the
  gathering write takes at least one byte per round, the scan of a segment
  advances by at least one blob header per round.  The hypotheses
  \<^verbatim>\<open>write_room\<close> of the write theorems are the limits of the code itself: the
  record limits of the tables, identifiers not exhausted, a range that does
  not wrap and does not overlap an active record, payloads within the limit
  of the decompressor, and checksums that are not the value zero by which the
  code marks a missing checksum; theorems on the block map and on segments
  show what happens beyond two of these limits.

  \<^bold>\<open>Not modelled.\<close>  Files are whole byte strings that a write changes at
  once, except where a theorem is about an interrupted write; \<^verbatim>\<open>fsync\<close>, link
  counts, inode numbers and file types are left out, and so are input and
  output errors other than missing and short files.  Threads appear only as the queue of reads
  ahead, whose jobs run when they are joined.  Locks of leases and of the
  space guard are parameters.  Time is not modelled, nor the traces that only
  print.  Strings are ASCII.

  The command server for drive and changer (\<^verbatim>\<open>cdb_server.rs\<close>, \<^verbatim>\<open>cdb_drive.rs\<close>,
  \<^verbatim>\<open>cdb_changer.rs\<close>, \<^verbatim>\<open>cdb_modes.rs\<close>) is not modelled: it decodes command blocks
  into the modelled commands, and works with sockets and with files another
  process writes.  Offline reclaim and compaction (\<^verbatim>\<open>offline_reclaim.rs\<close>,
  \<^verbatim>\<open>compaction.rs\<close>) are jobs of the maintenance tool; the first is about link
  counts and the order of \<^verbatim>\<open>fsync\<close>, which the file model does not have.  The
  profile tables, telemetry, the kernel handler, the maintenance front end, the
  control plane in Go, the web console and the scripts are outside of the
  development.
\<close>

end
